(* ===== verification/Prelude.thy ===== *)
theory Prelude
  imports Main "HOL-Library.Code_Target_Nat" "HOL-Library.Word" "HOL-Library.Sublist" "HOL-Library.Multiset" "HOL-Library.AList"
begin

text \<open>
  Shared vocabulary of the development.  It holds the machine integer types of the Rust
  code, the release-mode integer operations the code calls by name (\<open>saturating_sub\<close>,
  \<open>min\<close>, \<open>sum\<close>), the association lists that stand for \<open>HashMap\<close> and \<open>BTreeMap\<close>,
  the stable sort behind \<open>sort_by\<close>, and the \<open>str\<close> methods that the name
  classifiers use.  Every later theory imports it.
\<close>

section \<open>Machine integers\<close>

text \<open>
  The binary is built with \<open>cargo build --release\<close> and the manifest sets no
  \<open>overflow-checks\<close>, so \<open>+\<close>, \<open>-\<close> and \<open>*\<close> wrap.  \<open>usize\<close> is 64 bits wide on the
  Apple Silicon target.
\<close>

type_synonym u8 = "8 word"
type_synonym u16 = "16 word"
type_synonym u32 = "32 word"
type_synonym u64 = "64 word"
type_synonym usize = "64 word"
type_synonym i32 = "32 word"

named_theorems word_nat "facts that read word operations as operations on nat"

definition saturating_sub :: "'a::len word \<Rightarrow> 'a word \<Rightarrow> 'a word" where
  "saturating_sub a b = (if a < b then 0 else a - b)"

lemma unat_saturating_sub [word_nat]: "unat (saturating_sub a b) = unat a - unat b"
  by (auto simp: saturating_sub_def word_less_nat_alt unat_sub word_le_nat_alt)

lemma saturating_sub_le [simp]: "saturating_sub a b \<le> a"
  by (simp add: word_le_nat_alt unat_saturating_sub)

lemma unat_min [word_nat]: "unat (min a b) = min (unat a) (unat (b :: 'a::len word))"
  by (simp add: min_def word_le_nat_alt)

lemma unat_max [word_nat]: "unat (max a b) = max (unat a) (unat (b :: 'a::len word))"
  by (simp add: max_def word_le_nat_alt)

lemma unat_plus_no_wrap:
  fixes a b :: "'a::len word"
  assumes "unat a + unat b < 2 ^ LENGTH('a)"
  shows "unat (a + b) = unat a + unat b"
  using assms by (simp add: unat_word_ariths)

lemma unat_mult_no_wrap:
  fixes a b :: "'a::len word"
  assumes "unat a * unat b < 2 ^ LENGTH('a)"
  shows "unat (a * b) = unat a * unat b"
  using assms by (simp add: unat_word_ariths)

lemma unat_minus_no_wrap:
  fixes a b :: "'a::len word"
  assumes "b \<le> a"
  shows "unat (a - b) = unat a - unat b"
  using assms by (simp add: unat_sub)

lemma sint_small_u32:
  assumes "unat (l :: u32) < 2 ^ 31" shows "sint l = int (unat l)"
proof -
  have "int (unat l) < int (2 ^ 31)" using assms by (simp only: of_nat_less_iff)
  then have "uint l < 2 ^ 31" by simp
  then have "signed_take_bit 31 (uint l) = uint l" using uint_ge_0 [of l] by (intro signed_take_bit_int_eq_self) linarith+
  then show ?thesis by (simp add: sint_uint)
qed

lemma unat_Suc_u32: "unat (l :: u32) < 2 ^ 32 - 1 \<Longrightarrow> unat (l + 1) = Suc (unat l)"
  using unat_plus_no_wrap [of l 1] by simp

lemma unat_ucast_u64 [simp]: "unat (ucast (a :: u32) :: u64) = unat a"
proof -
  have "unat a < 2 ^ 64" using unsigned_less [of a, where ?'a = nat] by simp
  then show ?thesis by (simp add: unsigned_ucast_eq take_bit_nat_eq_self_iff)
qed

lemma unat_prod_list_no_wrap:
  fixes xs :: "'a::len word list"
  assumes "prod_list (map unat xs) < 2 ^ LENGTH('a)"
  shows "unat (prod_list xs) = prod_list (map unat xs)"
proof (cases "prod_list (map unat xs) = 0")
  case True
  then have "prod_list xs = 0" by (induction xs) (auto simp: unsigned_eq_0_iff)
  with True show ?thesis by simp
next
  case False
  with assms show ?thesis
  proof (induction xs)
    case (Cons x xs)
    then have "0 < unat x" "0 < prod_list (map unat xs)" by auto
    then have "prod_list (map unat xs) \<le> prod_list (map unat (x # xs))" by simp
    with Cons.prems(1) have "prod_list (map unat xs) < 2 ^ LENGTH('a)" by (rule order_le_less_trans [rotated])
    with Cons have "unat (prod_list xs) = prod_list (map unat xs)" by simp
    with Cons.prems(1) show ?case by (simp add: unat_mult_no_wrap)
  qed simp
qed

text \<open>The total of a list of byte counts, as \<open>iter().sum::<u64>()\<close> computes it.\<close>

lemma unat_sum_list_no_wrap:
  fixes xs :: "'a::len word list"
  assumes "sum_list (map unat xs) < 2 ^ LENGTH('a)"
  shows "unat (sum_list xs) = sum_list (map unat xs)"
  using assms by (induction xs) (auto simp: unat_plus_no_wrap)

lemma unat_sum_list_le:
  fixes xs :: "'a::len word list"
  shows "unat (sum_list xs) \<le> sum_list (map unat xs)"
proof (induction xs)
  case (Cons x xs)
  have "unat (x + sum_list xs) \<le> unat x + unat (sum_list xs)"
    by (simp add: unat_word_ariths)
  with Cons show ?case by simp
qed simp

section \<open>Panics\<close>

text \<open>The result of code that may panic (an \<open>unwrap\<close>, an \<open>expect\<close>, an assertion).\<close>

datatype 'a outcome = Panic | Ret 'a

fun obind :: "'a outcome \<Rightarrow> ('a \<Rightarrow> 'b outcome) \<Rightarrow> 'b outcome" where
  "obind Panic f = Panic"
| "obind (Ret x) f = f x"

fun omap :: "('a \<Rightarrow> 'b) \<Rightarrow> 'a outcome \<Rightarrow> 'b outcome" where
  "omap f Panic = Panic"
| "omap f (Ret x) = Ret (f x)"

fun expect :: "'a option \<Rightarrow> 'a outcome" where
  "expect None = Panic"
| "expect (Some x) = Ret x"

lemma obind_Ret: "obind m f = Ret y \<longleftrightarrow> (\<exists>x. m = Ret x \<and> f x = Ret y)"
  by (cases m) auto

lemma omap_Ret: "omap f m = Ret y \<longleftrightarrow> (\<exists>x. m = Ret x \<and> y = f x)"
  by (cases m) auto

text \<open>Indexing a slice panics out of bounds.\<close>

definition at_index :: "'a list \<Rightarrow> nat \<Rightarrow> 'a outcome" where
  "at_index xs i = (if i < length xs then Ret (xs ! i) else Panic)"

lemma at_index_Ret [simp]: "i < length xs \<Longrightarrow> at_index xs i = Ret (xs ! i)"
  by (simp add: at_index_def)

section \<open>Hash maps\<close>

text \<open>
  A \<open>HashMap\<close> or \<open>BTreeMap\<close> is an association list with distinct keys.  The order of
  the list stands for one iteration order of the map, so a fact proved for every such
  list holds for every order the hasher may produce.
\<close>

type_synonym ('k, 'v) hmap = "('k \<times> 'v) list"

definition hm_keys :: "('k, 'v) hmap \<Rightarrow> 'k list" where
  "hm_keys m = map fst m"

definition hm_wf :: "('k, 'v) hmap \<Rightarrow> bool" where
  "hm_wf m \<longleftrightarrow> distinct (map fst m)"

abbreviation hm_get :: "('k, 'v) hmap \<Rightarrow> 'k \<Rightarrow> 'v option" where
  "hm_get m k \<equiv> map_of m k"

abbreviation hm_insert :: "'k \<Rightarrow> 'v \<Rightarrow> ('k, 'v) hmap \<Rightarrow> ('k, 'v) hmap" where
  "hm_insert k v m \<equiv> AList.update k v m"

abbreviation hm_remove :: "'k \<Rightarrow> ('k, 'v) hmap \<Rightarrow> ('k, 'v) hmap" where
  "hm_remove k m \<equiv> AList.delete k m"

abbreviation hm_contains :: "('k, 'v) hmap \<Rightarrow> 'k \<Rightarrow> bool" where
  "hm_contains m k \<equiv> map_of m k \<noteq> None"

lemma hm_wf_empty [simp]: "hm_wf []"
  by (simp add: hm_wf_def)

lemma hm_get_insert [simp]:
  "hm_get (hm_insert k v m) k' = (if k' = k then Some v else hm_get m k')"
  by (simp add: update_conv')

lemma hm_get_remove [simp]:
  "hm_get (hm_remove k m) k' = (if k' = k then None else hm_get m k')"
  by (simp add: delete_conv')

lemma hm_wf_insert [simp]: "hm_wf m \<Longrightarrow> hm_wf (hm_insert k v m)"
  by (simp add: hm_wf_def distinct_update)

lemma hm_wf_remove [simp]: "hm_wf m \<Longrightarrow> hm_wf (hm_remove k m)"
  by (simp add: hm_wf_def distinct_delete)

lemma set_hm_keys: "set (hm_keys m) = dom (hm_get m)"
  by (simp add: hm_keys_def dom_map_of_conv_image_fst)

lemma hm_keys_insert: "set (hm_keys (hm_insert k v m)) = insert k (set (hm_keys m))"
  by (auto simp: set_hm_keys dom_def update_conv' split: if_splits)

lemma hm_keys_remove: "set (hm_keys (hm_remove k m)) = set (hm_keys m) - {k}"
  by (auto simp: set_hm_keys dom_def delete_conv' split: if_splits)

lemma hm_get_None_iff: "hm_get m k = None \<longleftrightarrow> k \<notin> set (hm_keys m)"
  by (simp add: hm_keys_def map_of_eq_None_iff)


section \<open>Stable sorting\<close>

text \<open>
  \<open>slice::sort_by\<close> is a stable sort: for a comparison that is a total preorder the
  result does not depend on the algorithm, so the model is insertion sort.  \<open>le a b\<close>
  says that \<open>a\<close> may stand before \<open>b\<close>.
\<close>

fun insert_by :: "('a \<Rightarrow> 'a \<Rightarrow> bool) \<Rightarrow> 'a \<Rightarrow> 'a list \<Rightarrow> 'a list" where
  "insert_by le x [] = [x]"
| "insert_by le x (y # ys) = (if le x y then x # y # ys else y # insert_by le x ys)"

definition sort_by :: "('a \<Rightarrow> 'a \<Rightarrow> bool) \<Rightarrow> 'a list \<Rightarrow> 'a list" where
  "sort_by le xs = foldr (insert_by le) xs []"

lemma mset_insert_by [simp]: "mset (insert_by le x xs) = add_mset x (mset xs)"
  by (induction xs) auto

lemma mset_sort_by [simp]: "mset (sort_by le xs) = mset xs"
  by (induction xs) (auto simp: sort_by_def)

lemma set_sort_by [simp]: "set (sort_by le xs) = set xs"
  by (metis mset_sort_by set_mset_mset)

lemma length_sort_by [simp]: "length (sort_by le xs) = length xs"
  by (metis mset_sort_by size_mset)

lemma sort_by_Nil [simp]: "sort_by le [] = []"
  by (simp add: sort_by_def)

lemma sort_by_Cons: "sort_by le (x # xs) = insert_by le x (sort_by le xs)"
  by (simp add: sort_by_def)

lemma sum_list_sort_by [simp]:
  fixes f :: "'a \<Rightarrow> 'b::comm_monoid_add"
  shows "sum_list (map f (sort_by le xs)) = sum_list (map f xs)"
  by (metis mset_map mset_sort_by sum_mset_sum_list)

lemma sorted_insert_by:
  assumes total: "\<And>a b. le a b \<or> le b a" and trans: "\<And>a b c. le a b \<Longrightarrow> le b c \<Longrightarrow> le a c"
    and "sorted_wrt le xs"
  shows "sorted_wrt le (insert_by le x xs)"
  using assms(3)
proof (induction xs)
  case (Cons y ys)
  have ins: "set (insert_by le x ys) = insert x (set ys)"
    by (metis mset_insert_by set_mset_add_mset_insert set_mset_mset)
  show ?case
  proof (cases "le x y")
    case True
    with Cons.prems show ?thesis by (auto intro: trans)
  next
    case False
    with total have "le y x" by blast
    with Cons False show ?thesis by (auto simp: ins)
  qed
qed simp

lemma sorted_sort_by:
  assumes "\<And>a b. le a b \<or> le b a" and "\<And>a b c. le a b \<Longrightarrow> le b c \<Longrightarrow> le a c"
  shows "sorted_wrt le (sort_by le xs)"
proof (induction xs)
  case (Cons x xs)
  then show ?case
    using sorted_insert_by [of le, OF assms] by (simp add: sort_by_Cons)
qed simp

text \<open>\<open>Iterator::max_by_key\<close> returns the last of several maximal elements.\<close>

definition max_by_key :: "('a \<Rightarrow> 'b::linorder) \<Rightarrow> 'a list \<Rightarrow> 'a option" where
  "max_by_key f xs = (case xs of [] \<Rightarrow> None
     | x # ys \<Rightarrow> Some (foldl (\<lambda>best y. if f best \<le> f y then y else best) x ys))"

lemma foldl_max_by_key:
  fixes f :: "'a \<Rightarrow> 'b::linorder"
  defines "g \<equiv> \<lambda>best y. if f best \<le> f y then y else best"
  shows "foldl g x ys \<in> insert x (set ys) \<and> (\<forall>z \<in> insert x (set ys). f z \<le> f (foldl g x ys))"
proof (induction ys arbitrary: x)
  case (Cons y ys)
  show ?case
    using Cons [of "g x y"] by (fastforce simp: g_def split: if_splits)
qed (simp add: g_def)

lemma max_by_key_Some:
  "max_by_key f xs = Some m \<Longrightarrow> m \<in> set xs \<and> (\<forall>x \<in> set xs. f x \<le> f m)"
  using foldl_max_by_key [of f] by (fastforce simp: max_by_key_def split: list.splits)

lemma max_by_key_None [simp]: "max_by_key f xs = None \<longleftrightarrow> xs = []"
  by (simp add: max_by_key_def split: list.splits)

section \<open>Strings\<close>

text \<open>
  A \<open>str\<close> is its list of UTF-8 bytes; every pattern the code looks for is ASCII, so
  byte-wise search agrees with the search on scalar values.
\<close>

definition str_contains :: "string \<Rightarrow> string \<Rightarrow> bool" where
  "str_contains s p = sublist p s"

definition starts_with :: "string \<Rightarrow> string \<Rightarrow> bool" where
  "starts_with s p = prefix p s"

text \<open>\<open>str::find\<close> with a string pattern: the offset of its first occurrence.\<close>

fun str_find :: "string \<Rightarrow> string \<Rightarrow> nat option" where
  "str_find [] p = (if p = [] then Some 0 else None)"
| "str_find (c # cs) p = (if prefix p (c # cs) then Some 0 else map_option Suc (str_find cs p))"

text \<open>\<open>str::rfind\<close> of one character.\<close>

fun rfind_char :: "char \<Rightarrow> string \<Rightarrow> nat option" where
  "rfind_char c [] = None"
| "rfind_char c (x # xs) = (case rfind_char c xs of
     Some i \<Rightarrow> Some (Suc i) | None \<Rightarrow> if x = c then Some 0 else None)"

text \<open>\<open>str::split\<close> at a character; it always yields at least one part.\<close>

fun split_char :: "char \<Rightarrow> string \<Rightarrow> string list" where
  "split_char c [] = [[]]"
| "split_char c (x # xs) = (if x = c then [] # split_char c xs
     else (case split_char c xs of p # ps \<Rightarrow> (x # p) # ps | [] \<Rightarrow> [[x]]))"

lemma split_char_nonempty [simp]: "split_char c s \<noteq> []"
  by (induction s) (auto split: list.splits)

lemma split_char_no_sep: "c \<notin> set s \<Longrightarrow> split_char c s = [s]"
  by (induction s) auto

lemma split_char_append:
  "c \<notin> set s \<Longrightarrow> split_char c (s @ c # t) = s # split_char c t"
  by (induction s) auto

subsection \<open>Decimal numbers\<close>

definition is_digit :: "char \<Rightarrow> bool" where
  "is_digit c \<longleftrightarrow> 48 \<le> (of_char c :: nat) \<and> (of_char c :: nat) \<le> 57"

definition digit_val :: "char \<Rightarrow> nat" where
  "digit_val c = of_char c - 48"

definition digit_char :: "nat \<Rightarrow> char" where
  "digit_char d = char_of (48 + d)"

text \<open>\<open>format!("\{n\}")\<close> of an unsigned number.\<close>

fun dec :: "nat \<Rightarrow> string" where
  "dec n = (if n < 10 then [digit_char n] else dec (n div 10) @ [digit_char (n mod 10)])"

declare dec.simps [simp del]

definition digits_val :: "string \<Rightarrow> nat" where
  "digits_val s = foldl (\<lambda>n c. 10 * n + digit_val c) 0 s"

text \<open>
  \<open>str::parse\<close> at an unsigned type of \<open>w\<close> bits: an optional plus sign, then at least one
  digit and nothing else; a value that does not fit is an error.
\<close>

definition parse_unsigned :: "nat \<Rightarrow> string \<Rightarrow> nat option" where
  "parse_unsigned w s = (let ds = (case s of CHR ''+'' # t \<Rightarrow> t | _ \<Rightarrow> s) in
     if ds \<noteq> [] \<and> list_all is_digit ds \<and> digits_val ds < 2 ^ w
     then Some (digits_val ds) else None)"

definition parse_u32 :: "string \<Rightarrow> u32 option" where
  "parse_u32 s = map_option of_nat (parse_unsigned 32 s)"

lemma digit_val_char [simp]: "d < 10 \<Longrightarrow> digit_val (digit_char d) = d"
  by (simp add: digit_val_def digit_char_def)

lemma is_digit_char [simp]: "d < 10 \<Longrightarrow> is_digit (digit_char d)"
  by (simp add: is_digit_def digit_char_def)

lemma dec_nonempty [simp]: "dec n \<noteq> []"
  by (subst dec.simps) simp

lemma dec_digits: "list_all is_digit (dec n)"
proof (induction n rule: dec.induct)
  case (1 n)
  then show ?case by (subst dec.simps) auto
qed

lemma digits_val_dec: "digits_val (dec n) = n"
proof (induction n rule: dec.induct)
  case (1 n)
  then show ?case by (subst dec.simps) (auto simp: digits_val_def)
qed

lemma is_digit_in_dec: "c \<in> set (dec n) \<Longrightarrow> is_digit c"
  using dec_digits [of n] by (simp add: list_all_iff)

lemma not_digit_in_dec: "\<not> is_digit c \<Longrightarrow> c \<notin> set (dec n)"
  using is_digit_in_dec by blast

lemma parse_unsigned_dec: "n < 2 ^ w \<Longrightarrow> parse_unsigned w (dec n) = Some n"
proof -
  assume n: "n < 2 ^ w"
  obtain c cs where dc: "dec n = c # cs" by (cases "dec n") auto
  then have "is_digit c" using is_digit_in_dec [of c n] by simp
  then have "c \<noteq> CHR ''+''" by (auto simp: is_digit_def)
  then have "(case dec n of CHR ''+'' # t \<Rightarrow> t | _ \<Rightarrow> dec n) = dec n"
    unfolding dc by (auto split: char.splits bool.splits)
  with n show ?thesis
    by (simp add: parse_unsigned_def dec_digits digits_val_dec)
qed

lemma parse_u32_dec [simp]: "parse_u32 (dec (unat (n :: u32))) = Some n"
proof -
  have "unat n < 2 ^ 32" using unsigned_less [of n, where ?'a = nat] by simp
  then show ?thesis by (simp add: parse_u32_def parse_unsigned_dec)
qed

text \<open>
  A pattern without digits occurs in \<open>a @ dec n @ b\<close> only inside \<open>a\<close> or inside \<open>b\<close>;
  the name classifiers are proved for every layer number with this fact.
\<close>

lemma str_contains_around_digits:
  assumes nd: "\<And>c. c \<in> set p \<Longrightarrow> \<not> is_digit c" and ds: "list_all is_digit ds" and ne: "ds \<noteq> []"
  shows "str_contains (a @ ds @ b) p \<longleftrightarrow> str_contains a p \<or> str_contains b p"
proof
  assume "str_contains (a @ ds @ b) p"
  then obtain u v where uv: "a @ ds @ b = u @ p @ v"
    by (auto simp: str_contains_def sublist_def)
  consider "length (u @ p) \<le> length a" | "length (a @ ds) \<le> length u" |
    "length a < length (u @ p)" "length u < length (a @ ds)" by linarith
  then show "str_contains a p \<or> str_contains b p"
  proof cases
    case 1
    then have "prefix (u @ p) a"
      by (metis append.assoc prefixI prefix_length_prefix uv)
    then show ?thesis by (auto simp: str_contains_def sublist_def prefix_def)
  next
    case 2
    then have "prefix (a @ ds) u"
      by (metis append.assoc prefixI prefix_length_prefix uv)
    then obtain w where "u = a @ ds @ w" by (auto simp: prefix_def)
    with uv show ?thesis by (auto simp: str_contains_def sublist_def)
  next
    case 3
    show ?thesis
    proof (cases "p = []")
      case False
      define k where "k = max (length a) (length u)"
      have k: "length a \<le> k" "k < length (a @ ds)" "length u \<le> k" "k < length (u @ p)"
        using 3 ne False by (auto simp: k_def)
      have "k - length a < length ds" "k - length u < length p"
        using k by auto
      then have "(a @ ds @ b) ! k = ds ! (k - length a)" "(u @ p @ v) ! k = p ! (k - length u)"
        using k by (simp_all add: nth_append)
      moreover have "ds ! (k - length a) \<in> set ds" "p ! (k - length u) \<in> set p"
        using k by auto
      ultimately show ?thesis using nd ds uv by (metis list_all_iff)
    qed (simp add: str_contains_def)
  qed
next
  assume "str_contains a p \<or> str_contains b p"
  then show "str_contains (a @ ds @ b) p"
    by (auto simp: str_contains_def sublist_append)
qed

lemma str_contains_code [code]: "str_contains s p \<longleftrightarrow> list_ex (prefix p) (suffixes s)"
  by (simp add: str_contains_def list_ex_iff sublist_altdef' Bex_def)

end
