(* ===== verification/F64.thy ===== *)
theory F64
  imports Complex_Main Prelude "HOL-Library.Log_Nat"
begin

text \<open>
  IEEE 754 binary64 arithmetic, the \<open>f64\<close> of the scores, costs and rates.  A finite value
  is the rational number it denotes; every operation computes the exact result and rounds
  it to nearest, ties to even, with gradual underflow and overflow to infinity.  The sign
  of a zero is not kept: the code divides only by converted integers and by positive
  constants, so no quotient by a negative zero is ever formed and comparisons ignore it.
\<close>

datatype f64 = Fin rat | PosInf | NegInf | NaN

section \<open>Rounding\<close>

text \<open>Round half to even.\<close>

definition rhe :: "rat \<Rightarrow> int" where
  "rhe x = (let f = \<lfloor>x\<rfloor>; r = x - of_int f in
     if r < 1 / 2 then f else if 1 / 2 < r then f + 1 else if even f then f else f + 1)"

lemma rhe_of_int [simp]: "rhe (of_int n) = n"
  by (simp add: rhe_def)

lemma rhe_bounds: "\<lfloor>x\<rfloor> \<le> rhe x" "rhe x \<le> \<lfloor>x\<rfloor> + 1"
  by (auto simp: rhe_def Let_def)

lemma rhe_mono: assumes "x \<le> y" shows "rhe x \<le> rhe y"
proof (cases "\<lfloor>x\<rfloor> = \<lfloor>y\<rfloor>")
  case True
  with assms show ?thesis by (auto simp: rhe_def Let_def)
next
  case False
  with assms have "\<lfloor>x\<rfloor> + 1 \<le> \<lfloor>y\<rfloor>" by (smt (verit) floor_mono)
  then show ?thesis using rhe_bounds(2) [of x] rhe_bounds(1) [of y] by linarith
qed

lemma rhe_le_iff: "x \<le> of_int n \<Longrightarrow> rhe x \<le> n" "of_int n \<le> x \<Longrightarrow> n \<le> rhe x"
  using rhe_mono [of x "of_int n"] rhe_mono [of "of_int n" x] by simp_all

text \<open>The binary exponent of a positive rational: \<open>2 powi e \<le> x < 2 powi (e + 1)\<close>.\<close>

definition binexp :: "rat \<Rightarrow> int" where
  "binexp x = (case quotient_of x of (n, d) \<Rightarrow>
     let k = bitlen n - bitlen d in if 2 powi k \<le> x then k else k - 1)"

lemma bitlen_powi:
  assumes "0 < n"
  shows "2 powi (bitlen n - 1) \<le> (of_int n :: rat)" "(of_int n :: rat) < 2 powi bitlen n"
proof -
  have b: "0 < bitlen n" using assms bitlen_nonneg [of n] bitlen_eq_zero_iff [of n] by linarith
  from bitlen_bounds [OF assms]
  have "2 ^ nat (bitlen n - 1) \<le> n" "n < 2 ^ nat (bitlen n)" by auto
  then have "(of_int (2 ^ nat (bitlen n - 1)) :: rat) \<le> of_int n"
    "(of_int n :: rat) < of_int (2 ^ nat (bitlen n))" by (simp_all only: of_int_le_iff of_int_less_iff)
  with b show "2 powi (bitlen n - 1) \<le> (of_int n :: rat)" "(of_int n :: rat) < 2 powi bitlen n"
    by (simp_all add: power_int_def)
qed

lemma binexp_bounds:
  assumes "0 < x"
  shows "2 powi binexp x \<le> x" "x < 2 powi (binexp x + 1)"
proof -
  obtain n d where q: "quotient_of x = (n, d)" by force
  then have d: "0 < d" by (simp add: quotient_of_denom_pos)
  from q have x: "x = of_int n / of_int d" by (rule quotient_of_div)
  with assms d have n: "0 < n" by (simp add: zero_less_divide_iff)
  let ?k = "bitlen n - bitlen d"
  have up: "x < 2 powi (?k + 1)"
  proof -
    have "x < 2 powi bitlen n / 2 powi (bitlen d - 1)"
      unfolding x using bitlen_powi [OF n] bitlen_powi [OF d] d n
      by (intro frac_less) auto
    also have "\<dots> = 2 powi (?k + 1)" by (simp add: algebra_simps flip: power_int_diff)
    finally show ?thesis by simp
  qed
  have lo: "2 powi (?k - 1) \<le> x"
  proof -
    have "2 powi (?k - 1) = 2 powi (bitlen n - 1) / (2 powi bitlen d :: rat)"
      by (simp add: algebra_simps flip: power_int_diff)
    also have "\<dots> \<le> x"
      unfolding x using bitlen_powi [OF n] bitlen_powi [OF d] d n
      by (intro frac_le) auto
    finally show ?thesis by simp
  qed
  show "2 powi binexp x \<le> x" "x < 2 powi (binexp x + 1)"
    using up lo by (auto simp: binexp_def q Let_def)
qed

lemma powi_less_iff: "(2 :: rat) powi a < 2 powi b \<longleftrightarrow> a < b"
  using power_int_strict_increasing [of a b "2 :: rat"] power_int_increasing [of b a "2 :: rat"]
  by (cases "a < b") auto

lemma powi_le_iff: "(2 :: rat) powi a \<le> 2 powi b \<longleftrightarrow> a \<le> b"
  using powi_less_iff [of b a] by linarith

lemma powi_quotient: "a \<le> b \<Longrightarrow> (2 :: rat) powi b / 2 powi a = of_int (2 ^ nat (b - a))"
proof -
  assume "a \<le> b"
  have "(2 :: rat) powi b / 2 powi a = 2 powi (b - a)" by (simp add: power_int_diff)
  with \<open>a \<le> b\<close> show ?thesis by (simp add: power_int_def)
qed

lemma binexp_le: assumes "0 < x" "x < 2 powi k" shows "binexp x < k"
  using binexp_bounds(1) [OF assms(1)] assms(2) by (metis order_le_less_trans powi_less_iff)

lemma binexp_ge: assumes "0 < x" "2 powi k \<le> x" shows "k \<le> binexp x"
  using binexp_bounds(2) [OF assms(1)] assms(2) by (metis order_le_less_trans powi_less_iff zle_add1_eq_le)

lemma binexp_powi [simp]: "binexp (2 powi k) = k"
proof -
  have "k \<le> binexp (2 powi k)" by (rule binexp_ge) auto
  moreover have "binexp (2 powi k) < k + 1" by (rule binexp_le) (auto simp: powi_less_iff)
  ultimately show ?thesis by simp
qed

lemma binexp_mono: "0 < x \<Longrightarrow> x \<le> y \<Longrightarrow> binexp x \<le> binexp y"
  using binexp_bounds(1) [of x] by (intro binexp_ge) auto

text \<open>The exponent of the unit in the last place, at least that of the subnormals.\<close>

definition ulp_exp :: "rat \<Rightarrow> int" where
  "ulp_exp x = max (binexp x) (- 1022) - 52"

definition round_mag :: "rat \<Rightarrow> rat" where
  "round_mag x = of_int (rhe (x / 2 powi ulp_exp x)) * 2 powi ulp_exp x"

lemma round_mag_le_pow:
  assumes "0 < x" "x \<le> 2 powi k" "- 1022 \<le> k" shows "round_mag x \<le> 2 powi k"
proof -
  let ?u = "ulp_exp x"
  have "binexp x \<le> k" using binexp_mono [OF assms(1,2)] by simp
  with assms(3) have le: "?u \<le> k" by (simp add: ulp_exp_def)
  have "x / 2 powi ?u \<le> 2 powi k / 2 powi ?u" using assms(2) by (simp add: divide_right_mono)
  also have "\<dots> = of_int (2 ^ nat (k - ?u))"
    using le by (rule powi_quotient)
  finally have "rhe (x / 2 powi ?u) \<le> 2 ^ nat (k - ?u)" by (rule rhe_le_iff)
  then have "round_mag x \<le> of_int (2 ^ nat (k - ?u)) * 2 powi ?u"
    unfolding round_mag_def by (intro mult_right_mono) (simp_all only: of_int_le_iff, simp)
  also have "\<dots> = 2 powi (k - ?u) * 2 powi ?u" using le by (simp add: power_int_def)
  also have "\<dots> = 2 powi k" by (simp flip: power_int_add)
  finally show ?thesis .
qed

lemma round_mag_ge_pow:
  assumes "2 powi k \<le> x" "- 1022 \<le> k" shows "2 powi k \<le> round_mag x"
proof -
  let ?u = "ulp_exp x"
  have pos: "0 < x" using assms(1) by (metis order_less_le_trans zero_less_power_int zero_less_numeral)
  show ?thesis
  proof (cases "?u \<le> k")
    case True
    have "of_int (2 ^ nat (k - ?u)) = (2 powi k / 2 powi ?u :: rat)"
      using True by (simp only: powi_quotient)
    also have "\<dots> \<le> x / 2 powi ?u" using assms(1) by (simp add: divide_right_mono)
    finally have "2 ^ nat (k - ?u) \<le> rhe (x / 2 powi ?u)" by (rule rhe_le_iff)
    then have "of_int (2 ^ nat (k - ?u)) * 2 powi ?u \<le> round_mag x"
      unfolding round_mag_def by (intro mult_right_mono) (simp_all only: of_int_le_iff, simp)
    moreover have "of_int (2 ^ nat (k - ?u)) * 2 powi ?u = (2 powi (k - ?u) * 2 powi ?u :: rat)"
      using True by (simp add: power_int_def)
    ultimately show ?thesis by (simp flip: power_int_add)
  next
    case False
    then have "k < ?u" by simp
    have "?u = binexp x - 52" using False assms(2) by (auto simp: ulp_exp_def max_def split: if_splits)
    then have "(2 :: rat) powi ?u \<le> 2 powi binexp x" by (simp add: powi_le_iff)
    also have "\<dots> \<le> x" using binexp_bounds(1) [OF pos] .
    finally have "of_int 1 \<le> x / 2 powi ?u" by (simp add: pos_le_divide_eq)
    then have "1 \<le> rhe (x / 2 powi ?u)" by (rule rhe_le_iff)
    then have "of_int 1 * 2 powi ?u \<le> round_mag x"
      unfolding round_mag_def by (intro mult_right_mono) (simp_all only: of_int_le_iff, simp)
    moreover have "(2 :: rat) powi k \<le> 2 powi ?u" using \<open>k < ?u\<close> by (simp add: powi_le_iff)
    ultimately show ?thesis by simp
  qed
qed

lemma round_mag_nonneg: "0 \<le> x \<Longrightarrow> 0 \<le> round_mag x"
  unfolding round_mag_def by (intro mult_nonneg_nonneg) (auto intro!: rhe_le_iff)

lemma round_mag_mono: assumes "0 < x" "x \<le> y" shows "round_mag x \<le> round_mag y"
proof (cases "ulp_exp x = ulp_exp y")
  case True
  have "x / 2 powi ulp_exp x \<le> y / 2 powi ulp_exp x" using assms by (simp add: divide_right_mono)
  then have "rhe (x / 2 powi ulp_exp x) \<le> rhe (y / 2 powi ulp_exp x)" by (rule rhe_mono)
  then show ?thesis unfolding round_mag_def True [symmetric] by (simp add: mult_right_mono)
next
  case False
  with binexp_mono [OF assms] have lt: "max (binexp x) (- 1022) < binexp y" "- 1022 < binexp y"
    by (auto simp: ulp_exp_def)
  have "x < 2 powi (binexp x + 1)" using binexp_bounds(2) [OF assms(1)] .
  also have "\<dots> \<le> (2 :: rat) powi binexp y" using lt by (simp add: powi_le_iff)
  finally have "round_mag x \<le> 2 powi binexp y" using lt assms by (intro round_mag_le_pow) auto
  also have "\<dots> \<le> round_mag y"
    using lt assms by (intro round_mag_ge_pow binexp_bounds(1)) auto
  finally show ?thesis .
qed

lemma round_mag_int:
  assumes "0 < n" "n \<le> 2 ^ 53" shows "round_mag (of_int n) = of_int n"
proof -
  have p: "(0 :: rat) < of_int n" using assms by simp
  have ge: "0 \<le> binexp (of_int n)" using p assms(1) by (intro binexp_ge) auto
  have le: "(of_int n :: rat) \<le> of_int (2 ^ 53)" using assms(2) by (simp only: of_int_le_iff)
  show ?thesis
  proof (cases "n = 2 ^ 53")
    case True
    then have eq: "(of_int n :: rat) = 2 powi 53" by (simp add: power_int_def)
    have "round_mag (2 powi 53) = 2 powi 53"
      using round_mag_le_pow [of "2 powi 53" 53] round_mag_ge_pow [of 53 "2 powi 53"] by simp
    with eq show ?thesis by simp
  next
    case False
    with assms(2) have "n < 2 ^ 53" by simp
    then have "(of_int n :: rat) < of_int (2 ^ 53)" by (simp only: of_int_less_iff)
    then have "binexp (of_int n) < 53" using p by (intro binexp_le) (simp_all add: power_int_def)
    with ge have u: "ulp_exp (of_int n) = binexp (of_int n) - 52" "ulp_exp (of_int n) \<le> 0"
      by (simp_all add: ulp_exp_def)
    define j where "j = nat (- ulp_exp (of_int n))"
    have inv: "(2 :: rat) powi ulp_exp (of_int n) = 1 / 2 ^ j"
      using u(2) by (auto simp: j_def power_int_def power_one_over)
    have "(of_int n :: rat) / 2 powi ulp_exp (of_int n) = of_int (n * 2 ^ j)" by (simp add: inv)
    then have "rhe ((of_int n :: rat) / 2 powi ulp_exp (of_int n)) = n * 2 ^ j" by (simp only: rhe_of_int)
    then show ?thesis by (simp add: round_mag_def inv)
  qed
qed


text \<open>Rounding of an exact result: zero, the two signs, and overflow to infinity.\<close>

definition rnd :: "rat \<Rightarrow> f64" where
  "rnd x = (if x = 0 then Fin 0
     else let m = round_mag \<bar>x\<bar> in
       if m < 2 powi 1024 then Fin (if x < 0 then - m else m)
       else if x < 0 then NegInf else PosInf)"

text \<open>The overflow test by the length of the integer part, which evaluates faster.\<close>

lemma rnd_code [code]:
  "rnd x = (if x = 0 then Fin 0
     else let m = round_mag \<bar>x\<bar> in
       if bitlen \<lfloor>m\<rfloor> \<le> 1024 then Fin (if x < 0 then - m else m)
       else if x < 0 then NegInf else PosInf)"
proof -
  have "m < 2 powi 1024 \<longleftrightarrow> bitlen \<lfloor>m\<rfloor> \<le> 1024" if "0 \<le> m" for m :: rat
  proof -
    have "(2 :: rat) powi 1024 = of_int (2 ^ 1024)"
      by (simp only: power_int_def) simp
    then have "m < 2 powi 1024 \<longleftrightarrow> \<lfloor>m\<rfloor> < 2 ^ 1024" by (simp only: floor_less_iff)
    moreover have "bitlen \<lfloor>m\<rfloor> \<le> 1024 \<longleftrightarrow> \<lfloor>m\<rfloor> < 2 ^ 1024"
      unfolding bitlen_le_iff_power by (simp only: nat_numeral) simp
    ultimately show ?thesis by (simp only:)
  qed
  then show ?thesis using round_mag_nonneg [of "\<bar>x\<bar>"] by (simp only: rnd_def Let_def abs_ge_zero)
qed

section \<open>Operations\<close>

fun f_add :: "f64 \<Rightarrow> f64 \<Rightarrow> f64" where
  "f_add (Fin a) (Fin b) = rnd (a + b)"
| "f_add NaN _ = NaN"
| "f_add _ NaN = NaN"
| "f_add PosInf NegInf = NaN"
| "f_add NegInf PosInf = NaN"
| "f_add PosInf _ = PosInf"
| "f_add _ PosInf = PosInf"
| "f_add NegInf _ = NegInf"
| "f_add _ NegInf = NegInf"

fun f_neg :: "f64 \<Rightarrow> f64" where
  "f_neg (Fin a) = Fin (- a)"
| "f_neg PosInf = NegInf"
| "f_neg NegInf = PosInf"
| "f_neg NaN = NaN"

definition f_sub :: "f64 \<Rightarrow> f64 \<Rightarrow> f64" where
  "f_sub a b = f_add a (f_neg b)"

definition f_inf :: "bool \<Rightarrow> f64" where
  "f_inf neg = (if neg then NegInf else PosInf)"

fun f_mul :: "f64 \<Rightarrow> f64 \<Rightarrow> f64" where
  "f_mul (Fin a) (Fin b) = rnd (a * b)"
| "f_mul NaN _ = NaN"
| "f_mul _ NaN = NaN"
| "f_mul PosInf (Fin b) = (if b = 0 then NaN else f_inf (b < 0))"
| "f_mul NegInf (Fin b) = (if b = 0 then NaN else f_inf (0 < b))"
| "f_mul (Fin a) PosInf = (if a = 0 then NaN else f_inf (a < 0))"
| "f_mul (Fin a) NegInf = (if a = 0 then NaN else f_inf (0 < a))"
| "f_mul PosInf PosInf = PosInf"
| "f_mul NegInf NegInf = PosInf"
| "f_mul _ _ = NegInf"

fun f_div :: "f64 \<Rightarrow> f64 \<Rightarrow> f64" where
  "f_div (Fin a) (Fin b) = (if b = 0 then if a = 0 then NaN else f_inf (a < 0) else rnd (a / b))"
| "f_div NaN _ = NaN"
| "f_div _ NaN = NaN"
| "f_div PosInf (Fin b) = f_inf (b < 0)"
| "f_div NegInf (Fin b) = f_inf (0 \<le> b)"
| "f_div (Fin a) _ = Fin 0"
| "f_div _ _ = NaN"

fun f_lt :: "f64 \<Rightarrow> f64 \<Rightarrow> bool" where
  "f_lt (Fin a) (Fin b) \<longleftrightarrow> a < b"
| "f_lt NaN _ \<longleftrightarrow> False"
| "f_lt _ NaN \<longleftrightarrow> False"
| "f_lt PosInf _ \<longleftrightarrow> False"
| "f_lt _ NegInf \<longleftrightarrow> False"
| "f_lt _ _ \<longleftrightarrow> True"

fun f_le :: "f64 \<Rightarrow> f64 \<Rightarrow> bool" where
  "f_le (Fin a) (Fin b) \<longleftrightarrow> a \<le> b"
| "f_le NaN _ \<longleftrightarrow> False"
| "f_le _ NaN \<longleftrightarrow> False"
| "f_le NegInf _ \<longleftrightarrow> True"
| "f_le _ PosInf \<longleftrightarrow> True"
| "f_le _ _ \<longleftrightarrow> False"

text \<open>\<open>f64::max\<close> and \<open>f64::min\<close>: a NaN operand is ignored.\<close>

definition f_max :: "f64 \<Rightarrow> f64 \<Rightarrow> f64" where
  "f_max a b = (if a = NaN then b else if b = NaN then a else if f_lt a b then b else a)"

definition f_min :: "f64 \<Rightarrow> f64 \<Rightarrow> f64" where
  "f_min a b = (if a = NaN then b else if b = NaN then a else if f_lt b a then b else a)"

text \<open>Conversions: \<open>as f64\<close> rounds, \<open>as u64\<close> and \<open>as u32\<close> truncate and saturate.\<close>

definition f_of_nat :: "nat \<Rightarrow> f64" where
  "f_of_nat n = rnd (of_nat n)"

definition f_of_word :: "'a::len word \<Rightarrow> f64" where
  "f_of_word w = f_of_nat (unat w)"

fun f_to_word :: "f64 \<Rightarrow> 'a::len word" where
  "f_to_word NaN = 0"
| "f_to_word NegInf = 0"
| "f_to_word PosInf = - 1"
| "f_to_word (Fin a) = (if a \<le> 0 then 0
     else if 2 ^ LENGTH('a) \<le> a then - 1 else of_int \<lfloor>a\<rfloor>)"

fun f_ceil :: "f64 \<Rightarrow> f64" where
  "f_ceil (Fin a) = Fin (of_int \<lceil>a\<rceil>)"
| "f_ceil x = x"

definition f_sum :: "f64 list \<Rightarrow> f64" where
  "f_sum xs = foldl f_add (Fin 0) xs"

text \<open>\<open>Duration::as_secs_f64\<close> of a number of nanoseconds.\<close>

definition as_secs_f64 :: "nat \<Rightarrow> f64" where
  "as_secs_f64 ns = f_add (f_of_nat (ns div 1000000000)) (f_div (f_of_nat (ns mod 1000000000)) (Fin 1000000000))"

section \<open>Order and range\<close>

lemma rnd_zero [simp]: "rnd 0 = Fin 0"
  by (simp add: rnd_def)

lemma rnd_pow:
  assumes "- 1022 \<le> k" "k < 1024" shows "rnd (2 powi k) = Fin (2 powi k)"
proof -
  have "round_mag (2 powi k) = 2 powi k"
    using round_mag_le_pow [of "2 powi k" k] round_mag_ge_pow [of k "2 powi k"] assms by simp
  moreover have "(2 :: rat) powi k < 2 powi 1024" using assms(2) by (simp only: powi_less_iff)
  moreover have "(0 :: rat) < 2 powi k" "\<not> (2 :: rat) powi k < 0" by (simp_all add: not_less)
  ultimately show ?thesis unfolding rnd_def Let_def by (auto simp del: power_int_numeral)
qed

lemma rnd_int:
  assumes "0 \<le> n" "n \<le> 2 ^ 53" shows "rnd (of_int n) = Fin (of_int n)"
proof (cases "n = 0")
  case False
  with assms have "round_mag (of_int n) = of_int n" by (intro round_mag_int) auto
  moreover have "(of_int n :: rat) < 2 powi 1024"
  proof -
    have "(of_int n :: rat) \<le> of_int (2 ^ 53)" using assms(2) by (simp only: of_int_le_iff)
    also have "\<dots> = 2 powi 53" by (simp add: power_int_def)
    also have "\<dots> < (2 :: rat) powi 1024" by (simp only: powi_less_iff)
    finally show ?thesis .
  qed
  ultimately show ?thesis using False assms(1) by (simp add: rnd_def Let_def)
qed simp

lemma f_of_nat_exact: "n \<le> 2 ^ 53 \<Longrightarrow> f_of_nat n = Fin (of_nat n)"
  using rnd_int [of "int n"] by (simp add: f_of_nat_def)

text \<open>Finite, non-negative and at most \<open>2 powi k\<close>: the range facts the scores need.\<close>

definition f_in :: "int \<Rightarrow> f64 \<Rightarrow> bool" where
  "f_in k x \<longleftrightarrow> (\<exists>r. x = Fin r \<and> 0 \<le> r \<and> r \<le> 2 powi k)"

lemma f_in_rnd:
  assumes "0 \<le> r" "r \<le> 2 powi k" "- 1022 \<le> k" "k < 1024" shows "f_in k (rnd r)"
proof (cases "r = 0")
  case False
  with assms(1) have "0 < r" by simp
  have "round_mag r \<le> 2 powi k" using \<open>0 < r\<close> assms by (intro round_mag_le_pow)
  moreover have "(2 :: rat) powi k < 2 powi 1024" using assms(4) by (simp only: powi_less_iff)
  ultimately show ?thesis
    using \<open>0 < r\<close> round_mag_nonneg [of r] by (auto simp: f_in_def rnd_def Let_def)
qed (simp add: f_in_def)

lemma f_in_mono: "f_in k x \<Longrightarrow> k \<le> l \<Longrightarrow> f_in l x"
  by (auto simp: f_in_def intro: order_trans [OF _ iffD2 [OF powi_le_iff]])

lemma f_in_not_NaN: "f_in k x \<Longrightarrow> x \<noteq> NaN"
  by (auto simp: f_in_def)

lemma rnd_mono: assumes "0 \<le> a" "a \<le> b" "rnd b = Fin b'"
  obtains a' where "rnd a = Fin a'" "0 \<le> a'" "a' \<le> b'"
proof (cases "a = 0")
  case True
  have "0 \<le> b'" using assms round_mag_nonneg [of b] by (auto simp: rnd_def Let_def split: if_splits)
  with True that show ?thesis by simp
next
  case False
  with assms have "round_mag a \<le> round_mag b" "0 < a" "0 < b" by (auto intro: round_mag_mono)
  moreover from this assms(3) have "b' = round_mag b" "round_mag b < 2 powi 1024"
    by (auto simp: rnd_def Let_def split: if_splits)
  ultimately show ?thesis
    using that [of "round_mag a"] round_mag_nonneg [of a] by (simp add: rnd_def Let_def)
qed

lemma f_lt_total: "a \<noteq> NaN \<Longrightarrow> b \<noteq> NaN \<Longrightarrow> f_le a b \<or> f_le b a"
  by (cases a; cases b) auto

lemma f_le_refl: "a \<noteq> NaN \<Longrightarrow> f_le a a"
  by (cases a) auto

lemma f_le_trans: "f_le a b \<Longrightarrow> f_le b c \<Longrightarrow> f_le a c"
  by (cases a; cases b; cases c) auto

lemma f_lt_not_le: "a \<noteq> NaN \<Longrightarrow> b \<noteq> NaN \<Longrightarrow> f_lt a b \<longleftrightarrow> \<not> f_le b a"
  by (cases a; cases b) auto

lemma f_in_of_word: "f_in (int LENGTH('a)) (f_of_word (w :: 'a::len word))"
  if "LENGTH('a) \<le> 1000"
proof -
  have "unat w \<le> 2 ^ LENGTH('a)" by (simp add: order_less_imp_le)
  then have "(of_nat (unat w) :: rat) \<le> of_nat (2 ^ LENGTH('a))" by (simp only: of_nat_le_iff)
  then have "(of_nat (unat w) :: rat) \<le> 2 powi int LENGTH('a)" by simp
  with that show ?thesis unfolding f_of_word_def f_of_nat_def by (intro f_in_rnd of_nat_0_le_iff) auto
qed

lemma f_of_nat_mono:
  assumes "a \<le> b" "f_of_nat b = Fin y"
  obtains x where "f_of_nat a = Fin x" "0 \<le> x" "x \<le> y"
  using assms rnd_mono [of "of_nat a" "of_nat b" y] unfolding f_of_nat_def by auto

lemma f_of_nat_1 [simp]: "f_of_nat 1 = Fin 1"
  using f_of_nat_exact [of 1] by simp

lemma f_in_mul: "f_in a x \<Longrightarrow> f_in b y \<Longrightarrow> - 1022 \<le> a + b \<Longrightarrow> a + b < 1024 \<Longrightarrow> f_in (a + b) (f_mul x y)"
  by (auto simp: f_in_def [of a] f_in_def [of b] power_int_add intro!: f_in_rnd mult_mono)

lemma f_in_add: "f_in a x \<Longrightarrow> f_in a y \<Longrightarrow> - 1022 \<le> a \<Longrightarrow> a < 1023 \<Longrightarrow> f_in (a + 1) (f_add x y)"
  by (auto simp: f_in_def [of a] power_int_add intro!: f_in_rnd)

end
