(* ===== verification/Neuron_Cache.thy ===== *)
theory Neuron_Cache
  imports F64 Expert_Layout
begin

text \<open>
  Model of \<open>src/cache/neuron_cache.rs\<close>: the LRU set of expert slices that hold valid data.
  The state is the struct's five fields.  The locale \<open>slice_cache\<close> is the contract the
  loading code relies on; it is interpreted on these operations.  The main result is that
  the struct implements the specification "the last \<open>capacity\<close> distinct slices touched".
\<close>

type_synonym cache_key = "u32 \<times> u32 \<times> expert_tensor_type"

record neuron_cache =
  nc_entries :: "(cache_key, unit) hmap"
  nc_lru_order :: "cache_key list"
  nc_capacity :: usize
  nc_hits :: u64
  nc_misses :: u64

section \<open>Operations\<close>

definition nc_new :: "usize \<Rightarrow> neuron_cache" where
  "nc_new cap = \<lparr>nc_entries = [], nc_lru_order = [], nc_capacity = cap, nc_hits = 0, nc_misses = 0\<rparr>"

definition promote :: "cache_key \<Rightarrow> cache_key list \<Rightarrow> cache_key list" where
  "promote key order = filter (\<lambda>k. k \<noteq> key) order @ [key]"

definition is_loaded :: "neuron_cache \<Rightarrow> cache_key \<Rightarrow> bool \<times> neuron_cache" where
  "is_loaded c key =
     (if hm_contains (nc_entries c) key
      then (True, c\<lparr>nc_hits := nc_hits c + 1, nc_lru_order := promote key (nc_lru_order c)\<rparr>)
      else (False, c\<lparr>nc_misses := nc_misses c + 1\<rparr>))"

definition evict_lru :: "neuron_cache \<Rightarrow> cache_key option \<times> neuron_cache" where
  "evict_lru c = (case nc_lru_order c of
     [] \<Rightarrow> (None, c)
   | key # rest \<Rightarrow>
       (Some key, c\<lparr>nc_lru_order := rest, nc_entries := hm_remove key (nc_entries c)\<rparr>))"

definition mark_loaded :: "neuron_cache \<Rightarrow> cache_key \<Rightarrow> cache_key option \<times> neuron_cache" where
  "mark_loaded c key =
     (if hm_contains (nc_entries c) key
      then (None, c\<lparr>nc_lru_order := promote key (nc_lru_order c)\<rparr>)
      else
        let (evicted, c') = (if unat (nc_capacity c) \<le> length (nc_entries c)
                             then evict_lru c else (None, c))
        in (evicted, c'\<lparr>nc_entries := hm_insert key () (nc_entries c'),
                       nc_lru_order := nc_lru_order c' @ [key]\<rparr>))"

definition nc_evict_layer :: "neuron_cache \<Rightarrow> u32 \<Rightarrow> neuron_cache" where
  "nc_evict_layer c layer =
     c\<lparr>nc_entries := filter (\<lambda>(k, _). fst k \<noteq> layer) (nc_entries c),
       nc_lru_order := filter (\<lambda>k. fst k \<noteq> layer) (nc_lru_order c)\<rparr>"

definition nc_len :: "neuron_cache \<Rightarrow> nat" where
  "nc_len c = length (nc_entries c)"

definition hit_rate :: "neuron_cache \<Rightarrow> f64" where
  "hit_rate c = (let total = nc_hits c + nc_misses c in
     if total = 0 then Fin 0 else f_div (f_of_word (nc_hits c)) (f_of_word total))"

section \<open>Invariant\<close>

text \<open>
  The map and the queue hold the same keys, each once, and at most \<open>capacity\<close> of them;
  a cache of capacity zero still holds the slice marked last.
\<close>

definition nc_inv :: "neuron_cache \<Rightarrow> bool" where
  "nc_inv c \<longleftrightarrow> hm_wf (nc_entries c) \<and> distinct (nc_lru_order c) \<and>
     set (nc_lru_order c) = set (hm_keys (nc_entries c)) \<and>
     length (nc_lru_order c) \<le> max 1 (unat (nc_capacity c))"

definition nc_loaded :: "neuron_cache \<Rightarrow> cache_key \<Rightarrow> bool" where
  "nc_loaded c key \<longleftrightarrow> key \<in> set (nc_lru_order c)"

lemma nc_contains_iff: "nc_inv c \<Longrightarrow> hm_contains (nc_entries c) key \<longleftrightarrow> nc_loaded c key"
  by (simp add: nc_inv_def nc_loaded_def hm_get_None_iff)

lemma nc_length: "nc_inv c \<Longrightarrow> length (nc_entries c) = length (nc_lru_order c)"
  by (metis distinct_card hm_keys_def hm_wf_def length_map nc_inv_def)

lemma promote_props:
  assumes "distinct xs" "key \<in> set xs"
  shows "distinct (promote key xs)" "set (promote key xs) = set xs"
    "length (promote key xs) = length xs"
proof -
  show d: "distinct (promote key xs)" and s: "set (promote key xs) = set xs"
    using assms by (auto simp: promote_def)
  show "length (promote key xs) = length xs"
    using assms(1) d s by (metis distinct_card)
qed

lemma nc_inv_new [simp]: "nc_inv (nc_new cap)"
  by (simp add: nc_inv_def nc_new_def hm_keys_def)

lemma nc_inv_is_loaded: "nc_inv c \<Longrightarrow> nc_inv (snd (is_loaded c key))"
  by (auto simp: is_loaded_def nc_inv_def promote_props hm_get_None_iff)

lemma evict_lru_props:
  assumes "nc_inv c"
  shows "nc_inv (snd (evict_lru c))" "nc_lru_order (snd (evict_lru c)) = tl (nc_lru_order c)"
    "nc_capacity (snd (evict_lru c)) = nc_capacity c"
    "fst (evict_lru c) = (case nc_lru_order c of [] \<Rightarrow> None | k # _ \<Rightarrow> Some k)"
proof -
  show "nc_inv (snd (evict_lru c))"
  proof (cases "nc_lru_order c")
    case (Cons k ks)
    then have "set (hm_keys (nc_entries c)) = insert k (set ks)" "k \<notin> set ks"
      using assms by (simp_all add: nc_inv_def)
    then have "set (hm_keys (hm_remove k (nc_entries c))) = set ks"
      by (simp add: hm_keys_remove)
    with Cons assms show ?thesis by (simp add: evict_lru_def nc_inv_def)
  qed (simp add: evict_lru_def assms)
  show "nc_lru_order (snd (evict_lru c)) = tl (nc_lru_order c)"
    "nc_capacity (snd (evict_lru c)) = nc_capacity c"
    "fst (evict_lru c) = (case nc_lru_order c of [] \<Rightarrow> None | k # _ \<Rightarrow> Some k)"
    by (simp_all add: evict_lru_def split: list.splits)
qed

lemma mark_loaded_miss:
  assumes "nc_inv c" "\<not> nc_loaded c key"
  shows "nc_lru_order (snd (mark_loaded c key)) =
      (if unat (nc_capacity c) \<le> length (nc_lru_order c) then tl (nc_lru_order c)
       else nc_lru_order c) @ [key]"
    and "fst (mark_loaded c key) =
      (if unat (nc_capacity c) \<le> length (nc_lru_order c)
       then (case nc_lru_order c of [] \<Rightarrow> None | k # _ \<Rightarrow> Some k) else None)"
proof -
  have "\<not> hm_contains (nc_entries c) key" using assms nc_contains_iff by blast
  then show "nc_lru_order (snd (mark_loaded c key)) =
      (if unat (nc_capacity c) \<le> length (nc_lru_order c) then tl (nc_lru_order c)
       else nc_lru_order c) @ [key]"
    and "fst (mark_loaded c key) =
      (if unat (nc_capacity c) \<le> length (nc_lru_order c)
       then (case nc_lru_order c of [] \<Rightarrow> None | k # _ \<Rightarrow> Some k) else None)"
    by (auto simp: mark_loaded_def nc_length [OF assms(1)] evict_lru_props [OF assms(1)]
        case_prod_unfold Let_def)
qed

lemma mark_loaded_hit:
  assumes "nc_inv c" "nc_loaded c key"
  shows "nc_lru_order (snd (mark_loaded c key)) = promote key (nc_lru_order c)"
    "fst (mark_loaded c key) = None"
proof -
  have "hm_contains (nc_entries c) key" using assms nc_contains_iff by blast
  then show "nc_lru_order (snd (mark_loaded c key)) = promote key (nc_lru_order c)"
    "fst (mark_loaded c key) = None" by (auto simp: mark_loaded_def)
qed

lemma mark_loaded_capacity [simp]: "nc_capacity (snd (mark_loaded c key)) = nc_capacity c"
  by (auto simp: mark_loaded_def evict_lru_def case_prod_unfold Let_def split: list.splits)

lemma is_loaded_capacity [simp]: "nc_capacity (snd (is_loaded c key)) = nc_capacity c"
  by (simp add: is_loaded_def)

lemma nc_inv_insert:
  assumes "nc_inv c" "\<not> nc_loaded c key"
    "length (nc_lru_order c) < max 1 (unat (nc_capacity c))"
  shows "nc_inv (c\<lparr>nc_entries := hm_insert key () (nc_entries c),
                  nc_lru_order := nc_lru_order c @ [key]\<rparr>)"
  using assms by (auto simp: nc_inv_def nc_loaded_def hm_keys_insert)

lemma nc_inv_mark_loaded: assumes "nc_inv c" shows "nc_inv (snd (mark_loaded c key))"
proof (cases "nc_loaded c key")
  case True
  with assms nc_contains_iff have "hm_contains (nc_entries c) key" by blast
  with assms True show ?thesis by (auto simp: mark_loaded_def nc_inv_def nc_loaded_def promote_props)
next
  case False
  with assms nc_contains_iff have nk: "\<not> hm_contains (nc_entries c) key" by blast
  show ?thesis
  proof (cases "unat (nc_capacity c) \<le> length (nc_entries c)")
    case True
    let ?c = "snd (evict_lru c)"
    have "\<not> nc_loaded ?c key" "length (nc_lru_order ?c) < max 1 (unat (nc_capacity ?c))"
      using assms False evict_lru_props [OF assms] list.set_sel(2) [of "nc_lru_order c" key]
      by (cases "nc_lru_order c"; auto simp: nc_loaded_def nc_inv_def)+
    with nc_inv_insert evict_lru_props(1) [OF assms] True nk show ?thesis
      by (simp add: mark_loaded_def case_prod_unfold Let_def)
  next
    case False
    with assms have "length (nc_lru_order c) < max 1 (unat (nc_capacity c))"
      by (simp add: nc_length)
    with nc_inv_insert [OF assms \<open>\<not> nc_loaded c key\<close>] False nk show ?thesis
      by (simp add: mark_loaded_def)
  qed
qed

lemma nc_inv_evict_layer: "nc_inv c \<Longrightarrow> nc_inv (nc_evict_layer c layer)"
proof -
  assume i: "nc_inv c"
  have "map fst (filter (\<lambda>(k, _). fst k \<noteq> layer) (nc_entries c)) =
      filter (\<lambda>k. fst k \<noteq> layer) (map fst (nc_entries c))"
    by (simp add: filter_map comp_def case_prod_unfold)
  moreover have "length (filter (\<lambda>k. fst k \<noteq> layer) (nc_lru_order c)) \<le> length (nc_lru_order c)"
    by simp
  ultimately show ?thesis
    using i unfolding nc_inv_def nc_evict_layer_def hm_wf_def hm_keys_def
    by (auto simp del: length_filter_le)
qed

section \<open>The contract of the cache\<close>

text \<open>
  What the code that schedules reads relies on: a probe answers whether a slice is loaded
  and changes no content; a mark loads its slice and drops at most the slice it reports;
  a purge removes exactly the slices of a layer.
\<close>

locale slice_cache =
  fixes inv :: "'c \<Rightarrow> bool" and loaded :: "'c \<Rightarrow> 'k \<Rightarrow> bool"
    and probe :: "'c \<Rightarrow> 'k \<Rightarrow> bool \<times> 'c" and mark :: "'c \<Rightarrow> 'k \<Rightarrow> 'k option \<times> 'c"
  assumes probe_inv: "inv c \<Longrightarrow> inv (snd (probe c k))"
    and probe_answer: "inv c \<Longrightarrow> fst (probe c k) \<longleftrightarrow> loaded c k"
    and probe_loaded: "inv c \<Longrightarrow> loaded (snd (probe c k)) k' \<longleftrightarrow> loaded c k'"
    and mark_inv: "inv c \<Longrightarrow> inv (snd (mark c k))"
    and mark_loaded: "inv c \<Longrightarrow> loaded (snd (mark c k)) k' \<longleftrightarrow>
      k' = k \<or> loaded c k' \<and> fst (mark c k) \<noteq> Some k'"
    and mark_evicts: "inv c \<Longrightarrow> fst (mark c k) = Some k' \<Longrightarrow> loaded c k' \<and> k' \<noteq> k"

text \<open>
  The loop all loaders share: probe each key, skip the hits, schedule and mark the misses.
  It returns the scheduled keys in order.
\<close>

fun miss_loop :: "('c \<Rightarrow> 'k \<Rightarrow> bool \<times> 'c) \<Rightarrow> ('c \<Rightarrow> 'k \<Rightarrow> 'k option \<times> 'c) \<Rightarrow> 'c \<Rightarrow> 'k list \<Rightarrow>
    'k list \<times> 'c" where
  "miss_loop probe mark c [] = ([], c)"
| "miss_loop probe mark c (k # ks) = (case probe c k of (hit, c1) \<Rightarrow>
     if hit then miss_loop probe mark c1 ks
     else case mark c1 k of (_, c2) \<Rightarrow>
       case miss_loop probe mark c2 ks of (sched, c3) \<Rightarrow> (k # sched, c3))"

context slice_cache begin

lemma miss_loop_inv: "inv c \<Longrightarrow> inv (snd (miss_loop probe mark c ks))"
proof (induction ks arbitrary: c)
  case (Cons k ks)
  then show ?case
    using probe_inv [OF Cons.prems, of k] mark_inv
    by (auto simp: case_prod_unfold)
qed simp

lemma miss_loop_covers:
  assumes "inv c" "k \<in> set ks"
  shows "loaded c k \<or> k \<in> set (fst (miss_loop probe mark c ks))"
  using assms
proof (induction ks arbitrary: c)
  case (Cons x ks)
  let ?c1 = "snd (probe c x)"
  have i1: "inv ?c1" using probe_inv Cons.prems(1) .
  have i2: "inv (snd (mark ?c1 x))" using mark_inv i1 .
  show ?case
  proof (cases "fst (probe c x)")
    case True
    then have "k = x \<Longrightarrow> loaded c k" using probe_answer Cons.prems(1) by blast
    then show ?thesis
      using Cons.IH [OF i1] Cons.prems True probe_loaded [OF Cons.prems(1), of x k]
      by (auto simp: case_prod_unfold)
  next
    case False
    then show ?thesis
      using Cons.IH [OF i2] Cons.prems probe_loaded [OF Cons.prems(1), of x k]
        mark_loaded [OF i1, of x k]
      by (auto simp: case_prod_unfold)
  qed
qed simp

lemma miss_loop_only_wanted: "set (fst (miss_loop probe mark c ks)) \<subseteq> set ks"
proof (induction ks arbitrary: c)
  case (Cons k ks)
  show ?case
    using Cons [of "snd (probe c k)"] Cons [of "snd (mark (snd (probe c k)) k)"]
    by (auto simp: case_prod_unfold split: if_splits)
qed simp

lemma miss_loop_all_hits:
  assumes "inv c" "\<And>k. k \<in> set ks \<Longrightarrow> loaded c k"
  shows "fst (miss_loop probe mark c ks) = []"
  using assms
proof (induction ks arbitrary: c)
  case (Cons k ks)
  then have "fst (probe c k)" using probe_answer by simp
  with Cons.IH [OF probe_inv [OF Cons.prems(1)], of k] Cons.prems show ?case
    by (simp add: case_prod_unfold probe_loaded)
qed simp

end

interpretation nc: slice_cache nc_inv nc_loaded is_loaded mark_loaded
proof unfold_locales
  fix c k k'
  assume i: "nc_inv c"
  show "nc_inv (snd (is_loaded c k))" using nc_inv_is_loaded i .
  show "fst (is_loaded c k) = nc_loaded c k"
    using nc_contains_iff [OF i, of k] by (auto simp: is_loaded_def)
  show "nc_loaded (snd (is_loaded c k)) k' = nc_loaded c k'"
    using i nc_contains_iff [OF i, of k]
    by (auto simp: is_loaded_def nc_loaded_def promote_def)
  show "nc_inv (snd (mark_loaded c k))" using nc_inv_mark_loaded i .
  have d: "distinct (nc_lru_order c)" using i by (simp add: nc_inv_def)
  show "nc_loaded (snd (mark_loaded c k)) k' =
      (k' = k \<or> nc_loaded c k' \<and> fst (mark_loaded c k) \<noteq> Some k')"
  proof (cases "nc_loaded c k")
    case True
    with mark_loaded_hit [OF i True] show ?thesis by (auto simp: nc_loaded_def promote_def)
  next
    case False
    with mark_loaded_miss [OF i False] d show ?thesis
      by (cases "nc_lru_order c") (auto simp: nc_loaded_def)
  qed
  assume "fst (mark_loaded c k) = Some k'"
  then show "nc_loaded c k' \<and> k' \<noteq> k"
    using mark_loaded_hit(2) [OF i, of k] mark_loaded_miss(2) [OF i, of k]
    by (cases "nc_loaded c k") (auto simp: nc_loaded_def split: if_splits list.splits)
qed


section \<open>The cache is least-recently-used\<close>

datatype nc_op = Probe cache_key | Mark cache_key | Purge u32

fun nc_step :: "neuron_cache \<Rightarrow> nc_op \<Rightarrow> neuron_cache" where
  "nc_step c (Probe k) = snd (is_loaded c k)"
| "nc_step c (Mark k) = snd (mark_loaded c k)"
| "nc_step c (Purge l) = nc_evict_layer c l"

fun nc_run :: "neuron_cache \<Rightarrow> nc_op list \<Rightarrow> neuron_cache" where
  "nc_run c [] = c"
| "nc_run c (x # xs) = nc_run (nc_step c x) xs"

text \<open>
  The specification keeps no map and no queue, only the history of touches; the slices it
  counts as loaded are the last \<open>cap\<close> distinct ones of that history.
\<close>

definition recent :: "nat \<Rightarrow> 'a list \<Rightarrow> 'a list" where
  "recent cap h = (let r = remdups h in drop (length r - cap) r)"

fun touch :: "nat \<Rightarrow> cache_key list \<Rightarrow> nc_op \<Rightarrow> cache_key list" where
  "touch cap h (Probe k) = (if k \<in> set (recent cap h) then h @ [k] else h)"
| "touch cap h (Mark k) = h @ [k]"
| "touch cap h (Purge l) = filter (\<lambda>k. fst k \<noteq> l) (recent cap h)"

fun touches :: "nat \<Rightarrow> cache_key list \<Rightarrow> nc_op list \<Rightarrow> cache_key list" where
  "touches cap h [] = h"
| "touches cap h (x # xs) = touches cap (touch cap h x) xs"

lemma remdups_snoc: "remdups (h @ [k]) = removeAll k (remdups h) @ [k]"
  by (induction h) auto

lemma distinct_recent [simp]: "distinct (recent cap h)"
  by (simp add: recent_def Let_def)

lemma length_recent: "length (recent cap h) = min cap (length (remdups h))"
  by (simp add: recent_def Let_def)

lemma recent_distinct: "distinct h \<Longrightarrow> length h \<le> cap \<Longrightarrow> recent cap h = h"
  by (simp add: recent_def Let_def distinct_remdups_id)

lemma recent_touch_old:
  assumes "k \<in> set (recent cap h)"
  shows "recent cap (h @ [k]) = removeAll k (recent cap h) @ [k]"
proof -
  define r where "r = remdups h"
  define n where "n = length r - cap"
  have d: "distinct r" by (simp add: r_def)
  then have dj: "set (take n r) \<inter> set (drop n r) = {}" by (rule set_take_disj_set_drop_if_distinct) simp
  have k: "k \<in> set (drop n r)" using assms by (simp add: recent_def r_def n_def Let_def)
  with dj have "k \<notin> set (take n r)" by blast
  then have rem: "removeAll k r = take n r @ removeAll k (drop n r)"
    by (metis append_take_drop_id removeAll_append removeAll_id)
  have "removeAll k (drop n r) = remove1 k (drop n r)"
    using d by (simp add: distinct_remove1_removeAll)
  then have "Suc (length (removeAll k (drop n r))) = length (drop n r)"
    using k length_pos_if_in_set [OF k] by (simp only: length_remove1 if_True)
  then have "length (removeAll k r @ [k]) - cap = length (take n r)"
    unfolding rem by (simp add: n_def min_def)
  then show ?thesis
    by (simp add: recent_def remdups_snoc Let_def rem flip: r_def n_def)
qed

lemma recent_touch_new:
  assumes "k \<notin> set (recent cap h)" "1 \<le> cap"
  shows "recent cap (h @ [k]) =
    (if cap \<le> length (recent cap h) then tl (recent cap h) else recent cap h) @ [k]"
proof -
  define r where "r = remdups h"
  define n where "n = length r - cap"
  have k: "k \<notin> set (drop n r)" using assms(1) by (simp add: recent_def r_def n_def Let_def)
  then have rem: "removeAll k r = removeAll k (take n r) @ drop n r"
    by (metis append_take_drop_id removeAll_append removeAll_id)
  let ?p = "removeAll k (take n r)"
  show ?thesis
  proof (cases "cap \<le> length r")
    case True
    then have "length (drop n r) = cap" by (simp add: n_def)
    then have "drop (length (?p @ drop n r @ [k]) - cap) (?p @ drop n r @ [k]) = tl (drop n r) @ [k]"
      using assms(2) by (cases "drop n r") auto
    with True \<open>length (drop n r) = cap\<close> show ?thesis
      by (simp add: recent_def remdups_snoc Let_def rem flip: r_def n_def)
  next
    case False
    then have "n = 0" by (simp add: n_def)
    with False k show ?thesis
      by (simp add: recent_def remdups_snoc Let_def flip: r_def n_def)
  qed
qed

lemma recent_filter: "recent cap (filter P (recent cap h)) = filter P (recent cap h)"
  by (rule recent_distinct) (auto simp: length_recent intro: order_trans [OF length_filter_le])

lemma promote_removeAll: "promote k xs = removeAll k xs @ [k]"
  by (simp add: promote_def removeAll_filter_not_eq) (metis)

lemma nc_step_inv: "nc_inv c \<Longrightarrow> nc_inv (nc_step c x)"
  by (cases x) (auto intro: nc_inv_is_loaded nc_inv_mark_loaded nc_inv_evict_layer)

lemma nc_step_recent:
  assumes i: "nc_inv c" and cap: "unat (nc_capacity c) = cap" "1 \<le> cap"
    and r: "nc_lru_order c = recent cap h"
  shows "nc_lru_order (nc_step c x) = recent cap (touch cap h x)"
proof (cases x)
  case (Probe k)
  have "hm_contains (nc_entries c) k \<longleftrightarrow> k \<in> set (recent cap h)"
    using nc_contains_iff [OF i] r by (simp add: nc_loaded_def)
  with Probe r show ?thesis
    by (simp add: is_loaded_def recent_touch_old promote_removeAll)
next
  case (Mark k)
  show ?thesis
  proof (cases "nc_loaded c k")
    case True
    then have "k \<in> set (recent cap h)" using r by (simp add: nc_loaded_def)
    with Mark r mark_loaded_hit [OF i True] show ?thesis
      by (simp add: recent_touch_old promote_removeAll)
  next
    case False
    then have "k \<notin> set (recent cap h)" using r by (simp add: nc_loaded_def)
    with Mark r cap mark_loaded_miss(1) [OF i False] show ?thesis
      by (simp add: recent_touch_new)
  qed
next
  case (Purge l)
  with r show ?thesis by (simp add: nc_evict_layer_def recent_filter)
qed

lemma nc_step_capacity: "nc_capacity (nc_step c x) = nc_capacity c"
  by (cases x) (simp_all add: nc_evict_layer_def)

lemma nc_run_recent:
  assumes "nc_inv c" "unat (nc_capacity c) = cap" "1 \<le> cap" "nc_lru_order c = recent cap h"
  shows "nc_lru_order (nc_run c xs) = recent cap (touches cap h xs)"
  using assms
proof (induction xs arbitrary: c h)
  case (Cons x xs)
  then show ?case
    using nc_step_inv [of c x] nc_step_recent [of c cap h x] nc_step_capacity [of c x]
    by simp
qed simp

lemma nc_run_inv: "nc_inv c \<Longrightarrow> nc_inv (nc_run c xs)"
  by (induction xs arbitrary: c) (auto intro: nc_step_inv)

section \<open>Properties\<close>

text \<open>C9. For every sequence of probes, marks and layer evictions on a new cache of capacity
  at least one, the queue of \<open>NeuronCache\<close> holds exactly the last \<open>capacity\<close> distinct
  slices of the touch history, least recently used first: the map and queue of the code
  implement LRU, and the slice evicted next is the least recently touched one.\<close>

theorem nc_is_lru:
  assumes "1 \<le> unat cap"
  shows "nc_lru_order (nc_run (nc_new cap) ops) = recent (unat cap) (touches (unat cap) [] ops)"
  using assms by (intro nc_run_recent) (simp_all, simp_all add: nc_new_def recent_def)

theorem nc_is_lru_witness:
  "nc_lru_order (nc_run (nc_new 2) [Mark (0, 0, Gate), Mark (0, 1, Gate), Probe (0, 0, Gate),
     Mark (0, 2, Gate)]) = [(0, 0, Gate), (0, 2, Gate)]"
  using nc_is_lru [of 2 "[Mark (0, 0, Gate), Mark (0, 1, Gate), Probe (0, 0, Gate),
     Mark (0, 2, Gate)]"]
  by (simp add: recent_def)

text \<open>Whatever sequence of operations runs on a new cache, its map and its queue hold the
  same keys, each once, and at most \<open>max 1 capacity\<close> of them, and \<open>len\<close> reports their
  number.\<close>

theorem nc_consistent:
  "nc_inv (nc_run (nc_new cap) ops) \<and>
   nc_len (nc_run (nc_new cap) ops) \<le> max 1 (unat cap)"
proof -
  have i: "nc_inv (nc_run (nc_new cap) ops)" by (rule nc_run_inv) simp
  have "nc_capacity (nc_run c ops) = nc_capacity c" for c
    by (induction ops arbitrary: c) (simp_all add: nc_step_capacity)
  then have "nc_capacity (nc_run (nc_new cap) ops) = cap" by (simp add: nc_new_def)
  with i show ?thesis by (auto simp: nc_len_def nc_length nc_inv_def)
qed

text \<open>The hit rate is a number between 0 and 1, never a NaN, as long as the two counters
  do not wrap.\<close>

theorem hit_rate_range:
  assumes "unat (nc_hits c) + unat (nc_misses c) < 2 ^ 64"
  shows "f_in 0 (hit_rate c)"
proof -
  let ?h = "nc_hits c" and ?t = "nc_hits c + nc_misses c"
  have t: "unat ?t = unat ?h + unat (nc_misses c)"
    using assms by (simp add: unat_plus_no_wrap)
  show ?thesis
  proof (cases "?t = 0")
    case False
    then have pos: "1 \<le> unat ?t" by (simp add: unat_gt_0 Suc_le_eq)
    obtain b where b: "f_of_word ?t = Fin b" "0 \<le> b"
      using f_in_of_word [of ?t] by (auto simp: f_in_def)
    obtain one where "Fin 1 = Fin one" "one \<le> b"
      using f_of_nat_mono [OF pos] b(1) unfolding f_of_word_def f_of_nat_1 by metis
    then have b1: "1 \<le> b" by simp
    have "unat ?h \<le> unat ?t" unfolding t by simp
    from f_of_nat_mono [OF this b(1) [unfolded f_of_word_def]]
    obtain a where a: "f_of_word ?h = Fin a" "0 \<le> a" "a \<le> b" unfolding f_of_word_def by metis
    have "f_in 0 (rnd (a / b))" using a b1 by (intro f_in_rnd) (auto simp: divide_le_eq)
    with a b b1 False show ?thesis by (simp add: hit_rate_def Let_def)
  qed (simp add: hit_rate_def f_in_def)
qed

theorem hit_rate_range_witness:
  "f_in 0 (hit_rate (nc_run (nc_new 10) [Mark (0, 0, Gate), Probe (0, 0, Gate), Probe (0, 1, Gate)]))"
  by (rule hit_rate_range) (simp add: nc_new_def is_loaded_def mark_loaded_def evict_lru_def)

end
