(* ===== verification/Tensor_Role.thy ===== *)
theory Tensor_Role
  imports F64
begin

text \<open>
  Model of \<open>src/model/tensor_role.rs\<close>: the role of a tensor, read off its GGUF name by an
  ordered list of substring tests, and the share of tokens that touch it.  The results are
  stated for the names a GGUF file uses, for every layer and expert number.
\<close>

datatype tensor_role =
    Embedding
  | AttentionQuery
  | AttentionKey
  | AttentionValue
  | AttentionOutput
  | FfnGate
  | FfnUp
  | FfnDown
  | MoeRouter
  | MoeExpert u32
  | MoeFusedExperts
  | Norm
  | OutputHead
  | Other string

section \<open>Classification\<close>

definition is_fused_expert_tensor :: "string \<Rightarrow> bool" where
  "is_fused_expert_tensor name = (case str_find name ''_exps.'' of
     Some pos \<Rightarrow> (case drop (pos + 6) name of c # _ \<Rightarrow> \<not> is_digit c | [] \<Rightarrow> True)
   | None \<Rightarrow> False)"

definition parse_expert_id :: "string \<Rightarrow> u32 option" where
  "parse_expert_id name =
     (let nums = List.map_filter parse_u32 (split_char CHR ''.'' name)
      in if 1 < length nums then Some (nums ! 1) else None)"

definition role_from_name :: "string \<Rightarrow> tensor_role" where
  "role_from_name name =
     (if str_contains name ''token_embd'' then Embedding
      else if name = ''output.weight'' \<or> name = ''lm_head.weight'' then OutputHead
      else if str_contains name ''_norm'' \<or> str_contains name ''.norm'' then Norm
      else if str_contains name ''ffn_gate_inp'' \<or> str_contains name ''ffn_gate_shexp'' then MoeRouter
      else if str_contains name ''_exps.'' then
        (if is_fused_expert_tensor name then MoeFusedExperts
         else MoeExpert (case parse_expert_id name of Some e \<Rightarrow> e | None \<Rightarrow> 0))
      else if str_contains name ''attn_q'' \<or> str_contains name ''attn.q'' then AttentionQuery
      else if str_contains name ''attn_k'' \<or> str_contains name ''attn.k'' then AttentionKey
      else if str_contains name ''attn_v'' \<or> str_contains name ''attn.v'' then AttentionValue
      else if str_contains name ''attn_output'' \<or> str_contains name ''attn.o'' then AttentionOutput
      else if str_contains name ''ffn_gate'' then FfnGate
      else if str_contains name ''ffn_up'' then FfnUp
      else if str_contains name ''ffn_down'' then FfnDown
      else Other name)"

fun is_expert_role :: "tensor_role \<Rightarrow> bool" where
  "is_expert_role (MoeExpert _) = True"
| "is_expert_role MoeFusedExperts = True"
| "is_expert_role _ = False"

definition access_frequency :: "tensor_role \<Rightarrow> u32 \<Rightarrow> u32 \<Rightarrow> f64" where
  "access_frequency role experts_per_token total_experts =
     (if is_expert_role role then
        (if 0 < total_experts then f_div (f_of_word experts_per_token) (f_of_word total_experts)
         else Fin 1)
      else Fin 1)"

text \<open>The three tests that later components make on a role.\<close>

definition is_ffn :: "tensor_role \<Rightarrow> bool" where
  "is_ffn role \<longleftrightarrow> role = FfnGate \<or> role = FfnUp \<or> role = FfnDown"

lemma role_disjoint [simp]:
  "is_ffn role \<Longrightarrow> role \<noteq> MoeFusedExperts" "\<not> is_ffn MoeFusedExperts"
  by (auto simp: is_ffn_def)

section \<open>The names of a layer\<close>

definition blk_name :: "nat \<Rightarrow> string \<Rightarrow> string" where
  "blk_name n rest = ''blk.'' @ dec n @ ''.'' @ rest"

lemma str_contains_blk_name:
  "list_all (\<lambda>c. \<not> is_digit c) p \<Longrightarrow>
   str_contains (blk_name n rest) p \<longleftrightarrow> str_contains ''blk.'' p \<or> str_contains (CHR ''.'' # rest) p"
  unfolding blk_name_def
  by (subst str_contains_around_digits) (auto simp: list_all_iff intro: is_digit_in_dec)

lemma str_find_skip:
  "p \<noteq> [] \<Longrightarrow> hd p \<notin> set a \<Longrightarrow> str_find (a @ b) p = map_option ((+) (length a)) (str_find b p)"
proof (induction a)
  case Nil
  then show ?case by (simp add: option.map_ident)
next
  case (Cons c a)
  then have "\<not> prefix p (c # a @ b)" by (cases p) auto
  with Cons show ?case by (simp add: option.map_comp comp_def)
qed

lemma blk_name_neq [simp]: "blk_name n rest \<noteq> ''output.weight''" "blk_name n rest \<noteq> ''lm_head.weight''"
  by (simp_all add: blk_name_def)

lemma fused_skip:
  assumes "CHR ''_'' \<notin> set a"
  shows "is_fused_expert_tensor (a @ rest) \<longleftrightarrow>
   (case str_find rest ''_exps.'' of
      Some pos \<Rightarrow> (case drop (pos + 6) rest of c # _ \<Rightarrow> \<not> is_digit c | [] \<Rightarrow> True)
    | None \<Rightarrow> False)"
proof -
  have "str_find (a @ rest) ''_exps.'' = map_option ((+) (length a)) (str_find rest ''_exps.'')"
    using assms by (intro str_find_skip) auto
  then show ?thesis
    by (auto simp: is_fused_expert_tensor_def add.commute split: option.splits)
qed

lemma fused_blk_name:
  "is_fused_expert_tensor (blk_name n rest) \<longleftrightarrow>
   (case str_find rest ''_exps.'' of
      Some pos \<Rightarrow> (case drop (pos + 6) rest of c # _ \<Rightarrow> \<not> is_digit c | [] \<Rightarrow> True)
    | None \<Rightarrow> False)"
  using not_digit_in_dec [of "CHR ''_''" n] fused_skip [of "''blk.'' @ dec n @ ''.''" rest]
  by (simp add: is_digit_def blk_name_def)

lemma split_blk_name:
  "split_char CHR ''.'' (blk_name n rest) = [''blk'', dec n] @ split_char CHR ''.'' rest"
proof -
  have "CHR ''.'' \<notin> set (dec n)" by (rule not_digit_in_dec) (simp add: is_digit_def)
  then show ?thesis by (simp add: blk_name_def split_char_append)
qed

text \<open>
  The classification of a layer tensor looks at what follows the layer number only, which
  leaves closed tests that evaluate.
\<close>

definition layer_has :: "string \<Rightarrow> string \<Rightarrow> bool" where
  "layer_has rest p \<longleftrightarrow> str_contains ''blk.'' p \<or> str_contains (CHR ''.'' # rest) p"

definition layer_role :: "(string \<Rightarrow> bool) \<Rightarrow> tensor_role \<Rightarrow> tensor_role \<Rightarrow> tensor_role" where
  "layer_role has expert other =
     (if has ''token_embd'' then Embedding
      else if has ''_norm'' \<or> has ''.norm'' then Norm
      else if has ''ffn_gate_inp'' \<or> has ''ffn_gate_shexp'' then MoeRouter
      else if has ''_exps.'' then expert
      else if has ''attn_q'' \<or> has ''attn.q'' then AttentionQuery
      else if has ''attn_k'' \<or> has ''attn.k'' then AttentionKey
      else if has ''attn_v'' \<or> has ''attn.v'' then AttentionValue
      else if has ''attn_output'' \<or> has ''attn.o'' then AttentionOutput
      else if has ''ffn_gate'' then FfnGate
      else if has ''ffn_up'' then FfnUp
      else if has ''ffn_down'' then FfnDown
      else other)"

lemma layer_role_cong:
  assumes "\<And>p. list_all (\<lambda>c. \<not> is_digit c) p \<Longrightarrow> f p = g p"
  shows "layer_role f r x = layer_role g r x"
  by (simp add: layer_role_def assms is_digit_def)

lemma role_blk_name:
  "role_from_name (blk_name n rest) = layer_role (layer_has rest)
     (if is_fused_expert_tensor (blk_name n rest) then MoeFusedExperts
      else MoeExpert (case parse_expert_id (blk_name n rest) of Some e \<Rightarrow> e | None \<Rightarrow> 0))
     (Other (blk_name n rest))"
  by (simp add: role_from_name_def layer_role_def layer_has_def str_contains_blk_name is_digit_def
      cong: if_cong)

section \<open>Properties\<close>

text \<open>Every tensor name of the GGUF naming scheme is classified by its own role, for every
  layer number: the order of the substring tests never lets an earlier pattern capture a
  name meant for a later one.\<close>

theorem role_of_layer_tensors:
  "role_from_name (blk_name n ''attn_norm.weight'') = Norm \<and>
   role_from_name (blk_name n ''ffn_norm.weight'') = Norm \<and>
   role_from_name (blk_name n ''attn_q.weight'') = AttentionQuery \<and>
   role_from_name (blk_name n ''attn_k.weight'') = AttentionKey \<and>
   role_from_name (blk_name n ''attn_v.weight'') = AttentionValue \<and>
   role_from_name (blk_name n ''attn_output.weight'') = AttentionOutput \<and>
   role_from_name (blk_name n ''ffn_gate.weight'') = FfnGate \<and>
   role_from_name (blk_name n ''ffn_up.weight'') = FfnUp \<and>
   role_from_name (blk_name n ''ffn_down.weight'') = FfnDown \<and>
   role_from_name (blk_name n ''ffn_gate_inp.weight'') = MoeRouter \<and>
   role_from_name (blk_name n ''ffn_gate_exps.weight'') = MoeFusedExperts \<and>
   role_from_name (blk_name n ''ffn_up_exps.weight'') = MoeFusedExperts \<and>
   role_from_name (blk_name n ''ffn_down_exps.weight'') = MoeFusedExperts"
  by (intro conjI; unfold role_blk_name fused_blk_name; code_simp)

text \<open>A tensor that holds a single expert, named with an expert number after
  \<open>_exps.\<close>, is classified as that expert, for every layer and expert number: the second
  numeric component of the name is read back exactly.\<close>

theorem role_of_single_expert:
  fixes n e :: u32
  shows "role_from_name (blk_name (unat n) (''ffn_gate_exps.'' @ dec (unat e) @ ''.weight'')) = MoeExpert e"
proof -
  let ?rest = "''ffn_gate_exps.'' @ dec (unat e) @ ''.weight''"
  have cont: "list_all (\<lambda>c. \<not> is_digit c) p \<Longrightarrow> str_contains (CHR ''.'' # ?rest) p \<longleftrightarrow>
      str_contains ''.ffn_gate_exps.'' p \<or> str_contains ''.weight'' p" for p
    using str_contains_around_digits [of p "dec (unat e)" "''.ffn_gate_exps.''" "''.weight''"]
    by (auto simp: list_all_iff intro: is_digit_in_dec)
  have dot: "CHR ''.'' \<notin> set (dec (unat e))" by (rule not_digit_in_dec) (simp add: is_digit_def)
  have "split_char CHR ''.'' ?rest = [''ffn_gate_exps'', dec (unat e), ''weight'']"
    using split_char_append [OF dot, of "''weight''"] by simp
  then have "parse_expert_id (blk_name (unat n) ?rest) = Some e"
    by (simp add: parse_expert_id_def split_blk_name map_filter_simps parse_u32_def [of "_ # _"]
        parse_unsigned_def is_digit_def)
  moreover have "\<not> is_fused_expert_tensor (blk_name (unat n) ?rest)"
  proof -
    obtain d ds where d: "dec (unat e) = d # ds" by (cases "dec (unat e)") auto
    then have "is_digit d" using is_digit_in_dec [of d "unat e"] by simp
    moreover have "str_find ?rest ''_exps.'' = Some 8" by simp
    ultimately show ?thesis by (simp add: fused_blk_name d)
  qed
  moreover have "layer_role (layer_has ?rest) r o' =
      layer_role (\<lambda>p. str_contains ''blk.'' p \<or> str_contains ''.ffn_gate_exps.'' p \<or>
        str_contains ''.weight'' p) r o'" for r o'
    by (rule layer_role_cong) (simp only: layer_has_def cont)
  moreover have "layer_role (\<lambda>p. str_contains ''blk.'' p \<or> str_contains ''.ffn_gate_exps.'' p \<or>
        str_contains ''.weight'' p) r o' = r" for r o'
    by code_simp
  ultimately show ?thesis by (simp add: role_blk_name)
qed

text \<open>When a model activates at most as many experts per token as it has, the access
  frequency of every tensor is a number between 0 and 1, and it is exactly 1 for every
  tensor that is not an expert.\<close>

theorem access_frequency_range:
  fixes used total :: u32
  assumes "used \<le> total"
  shows "f_in 0 (access_frequency role used total) \<and>
    (\<not> is_expert_role role \<longrightarrow> access_frequency role used total = Fin 1)"
proof -
  have "f_in 0 (f_div (f_of_word used) (f_of_word total))" if "0 < total"
  proof -
    have pos: "1 \<le> unat total" using that by (simp add: word_less_nat_alt)
    have le: "unat used \<le> unat total" using assms by (simp add: word_le_nat_alt)
    obtain b where b: "f_of_word total = Fin b"
      using f_in_of_word [of total] by (auto simp: f_in_def)
    obtain one where "Fin 1 = Fin one" "one \<le> b"
      using f_of_nat_mono [OF pos] b unfolding f_of_word_def f_of_nat_1 by metis
    then have b1: "1 \<le> b" by simp
    obtain a where a: "f_of_word used = Fin a" "0 \<le> a" "a \<le> b"
      using f_of_nat_mono [OF le] b unfolding f_of_word_def by metis
    have "f_in 0 (rnd (a / b))" using a b1 by (intro f_in_rnd) (auto simp: divide_le_eq)
    with a b b1 show ?thesis by simp
  qed
  then show ?thesis by (auto simp: access_frequency_def f_in_def)
qed

theorem access_frequency_range_witness:
  "f_in 0 (access_frequency MoeFusedExperts 2 8)"
  using access_frequency_range [of 2 8 MoeFusedExperts] by simp

end
