(* ===== verification/Gguf.thy ===== *)
theory Gguf
  imports Tensor_Role
begin

text \<open>
  Model of \<open>src/model/gguf.rs\<close>: the parser of a GGUF header.  A reader is a function from
  the remaining bytes to an error or a value and the bytes after it, so \<open>?\<close> is the monadic
  bind.  Floats are kept as their bit patterns.  Besides the code's error type a read can end
  in \<open>AllocAbort\<close>: \<open>vec![0; len]\<close> and \<open>Vec::with_capacity(n)\<close> are called on lengths
  taken from the file, and when the allocator refuses them the process stops.  Which requests
  it accepts is the parameter \<open>alloc\<close>.  The second half gives the laws that make the
  parser a codec: what a successful read consumed determines its result, every proper part
  of it is reported as an I/O error, and reading inverts writing.
\<close>

section \<open>Data\<close>

datatype gguf_error =
    InvalidMagic u32
  | UnsupportedVersion u32
  | Io
  | InvalidString
  | UnknownValueType u32
  | UnknownTensorType u32
  | AllocAbort

datatype gguf_value =
    Uint8 u8
  | Int8 u8
  | Uint16 u16
  | Int16 u16
  | Uint32 u32
  | Int32 u32
  | Float32 u32
  | Bool bool
  | Str string
  | Uint64 u64
  | Int64 u64
  | Float64 u64
  | Array "gguf_value list"

fun as_str :: "gguf_value \<Rightarrow> string option" where
  "as_str (Str s) = Some s"
| "as_str _ = None"

fun as_u32 :: "gguf_value \<Rightarrow> u32 option" where
  "as_u32 (Uint32 v) = Some v"
| "as_u32 (Int32 v) = Some v"
| "as_u32 (Uint64 v) = Some (ucast v)"
| "as_u32 _ = None"

fun as_u64 :: "gguf_value \<Rightarrow> u64 option" where
  "as_u64 (Uint64 v) = Some v"
| "as_u64 (Uint32 v) = Some (ucast v)"
| "as_u64 (Int64 v) = Some v"
| "as_u64 _ = None"

text \<open>\<open>collect\<close> of an iterator of options: all of them, or nothing.\<close>

fun collect_options :: "'a option list \<Rightarrow> 'a list option" where
  "collect_options [] = Some []"
| "collect_options (x # xs) = (case x of None \<Rightarrow> None
     | Some v \<Rightarrow> map_option (\<lambda>vs. v # vs) (collect_options xs))"

fun as_u32_array :: "gguf_value \<Rightarrow> u32 list option" where
  "as_u32_array (Array elems) = collect_options (map as_u32 elems)"
| "as_u32_array _ = None"

datatype ggml_type =
    F32 | F16 | Q4_0 | Q4_1 | Q5_0 | Q5_1 | Q8_0 | Q8_1
  | Q2K | Q3K | Q4K | Q5K | Q6K | Q8K
  | IQ2XXS | IQ2XS | IQ3XXS | IQ1S | IQ4NL | IQ3S | IQ2S | IQ4XS
  | I8 | I16 | I32 | I64 | F64 | IQ1M | BF16
  | Unknown u32

definition ggml_from_u32 :: "u32 \<Rightarrow> ggml_type" where
  "ggml_from_u32 v =
     (if v = 0 then F32 else if v = 1 then F16 else if v = 2 then Q4_0 else if v = 3 then Q4_1
      else if v = 6 then Q5_0 else if v = 7 then Q5_1 else if v = 8 then Q8_0 else if v = 9 then Q8_1
      else if v = 10 then Q2K else if v = 11 then Q3K else if v = 12 then Q4K else if v = 13 then Q5K
      else if v = 14 then Q6K else if v = 15 then Q8K
      else if v = 16 then IQ2XXS else if v = 17 then IQ2XS else if v = 18 then IQ3XXS
      else if v = 19 then IQ1S else if v = 20 then IQ4NL else if v = 21 then IQ3S
      else if v = 22 then IQ2S else if v = 23 then IQ4XS
      else if v = 24 then I8 else if v = 25 then I16 else if v = 26 then I32 else if v = 27 then I64
      else if v = 28 then F64 else if v = 29 then IQ1M else if v = 30 then BF16
      else Unknown v)"

text \<open>The elements of a block and its bytes.\<close>

fun block_size :: "ggml_type \<Rightarrow> u64 \<times> u64" where
  "block_size F32 = (1, 4)"
| "block_size F16 = (1, 2)"
| "block_size BF16 = (1, 2)"
| "block_size F64 = (1, 8)"
| "block_size I8 = (1, 1)"
| "block_size I16 = (1, 2)"
| "block_size I32 = (1, 4)"
| "block_size I64 = (1, 8)"
| "block_size Q4_0 = (32, 18)"
| "block_size Q4_1 = (32, 20)"
| "block_size Q5_0 = (32, 22)"
| "block_size Q5_1 = (32, 24)"
| "block_size Q8_0 = (32, 34)"
| "block_size Q8_1 = (32, 36)"
| "block_size Q2K = (256, 84)"
| "block_size Q3K = (256, 110)"
| "block_size Q4K = (256, 144)"
| "block_size Q5K = (256, 176)"
| "block_size Q6K = (256, 210)"
| "block_size Q8K = (256, 292)"
| "block_size IQ2XXS = (256, 66)"
| "block_size IQ2XS = (256, 74)"
| "block_size IQ3XXS = (256, 98)"
| "block_size IQ1S = (256, 50)"
| "block_size IQ4NL = (32, 18)"
| "block_size IQ3S = (256, 110)"
| "block_size IQ2S = (256, 82)"
| "block_size IQ4XS = (32, 18)"
| "block_size IQ1M = (256, 56)"
| "block_size (Unknown _) = (1, 1)"

record tensor_info =
  ti_name :: string
  ti_dimensions :: "u64 list"
  ti_dtype :: ggml_type
  ti_offset :: u64
  ti_size_bytes :: u64
  ti_layer_index :: "u32 option"

record gguf_file =
  gf_version :: u32
  gf_metadata :: "(string, gguf_value) hmap"
  gf_tensors :: "tensor_info list"
  gf_data_offset :: u64

section \<open>Accessors\<close>

definition total_tensor_bytes :: "gguf_file \<Rightarrow> u64" where
  "total_tensor_bytes f = sum_list (map ti_size_bytes (gf_tensors f))"

definition get_metadata :: "gguf_file \<Rightarrow> string \<Rightarrow> gguf_value option" where
  "get_metadata f key = hm_get (gf_metadata f) key"

text \<open>\<open>Option::or_else\<close>.\<close>

fun or_else :: "'a option \<Rightarrow> 'a option \<Rightarrow> 'a option" where
  "or_else (Some x) _ = Some x"
| "or_else None y = y"

definition get_string :: "gguf_file \<Rightarrow> string \<Rightarrow> string option" where
  "get_string f key =
     or_else (Option.bind (hm_get (gf_metadata f) key) as_str)
       (Option.bind (hm_get (gf_metadata f) (''general.'' @ key)) as_str)"

definition arch_key :: "string \<Rightarrow> string \<Rightarrow> string" where
  "arch_key arch key = arch @ ''.'' @ key"

definition get_u32 :: "gguf_file \<Rightarrow> string \<Rightarrow> u32 option" where
  "get_u32 f key =
     or_else (Option.bind (hm_get (gf_metadata f) key) as_u32)
       (Option.bind (get_string f ''general.architecture'') (\<lambda>arch.
          Option.bind (hm_get (gf_metadata f) (arch_key arch key)) as_u32))"

definition get_u32_array :: "gguf_file \<Rightarrow> string \<Rightarrow> u32 list option" where
  "get_u32_array f key =
     or_else (Option.bind (hm_get (gf_metadata f) key) as_u32_array)
       (Option.bind (get_string f ''general.architecture'') (\<lambda>arch.
          Option.bind (hm_get (gf_metadata f) (arch_key arch key)) as_u32_array))"

definition parse_layer_index :: "string \<Rightarrow> u32 option" where
  "parse_layer_index name = (let parts = split_char CHR ''.'' name in
     if 2 \<le> length parts \<and> (parts ! 0 = ''blk'' \<or> parts ! 0 = ''layers'')
     then parse_u32 (parts ! 1) else None)"

section \<open>Readers\<close>

type_synonym 'a reader = "u8 list \<Rightarrow> gguf_error + 'a \<times> u8 list"

definition rreturn :: "'a \<Rightarrow> 'a reader" where
  "rreturn x = (\<lambda>bs. Inr (x, bs))"

definition rfail :: "gguf_error \<Rightarrow> 'a reader" where
  "rfail e = (\<lambda>bs. Inl e)"

definition rbind :: "'a reader \<Rightarrow> ('a \<Rightarrow> 'b reader) \<Rightarrow> 'b reader" where
  "rbind r f = (\<lambda>bs. case r bs of Inl e \<Rightarrow> Inl e | Inr (x, bs') \<Rightarrow> f x bs')"

definition read_exact :: "nat \<Rightarrow> u8 list reader" where
  "read_exact n = (\<lambda>bs. if length bs < n then Inl Io else Inr (take n bs, drop n bs))"

definition le_val :: "u8 list \<Rightarrow> nat" where
  "le_val bs = foldr (\<lambda>b n. unat b + 256 * n) bs 0"

definition read_le :: "nat \<Rightarrow> 'a::len word reader" where
  "read_le k = rbind (read_exact k) (\<lambda>bs. rreturn (of_nat (le_val bs)))"

definition read_u8 :: "u8 reader" where "read_u8 = read_le 1"
definition read_u16 :: "u16 reader" where "read_u16 = read_le 2"
definition read_u32 :: "u32 reader" where "read_u32 = read_le 4"
definition read_u64 :: "u64 reader" where "read_u64 = read_le 8"

text \<open>What may be asked of the allocator: a vector of so many elements of one of the four
  types that are sized from the file.\<close>

datatype vec_kind = ByteVec | ValueVec | TensorVec | DimVec

type_synonym allocator = "vec_kind \<Rightarrow> u64 \<Rightarrow> bool"

definition with_capacity :: "allocator \<Rightarrow> vec_kind \<Rightarrow> u64 \<Rightarrow> unit reader" where
  "with_capacity alloc kind n = (if alloc kind n then rreturn () else rfail AllocAbort)"

definition utf8_cont :: "u8 \<Rightarrow> bool" where
  "utf8_cont b \<longleftrightarrow> 0x80 \<le> b \<and> b \<le> 0xBF"

text \<open>The check of \<open>String::from_utf8\<close>.\<close>

fun utf8_valid :: "u8 list \<Rightarrow> bool" where
  "utf8_valid [] = True"
| "utf8_valid (a # bs) =
     (if a < 0x80 then utf8_valid bs
      else if 0xC2 \<le> a \<and> a \<le> 0xDF then
        (case bs of b # r \<Rightarrow> utf8_cont b \<and> utf8_valid r | [] \<Rightarrow> False)
      else if 0xE0 \<le> a \<and> a \<le> 0xEF then
        (case bs of b # c # r \<Rightarrow>
           (if a = 0xE0 then 0xA0 \<le> b \<and> b \<le> 0xBF
            else if a = 0xED then 0x80 \<le> b \<and> b \<le> 0x9F
            else utf8_cont b) \<and> utf8_cont c \<and> utf8_valid r
         | _ \<Rightarrow> False)
      else if 0xF0 \<le> a \<and> a \<le> 0xF4 then
        (case bs of b # c # d # r \<Rightarrow>
           (if a = 0xF0 then 0x90 \<le> b \<and> b \<le> 0xBF
            else if a = 0xF4 then 0x80 \<le> b \<and> b \<le> 0x8F
            else utf8_cont b) \<and> utf8_cont c \<and> utf8_cont d \<and> utf8_valid r
         | _ \<Rightarrow> False)
      else False)"

definition bytes_str :: "u8 list \<Rightarrow> string" where
  "bytes_str bs = map (\<lambda>b. char_of (unat b)) bs"

definition str_bytes :: "string \<Rightarrow> u8 list" where
  "str_bytes s = map (\<lambda>c. of_nat (of_char c)) s"

definition read_string :: "allocator \<Rightarrow> string reader" where
  "read_string alloc =
     rbind read_u64 (\<lambda>len.
     rbind (with_capacity alloc ByteVec len) (\<lambda>_.
     rbind (read_exact (unat len)) (\<lambda>buf.
     if utf8_valid buf then rreturn (bytes_str buf) else rfail InvalidString)))"

text \<open>The head of an array: element type, count, allocation.\<close>

definition read_array_head :: "allocator \<Rightarrow> (u32 \<times> u64) reader" where
  "read_array_head alloc = rbind read_u32 (\<lambda>elem_type. rbind read_u64 (\<lambda>n.
     rbind (with_capacity alloc ValueVec n) (\<lambda>_. rreturn (elem_type, n))))"

text \<open>
  \<open>read_value_of_type\<close> calls itself on the elements of an array; the loop over the elements
  is the second function.  Bytes are consumed on the way into a nested array and never put
  back, which is what bounds the recursion.
\<close>

function (sequential)
  read_value_of_type :: "allocator \<Rightarrow> u32 \<Rightarrow> gguf_value reader" and
  read_elems :: "allocator \<Rightarrow> u32 \<Rightarrow> nat \<Rightarrow> gguf_value list reader" where
  "read_value_of_type alloc vtype bs =
     (if vtype = 0 then rbind read_u8 (\<lambda>v. rreturn (Uint8 v)) bs
      else if vtype = 1 then rbind read_u8 (\<lambda>v. rreturn (Int8 v)) bs
      else if vtype = 2 then rbind read_u16 (\<lambda>v. rreturn (Uint16 v)) bs
      else if vtype = 3 then rbind read_u16 (\<lambda>v. rreturn (Int16 v)) bs
      else if vtype = 4 then rbind read_u32 (\<lambda>v. rreturn (Uint32 v)) bs
      else if vtype = 5 then rbind read_u32 (\<lambda>v. rreturn (Int32 v)) bs
      else if vtype = 6 then rbind read_u32 (\<lambda>v. rreturn (Float32 v)) bs
      else if vtype = 7 then rbind read_u8 (\<lambda>v. rreturn (Bool (v \<noteq> 0))) bs
      else if vtype = 8 then rbind (read_string alloc) (\<lambda>s. rreturn (Str s)) bs
      else if vtype = 9 then
        (case read_array_head alloc bs of
           Inl e \<Rightarrow> Inl e
         | Inr ((elem_type, n), bs') \<Rightarrow>
             (case read_elems alloc elem_type (unat n) bs' of
                Inl e \<Rightarrow> Inl e
              | Inr (arr, bs'') \<Rightarrow> Inr (Array arr, bs'')))
      else if vtype = 10 then rbind read_u64 (\<lambda>v. rreturn (Uint64 v)) bs
      else if vtype = 11 then rbind read_u64 (\<lambda>v. rreturn (Int64 v)) bs
      else if vtype = 12 then rbind read_u64 (\<lambda>v. rreturn (Float64 v)) bs
      else Inl (UnknownValueType vtype))"
| "read_elems alloc elem_type 0 bs = Inr ([], bs)"
| "read_elems alloc elem_type (Suc n) bs =
     (case read_value_of_type alloc elem_type bs of
        Inl e \<Rightarrow> Inl e
      | Inr (v, bs') \<Rightarrow>
          (case read_elems alloc elem_type n bs' of
             Inl e \<Rightarrow> Inl e
           | Inr (vs, bs'') \<Rightarrow> Inr (v # vs, bs'')))"
  by pat_completeness auto

text \<open>
  A reader is \<^emph>\<open>regular\<close> when a success depends on the bytes it consumed only, whatever
  follows them, and the same bytes cut short are an I/O error.
\<close>

definition regular_at :: "'a reader \<Rightarrow> u8 list \<Rightarrow> bool" where
  "regular_at r bs \<longleftrightarrow> (\<forall>x rest. r bs = Inr (x, rest) \<longrightarrow>
     (\<exists>c. bs = c @ rest \<and> (\<forall>ts. r (c @ ts) = Inr (x, ts)) \<and>
          (\<forall>k < length c. r (take k c) = Inl Io)))"

definition regular :: "'a reader \<Rightarrow> bool" where
  "regular r \<longleftrightarrow> (\<forall>bs. regular_at r bs)"

definition shrinks :: "nat \<Rightarrow> 'a reader \<Rightarrow> bool" where
  "shrinks n r \<longleftrightarrow> (\<forall>bs x rest. r bs = Inr (x, rest) \<longrightarrow> length rest + n \<le> length bs)"

lemma rbind_rreturn [simp]: "rbind (rreturn x) f = f x"
  by (simp add: rbind_def rreturn_def fun_eq_iff)

lemma rbind_rfail [simp]: "rbind (rfail e) f = rfail e"
  by (simp add: rbind_def rfail_def fun_eq_iff)

lemma rbind_assoc: "rbind (rbind r f) g = rbind r (\<lambda>x. rbind (f x) g)"
  by (simp add: rbind_def fun_eq_iff split: sum.splits)

lemma rreturn_apply [simp]: "rreturn x bs = Inr (x, bs)" "rfail e bs = Inl e"
  by (simp_all add: rreturn_def rfail_def)

lemma with_capacity_ok [simp]: "alloc k n \<Longrightarrow> with_capacity alloc k n = rreturn ()"
  by (simp add: with_capacity_def)

lemma shrinks_rreturn [simp]: "shrinks 0 (rreturn x)"
  by (simp add: shrinks_def rreturn_def)

lemma shrinks_rfail [simp]: "shrinks n (rfail e)"
  by (simp add: shrinks_def rfail_def)

lemma shrinks_rbind: "shrinks m r \<Longrightarrow> (\<And>x. shrinks n (f x)) \<Longrightarrow> shrinks (m + n) (rbind r f)"
  by (fastforce simp: shrinks_def rbind_def split: sum.splits)

lemma shrinks_read_exact: "shrinks n (read_exact n)"
  by (auto simp: shrinks_def read_exact_def split: if_splits)

lemma shrinks_read_le: "shrinks n (read_le n)"
  unfolding read_le_def using shrinks_rbind [OF shrinks_read_exact shrinks_rreturn] by simp

lemma shrinks_with_capacity: "shrinks 0 (with_capacity alloc k n)"
  by (simp add: with_capacity_def)

lemma shrinks_mono: "shrinks m r \<Longrightarrow> n \<le> m \<Longrightarrow> shrinks n r"
  by (fastforce simp: shrinks_def)

lemma shrinks_read_string: "shrinks 8 (read_string alloc)"
proof -
  have "shrinks (8 + (0 + (0 + 0))) (read_string alloc)"
    unfolding read_string_def read_u64_def
    by (intro shrinks_rbind shrinks_with_capacity shrinks_mono [OF shrinks_read_le]
        shrinks_mono [OF shrinks_read_exact]) auto
  then show ?thesis by simp
qed


lemma shrinks_read_array_head: "shrinks 12 (read_array_head alloc)"
proof -
  have "shrinks (4 + (8 + (0 + 0))) (read_array_head alloc)"
    unfolding read_array_head_def read_u32_def read_u64_def
    by (intro shrinks_rbind shrinks_with_capacity shrinks_mono [OF shrinks_read_le]) auto
  then show ?thesis by simp
qed

lemma shrinks_wrap: "shrinks n r \<Longrightarrow> rbind r (\<lambda>v. rreturn (f v)) bs = Inr (x, rest) \<Longrightarrow> length rest \<le> length bs"
  by (fastforce simp: shrinks_def rbind_def rreturn_def split: sum.splits)

lemma read_value_shrinks_partial:
  "read_value_of_type_read_elems_dom (Inl (alloc, vtype, bs)) \<Longrightarrow>
     read_value_of_type alloc vtype bs = Inr (x, rest) \<Longrightarrow> length rest \<le> length bs"
  "read_value_of_type_read_elems_dom (Inr (alloc, vtype, n, bs)) \<Longrightarrow>
     read_elems alloc vtype n bs = Inr (xs, rest) \<Longrightarrow> length rest \<le> length bs"
proof (induction alloc vtype bs and alloc vtype n bs arbitrary: x rest and xs rest
    rule: read_value_of_type_read_elems.pinduct)
  case (1 alloc vtype bs)
  show ?case
  proof (cases "vtype = 9")
    case True
    with 1(3) [unfolded read_value_of_type.psimps [OF 1(1)]]
    obtain et n bs' arr where h: "read_array_head alloc bs = Inr ((et, n), bs')"
      "read_elems alloc et (unat n) bs' = Inr (arr, rest)"
      by (auto split: sum.splits prod.splits)
    have "length rest \<le> length bs'"
      using 1(2) [of "((et, n), bs')"] h True by auto
    moreover have "length bs' \<le> length bs"
      using shrinks_read_array_head [of alloc] h(1) by (fastforce simp: shrinks_def)
    ultimately show ?thesis by simp
  next
    case False
    with 1(3) [unfolded read_value_of_type.psimps [OF 1(1)]] show ?thesis
      by (auto simp: read_u8_def read_u16_def read_u32_def read_u64_def split: if_splits
          elim: shrinks_wrap [OF shrinks_read_le] shrinks_wrap [OF shrinks_read_string])
  qed
next
  case (2 alloc elem_type bs)
  then show ?case by (simp add: read_elems.psimps)
next
  case (3 alloc elem_type n bs)
  then show ?case
    by (fastforce simp: read_elems.psimps split: sum.splits prod.splits)
qed


termination read_value_of_type
proof (relation "inv_image (less_than <*lex*> less_than <*lex*> less_than)
     (case_sum (\<lambda>(_, _, bs). (length bs, 0, 0)) (\<lambda>(_, _, n, bs). (length bs, 1, n)))",
    goal_cases)
  case 1
  show ?case by (intro wf_inv_image wf_lex_prod wf_less_than)
next
  case (2 alloc vtype bs b x y xa ya)
  then show ?case
    using shrinks_read_array_head [of alloc] by (fastforce simp: shrinks_def)
next
  case 3
  then show ?case by simp
next
  case (4 alloc elem_type n bs b x y)
  then have "length y \<le> length bs"
    by (cases b) (auto dest: read_value_shrinks_partial(1))
  then show ?case by auto
qed


declare read_value_of_type.simps [simp del]

definition read_value :: "allocator \<Rightarrow> gguf_value reader" where
  "read_value alloc = rbind read_u32 (\<lambda>vtype. read_value_of_type alloc vtype)"

text \<open>A counted loop that pushes what each pass reads.\<close>

fun read_n :: "'a reader \<Rightarrow> nat \<Rightarrow> 'a list reader" where
  "read_n r 0 = rreturn []"
| "read_n r (Suc n) = rbind r (\<lambda>x. rbind (read_n r n) (\<lambda>xs. rreturn (x # xs)))"

fun read_metadata :: "allocator \<Rightarrow> nat \<Rightarrow> (string, gguf_value) hmap \<Rightarrow> (string, gguf_value) hmap reader" where
  "read_metadata alloc 0 m = rreturn m"
| "read_metadata alloc (Suc n) m =
     rbind (read_string alloc) (\<lambda>key.
     rbind (read_value alloc) (\<lambda>v. read_metadata alloc n (hm_insert key v m)))"

definition tensor_size :: "u64 list \<Rightarrow> ggml_type \<Rightarrow> u64" where
  "tensor_size dimensions dtype =
     (let num_elements = prod_list dimensions; (block_elems, block_bytes) = block_size dtype
      in (num_elements div block_elems) * block_bytes)"

definition mk_tensor_info :: "string \<Rightarrow> u64 list \<Rightarrow> u32 \<Rightarrow> u64 \<Rightarrow> tensor_info" where
  "mk_tensor_info name dimensions dtype_raw off = (let dtype = ggml_from_u32 dtype_raw in
     \<lparr>ti_name = name, ti_dimensions = dimensions, ti_dtype = dtype, ti_offset = off,
      ti_size_bytes = tensor_size dimensions dtype, ti_layer_index = parse_layer_index name\<rparr>)"

definition read_tensor_info :: "allocator \<Rightarrow> tensor_info reader" where
  "read_tensor_info alloc =
     rbind (read_string alloc) (\<lambda>name.
     rbind read_u32 (\<lambda>n_dims.
     rbind (with_capacity alloc DimVec (ucast n_dims)) (\<lambda>_.
     rbind (read_n read_u64 (unat n_dims)) (\<lambda>dimensions.
     rbind read_u32 (\<lambda>dtype_raw.
     rbind read_u64 (\<lambda>off. rreturn (mk_tensor_info name dimensions dtype_raw off)))))))"

definition GGUF_MAGIC :: u32 where "GGUF_MAGIC = 0x46554747"

definition align_up_32 :: "u64 \<Rightarrow> u64" where
  "align_up_32 pos = (pos + 32 - 1) div 32 * 32"

definition parse_header :: "allocator \<Rightarrow> (u32 \<times> (string, gguf_value) hmap \<times> tensor_info list) reader" where
  "parse_header alloc =
     rbind read_u32 (\<lambda>magic.
     if magic \<noteq> GGUF_MAGIC then rfail (InvalidMagic magic) else
     rbind read_u32 (\<lambda>version.
     if version < 2 \<or> 3 < version then rfail (UnsupportedVersion version) else
     rbind read_u64 (\<lambda>tensor_count.
     rbind read_u64 (\<lambda>metadata_kv_count.
     rbind (read_metadata alloc (unat metadata_kv_count) []) (\<lambda>metadata.
     rbind (with_capacity alloc TensorVec tensor_count) (\<lambda>_.
     rbind (read_n (read_tensor_info alloc) (unat tensor_count)) (\<lambda>tensors.
     rreturn (version, metadata, tensors))))))))"

text \<open>\<open>GgufFile::parse\<close> on a reader that stands at the start of these bytes; the stream
  position is the number of bytes consumed.\<close>

definition parse :: "allocator \<Rightarrow> u8 list \<Rightarrow> gguf_error + gguf_file" where
  "parse alloc bs = (case parse_header alloc bs of
     Inl e \<Rightarrow> Inl e
   | Inr ((version, metadata, tensors), rest) \<Rightarrow>
       (let current_pos = of_nat (length bs - length rest)
        in Inr \<lparr>gf_version = version, gf_metadata = metadata, gf_tensors = tensors,
                gf_data_offset = align_up_32 current_pos\<rparr>))"

section \<open>Regular readers\<close>

lemma regular_atI:
  assumes "\<And>x rest. r bs = Inr (x, rest) \<Longrightarrow>
     \<exists>c. bs = c @ rest \<and> (\<forall>ts. r (c @ ts) = Inr (x, ts)) \<and> (\<forall>k < length c. r (take k c) = Inl Io)"
  shows "regular_at r bs"
  using assms by (simp add: regular_at_def)

lemma regular_atD:
  assumes "regular_at r bs" "r bs = Inr (x, rest)"
  obtains c where "bs = c @ rest" "\<And>ts. r (c @ ts) = Inr (x, ts)"
    "\<And>k. k < length c \<Longrightarrow> r (take k c) = Inl Io"
  using assms unfolding regular_at_def by blast

lemma regular_at: "regular r \<Longrightarrow> regular_at r bs"
  by (simp add: regular_def)

lemma regular_rreturn: "regular (rreturn x)"
  by (auto simp: regular_def regular_at_def rreturn_def)

lemma regular_rfail: "regular (rfail e)"
  by (simp add: regular_def regular_at_def rfail_def)

lemma regular_at_rbind:
  assumes r: "regular_at r bs" and f: "\<And>x rest. r bs = Inr (x, rest) \<Longrightarrow> regular_at (f x) rest"
  shows "regular_at (rbind r f) bs"
proof (rule regular_atI)
  fix y rest assume "rbind r f bs = Inr (y, rest)"
  then obtain x mid where 1: "r bs = Inr (x, mid)" and 2: "f x mid = Inr (y, rest)"
    by (auto simp: rbind_def split: sum.splits)
  obtain c where c: "bs = c @ mid" "\<And>ts. r (c @ ts) = Inr (x, ts)"
    "\<And>k. k < length c \<Longrightarrow> r (take k c) = Inl Io" using regular_atD [OF r 1] by metis
  obtain d where d: "mid = d @ rest" "\<And>ts. f x (d @ ts) = Inr (y, ts)"
    "\<And>k. k < length d \<Longrightarrow> f x (take k d) = Inl Io" using regular_atD [OF f [OF 1] 2] by metis
  have "rbind r f (take k (c @ d)) = Inl Io" if "k < length (c @ d)" for k
  proof (cases "k < length c")
    case True
    then show ?thesis by (simp add: rbind_def c(3))
  next
    case False
    then show ?thesis using that by (simp add: rbind_def c(2) d(3))
  qed
  then show "\<exists>c. bs = c @ rest \<and> (\<forall>ts. rbind r f (c @ ts) = Inr (y, ts)) \<and>
      (\<forall>k < length c. rbind r f (take k c) = Inl Io)"
    by (intro exI [of _ "c @ d"]) (simp add: c d rbind_def)
qed

lemma regular_rbind: "regular r \<Longrightarrow> (\<And>x. regular (f x)) \<Longrightarrow> regular (rbind r f)"
  by (simp add: regular_def regular_at_rbind)

lemma regular_read_exact: "regular (read_exact n)"
  unfolding regular_def
proof (intro allI regular_atI)
  fix bs x rest assume "read_exact n bs = Inr (x, rest)"
  then have "n \<le> length bs" "rest = drop n bs" "x = take n bs"
    by (auto simp: read_exact_def split: if_splits)
  then show "\<exists>c. bs = c @ rest \<and> (\<forall>ts. read_exact n (c @ ts) = Inr (x, ts)) \<and>
      (\<forall>k < length c. read_exact n (take k c) = Inl Io)"
    by (intro exI [of _ "take n bs"]) (auto simp: read_exact_def min_def)
qed

named_theorems regular_intro

lemmas [regular_intro] = regular_rreturn regular_rfail regular_rbind regular_read_exact

lemma regular_if [regular_intro]:
  "(b \<Longrightarrow> regular r) \<Longrightarrow> (\<not> b \<Longrightarrow> regular s) \<Longrightarrow> regular (if b then r else s)"
  by simp

lemma regular_read_le [regular_intro]: "regular (read_le n)"
  unfolding read_le_def by (intro regular_intro)

lemma regular_words [regular_intro]:
  "regular read_u8" "regular read_u16" "regular read_u32" "regular read_u64"
  unfolding read_u8_def read_u16_def read_u32_def read_u64_def by (intro regular_intro)+

lemma regular_with_capacity [regular_intro]: "regular (with_capacity alloc k n)"
  unfolding with_capacity_def by (intro regular_intro)

lemma regular_read_string [regular_intro]: "regular (read_string alloc)"
  unfolding read_string_def by (intro regular_intro)

lemma regular_read_array_head [regular_intro]: "regular (read_array_head alloc)"
  unfolding read_array_head_def by (intro regular_intro)

lemma regular_read_n [regular_intro]: "regular r \<Longrightarrow> regular (read_n r n)"
  by (induction n) (auto intro!: regular_intro)


lemma read_value_of_type_array:
  "read_value_of_type alloc 9 = rbind (read_array_head alloc) (\<lambda>(elem_type, n).
     rbind (read_elems alloc elem_type (unat n)) (\<lambda>arr. rreturn (Array arr)))"
  by (rule ext)
    (simp add: read_value_of_type.simps rbind_def rreturn_def split: sum.splits prod.splits)

lemma read_elems_Suc:
  "read_elems alloc elem_type (Suc n) = rbind (read_value_of_type alloc elem_type) (\<lambda>v.
     rbind (read_elems alloc elem_type n) (\<lambda>vs. rreturn (v # vs)))"
  by (rule ext) (simp add: rbind_def rreturn_def split: sum.splits prod.splits)

lemma read_elems_read_n: "read_elems alloc elem_type n = read_n (read_value_of_type alloc elem_type) n"
proof (induction n)
  case 0
  show ?case by (simp add: fun_eq_iff rreturn_def)
next
  case (Suc n)
  then show ?case by (simp only: read_elems_Suc read_n.simps)
qed

lemma read_value_of_type_scalar:
  "vtype \<noteq> 9 \<Longrightarrow> read_value_of_type alloc vtype =
     (if vtype = 0 then rbind read_u8 (\<lambda>v. rreturn (Uint8 v))
      else if vtype = 1 then rbind read_u8 (\<lambda>v. rreturn (Int8 v))
      else if vtype = 2 then rbind read_u16 (\<lambda>v. rreturn (Uint16 v))
      else if vtype = 3 then rbind read_u16 (\<lambda>v. rreturn (Int16 v))
      else if vtype = 4 then rbind read_u32 (\<lambda>v. rreturn (Uint32 v))
      else if vtype = 5 then rbind read_u32 (\<lambda>v. rreturn (Int32 v))
      else if vtype = 6 then rbind read_u32 (\<lambda>v. rreturn (Float32 v))
      else if vtype = 7 then rbind read_u8 (\<lambda>v. rreturn (Bool (v \<noteq> 0)))
      else if vtype = 8 then rbind (read_string alloc) (\<lambda>s. rreturn (Str s))
      else if vtype = 10 then rbind read_u64 (\<lambda>v. rreturn (Uint64 v))
      else if vtype = 11 then rbind read_u64 (\<lambda>v. rreturn (Int64 v))
      else if vtype = 12 then rbind read_u64 (\<lambda>v. rreturn (Float64 v))
      else rfail (UnknownValueType vtype))"
  by (rule ext) (simp add: read_value_of_type.simps rfail_def)

lemma regular_at_read_value:
  "regular_at (read_value_of_type alloc vtype) bs"
  "regular_at (read_elems alloc elem_type n) cs"
proof (induction alloc vtype bs and alloc elem_type n cs rule: read_value_of_type_read_elems.induct)
  case (1 alloc vtype bs)
  show ?case
  proof (cases "vtype = 9")
    case True
    have "regular_at (rbind (read_array_head alloc) (\<lambda>(elem_type, n).
        rbind (read_elems alloc elem_type (unat n)) (\<lambda>arr. rreturn (Array arr)))) bs"
      using 1 True
      by (intro regular_at_rbind regular_at [OF regular_read_array_head])
        (auto intro!: regular_at_rbind regular_at [OF regular_rreturn] split: prod.splits)
    then show ?thesis by (simp add: True read_value_of_type_array)
  next
    case False
    show ?thesis
      unfolding read_value_of_type_scalar [OF False] by (intro regular_at regular_intro)
  qed
next
  case (2 alloc elem_type bs)
  then show ?case using regular_at [OF regular_rreturn [of "[]"]] by (simp add: rreturn_def)
next
  case (3 alloc elem_type n bs)
  then show ?case
    unfolding read_elems_Suc
    by (intro regular_at_rbind) (auto intro: regular_at [OF regular_rreturn])
qed

lemma regular_read_value [regular_intro]:
  "regular (read_value_of_type alloc vtype)" "regular (read_value alloc)"
proof -
  show "regular (read_value_of_type alloc vtype)" for vtype
    by (simp add: regular_def regular_at_read_value)
  then show "regular (read_value alloc)"
    unfolding read_value_def by (intro regular_intro)
qed

lemma regular_read_metadata [regular_intro]: "regular (read_metadata alloc n m)"
  by (induction n arbitrary: m) (auto intro!: regular_intro)

lemma regular_read_tensor_info [regular_intro]: "regular (read_tensor_info alloc)"
  unfolding read_tensor_info_def by (intro regular_intro)

lemma regular_parse_header: "regular (parse_header alloc)"
  unfolding parse_header_def by (intro regular_intro)


section \<open>Writing\<close>

text \<open>The little-endian encoders that the tests of the parser use, extended to every value type.\<close>

fun le_bytes :: "nat \<Rightarrow> nat \<Rightarrow> u8 list" where
  "le_bytes 0 n = []"
| "le_bytes (Suc k) n = of_nat (n mod 256) # le_bytes k (n div 256)"

definition enc_u8 :: "u8 \<Rightarrow> u8 list" where "enc_u8 v = le_bytes 1 (unat v)"
definition enc_u16 :: "u16 \<Rightarrow> u8 list" where "enc_u16 v = le_bytes 2 (unat v)"
definition enc_u32 :: "u32 \<Rightarrow> u8 list" where "enc_u32 v = le_bytes 4 (unat v)"
definition enc_u64 :: "u64 \<Rightarrow> u8 list" where "enc_u64 v = le_bytes 8 (unat v)"

definition enc_string :: "string \<Rightarrow> u8 list" where
  "enc_string s = enc_u64 (of_nat (length s)) @ str_bytes s"

fun type_id :: "gguf_value \<Rightarrow> u32" where
  "type_id (Uint8 _) = 0" | "type_id (Int8 _) = 1" | "type_id (Uint16 _) = 2"
| "type_id (Int16 _) = 3" | "type_id (Uint32 _) = 4" | "type_id (Int32 _) = 5"
| "type_id (Float32 _) = 6" | "type_id (Bool _) = 7" | "type_id (Str _) = 8"
| "type_id (Array _) = 9" | "type_id (Uint64 _) = 10" | "type_id (Int64 _) = 11"
| "type_id (Float64 _) = 12"

definition elem_type_of :: "gguf_value list \<Rightarrow> u32" where
  "elem_type_of vs = (case vs of [] \<Rightarrow> 0 | v # _ \<Rightarrow> type_id v)"

fun enc_payload :: "gguf_value \<Rightarrow> u8 list" where
  "enc_payload (Uint8 v) = enc_u8 v"
| "enc_payload (Int8 v) = enc_u8 v"
| "enc_payload (Uint16 v) = enc_u16 v"
| "enc_payload (Int16 v) = enc_u16 v"
| "enc_payload (Uint32 v) = enc_u32 v"
| "enc_payload (Int32 v) = enc_u32 v"
| "enc_payload (Float32 v) = enc_u32 v"
| "enc_payload (Bool b) = enc_u8 (if b then 1 else 0)"
| "enc_payload (Str s) = enc_string s"
| "enc_payload (Array vs) =
     enc_u32 (elem_type_of vs) @ enc_u64 (of_nat (length vs)) @ concat (map enc_payload vs)"
| "enc_payload (Uint64 v) = enc_u64 v"
| "enc_payload (Int64 v) = enc_u64 v"
| "enc_payload (Float64 v) = enc_u64 v"

definition enc_value :: "gguf_value \<Rightarrow> u8 list" where
  "enc_value v = enc_u32 (type_id v) @ enc_payload v"

fun ggml_to_u32 :: "ggml_type \<Rightarrow> u32" where
  "ggml_to_u32 F32 = 0" | "ggml_to_u32 F16 = 1" | "ggml_to_u32 Q4_0 = 2" | "ggml_to_u32 Q4_1 = 3"
| "ggml_to_u32 Q5_0 = 6" | "ggml_to_u32 Q5_1 = 7" | "ggml_to_u32 Q8_0 = 8" | "ggml_to_u32 Q8_1 = 9"
| "ggml_to_u32 Q2K = 10" | "ggml_to_u32 Q3K = 11" | "ggml_to_u32 Q4K = 12" | "ggml_to_u32 Q5K = 13"
| "ggml_to_u32 Q6K = 14" | "ggml_to_u32 Q8K = 15" | "ggml_to_u32 IQ2XXS = 16" | "ggml_to_u32 IQ2XS = 17"
| "ggml_to_u32 IQ3XXS = 18" | "ggml_to_u32 IQ1S = 19" | "ggml_to_u32 IQ4NL = 20" | "ggml_to_u32 IQ3S = 21"
| "ggml_to_u32 IQ2S = 22" | "ggml_to_u32 IQ4XS = 23" | "ggml_to_u32 I8 = 24" | "ggml_to_u32 I16 = 25"
| "ggml_to_u32 I32 = 26" | "ggml_to_u32 I64 = 27" | "ggml_to_u32 F64 = 28" | "ggml_to_u32 IQ1M = 29"
| "ggml_to_u32 BF16 = 30" | "ggml_to_u32 (Unknown v) = v"

definition enc_tensor_info :: "tensor_info \<Rightarrow> u8 list" where
  "enc_tensor_info t = enc_string (ti_name t) @ enc_u32 (of_nat (length (ti_dimensions t))) @
     concat (map enc_u64 (ti_dimensions t)) @ enc_u32 (ggml_to_u32 (ti_dtype t)) @ enc_u64 (ti_offset t)"

definition enc_kv :: "string \<times> gguf_value \<Rightarrow> u8 list" where
  "enc_kv kv = enc_string (fst kv) @ enc_value (snd kv)"

definition enc_header :: "u32 \<Rightarrow> (string, gguf_value) hmap \<Rightarrow> tensor_info list \<Rightarrow> u8 list" where
  "enc_header version kvs ts =
     enc_u32 GGUF_MAGIC @ enc_u32 version @ enc_u64 (of_nat (length ts)) @ enc_u64 (of_nat (length kvs)) @
     concat (map enc_kv kvs) @ concat (map enc_tensor_info ts)"

text \<open>What can be written so that it reads back: strings are UTF-8 and their lengths fit,
  arrays are homogeneous, the derived fields of a tensor are derived, and the allocator
  accepts the lengths.\<close>

definition string_ok :: "allocator \<Rightarrow> string \<Rightarrow> bool" where
  "string_ok alloc s \<longleftrightarrow> length s < 2 ^ 64 \<and> alloc ByteVec (of_nat (length s)) \<and> utf8_valid (str_bytes s)"

fun value_ok :: "allocator \<Rightarrow> gguf_value \<Rightarrow> bool" where
  "value_ok alloc (Str s) = string_ok alloc s"
| "value_ok alloc (Array vs) = (length vs < 2 ^ 64 \<and> alloc ValueVec (of_nat (length vs)) \<and>
     list_all (\<lambda>v. type_id v = elem_type_of vs) vs \<and> list_all (value_ok alloc) vs)"
| "value_ok alloc _ = True"

definition tensor_ok :: "allocator \<Rightarrow> tensor_info \<Rightarrow> bool" where
  "tensor_ok alloc t \<longleftrightarrow> string_ok alloc (ti_name t) \<and> length (ti_dimensions t) < 2 ^ 32 \<and>
     alloc DimVec (of_nat (length (ti_dimensions t))) \<and>
     t = mk_tensor_info (ti_name t) (ti_dimensions t) (ggml_to_u32 (ti_dtype t)) (ti_offset t)"

definition kv_ok :: "allocator \<Rightarrow> string \<times> gguf_value \<Rightarrow> bool" where
  "kv_ok alloc kv \<longleftrightarrow> string_ok alloc (fst kv) \<and> value_ok alloc (snd kv)"

section \<open>Reading back\<close>

lemma read_n_back:
  "(\<And>x rest. x \<in> set xs \<Longrightarrow> r (enc x @ rest) = Inr (x, rest)) \<Longrightarrow>
   read_n r (length xs) (concat (map enc xs) @ rest) = Inr (xs, rest)"
  by (induction xs arbitrary: rest) (simp_all add: rbind_def rreturn_def)

text \<open>An encoder and the reader that undoes it, on the values that can be written.\<close>

locale codec =
  fixes enc :: "'a \<Rightarrow> u8 list" and read :: "'a reader" and ok :: "'a \<Rightarrow> bool"
  assumes read_enc: "ok x \<Longrightarrow> read (enc x @ rest) = Inr (x, rest)"
begin

lemma bind_enc [simp]: "ok x \<Longrightarrow> rbind read f (enc x @ rest) = f x rest"
  by (simp add: rbind_def read_enc)

lemma read_n_enc:
  "list_all ok xs \<Longrightarrow> read_n read (length xs) (concat (map enc xs) @ rest) = Inr (xs, rest)"
  by (rule read_n_back) (auto simp: list_all_iff read_enc)

lemma bind_n_enc [simp]:
  "list_all ok xs \<Longrightarrow> length xs = n \<Longrightarrow>
   rbind (read_n read n) f (concat (map enc xs) @ rest) = f xs rest"
  using read_n_enc by (auto simp: rbind_def)

lemma enc_inj: "ok x \<Longrightarrow> ok y \<Longrightarrow> enc x = enc y \<Longrightarrow> x = y"
  using read_enc [of x "[]"] read_enc [of y "[]"] by simp

end

lemma length_le_bytes [simp]: "length (le_bytes k n) = k"
  by (induction k arbitrary: n) auto

lemma le_val_le_bytes: "le_val (le_bytes k n) = n mod 256 ^ k"
proof (induction k arbitrary: n)
  case 0
  then show ?case by (simp add: le_val_def)
next
  case (Suc k)
  have "le_val (le_bytes (Suc k) n) = n mod 256 + 256 * le_val (le_bytes k (n div 256))"
    by (simp add: le_val_def unat_of_nat)
  also have "\<dots> = n mod 256 ^ Suc k"
    by (simp add: Suc mod_mult2_eq)
  finally show ?case .
qed

lemma bind_read_exact: "length xs = n \<Longrightarrow> rbind (read_exact n) f (xs @ rest) = f xs rest"
  by (simp add: rbind_def read_exact_def)

lemma read_le_back:
  fixes w :: "'a::len word"
  assumes "LENGTH('a) \<le> 8 * k"
  shows "read_le k (le_bytes k (unat w) @ rest) = Inr (w, rest)"
proof -
  have "unat w < 2 ^ LENGTH('a)" by simp
  also have "(2 :: nat) ^ LENGTH('a) \<le> 2 ^ (8 * k)" using assms by (simp add: power_increasing)
  also have "\<dots> = 256 ^ k" by (simp add: power_mult)
  finally have "unat w mod 256 ^ k = unat w" by simp
  then show ?thesis
    by (simp add: read_le_def bind_read_exact le_val_le_bytes rreturn_def)
qed

interpretation c8: codec enc_u8 read_u8 "\<lambda>_. True"
  by unfold_locales (unfold enc_u8_def read_u8_def, rule read_le_back, simp)

interpretation c16: codec enc_u16 read_u16 "\<lambda>_. True"
  by unfold_locales (simp add: enc_u16_def read_u16_def read_le_back)

interpretation c32: codec enc_u32 read_u32 "\<lambda>_. True"
  by unfold_locales (simp add: enc_u32_def read_u32_def read_le_back)

interpretation c64: codec enc_u64 read_u64 "\<lambda>_. True"
  by unfold_locales (simp add: enc_u64_def read_u64_def read_le_back)

lemma bytes_str_bytes [simp]: "bytes_str (str_bytes s) = s"
proof -
  have "char_of (unat (of_nat (of_char c) :: u8)) = c" for c :: char
    by (simp add: unat_of_nat take_bit_eq_mod [symmetric])
  then show ?thesis by (simp add: bytes_str_def str_bytes_def comp_def)
qed

lemma length_str_bytes [simp]: "length (str_bytes s) = length s"
  by (simp add: str_bytes_def)

interpretation cstr: codec enc_string "read_string alloc" "string_ok alloc" for alloc
proof
  fix s rest assume "string_ok alloc s"
  then show "read_string alloc (enc_string s @ rest) = Inr (s, rest)"
    by (simp add: string_ok_def read_string_def enc_string_def unat_of_nat bind_read_exact)
qed


lemma enc_value_append: "enc_value v @ rest = enc_u32 (type_id v) @ enc_payload v @ rest"
  by (simp add: enc_value_def)

lemma read_payload:
  "value_ok alloc v \<Longrightarrow> read_value_of_type alloc (type_id v) (enc_payload v @ rest) = Inr (v, rest)"
proof (induction v arbitrary: rest)
  case (Array vs)
  let ?et = "elem_type_of vs"
  have "read_n (read_value_of_type alloc ?et) (length vs) (concat (map enc_payload vs) @ rest) = Inr (vs, rest)"
    using Array by (intro read_n_back) (fastforce simp: list_all_iff)
  then have "rbind (read_elems alloc ?et (length vs)) f (concat (map enc_payload vs) @ rest) = f vs rest" for f :: "_ \<Rightarrow> gguf_value reader"
    by (simp add: read_elems_read_n rbind_def)
  with Array.prems show ?case
    by (simp add: read_value_of_type_array read_array_head_def rbind_assoc unat_of_nat)
qed (simp_all add: read_value_of_type_scalar)


interpretation cval: codec enc_value "read_value alloc" "value_ok alloc" for alloc
  by unfold_locales (simp add: enc_value_def read_value_def read_payload)

interpretation cten: codec enc_tensor_info "read_tensor_info alloc" "tensor_ok alloc" for alloc
proof
  fix t rest assume t: "tensor_ok alloc t"
  then have ok: "string_ok alloc (ti_name t)" "length (ti_dimensions t) < 2 ^ 32"
    "alloc DimVec (of_nat (length (ti_dimensions t)))"
    by (simp_all add: tensor_ok_def)
  from ok(2) have "ucast (of_nat (length (ti_dimensions t)) :: u32) = (of_nat (length (ti_dimensions t)) :: u64)"
    by (intro word_unat_eq_iff [THEN iffD2]) (simp add: unat_of_nat)
  with ok have "read_tensor_info alloc (enc_tensor_info t @ rest) =
      Inr (mk_tensor_info (ti_name t) (ti_dimensions t) (ggml_to_u32 (ti_dtype t)) (ti_offset t), rest)"
    by (simp add: read_tensor_info_def enc_tensor_info_def unat_of_nat
        c64.bind_n_enc list_all_iff)
  with t show "read_tensor_info alloc (enc_tensor_info t @ rest) = Inr (t, rest)"
    by (simp add: tensor_ok_def)
qed

lemma read_metadata_back:
  "list_all (kv_ok alloc) kvs \<Longrightarrow> distinct (map fst (m @ kvs)) \<Longrightarrow>
   read_metadata alloc (length kvs) m (concat (map enc_kv kvs) @ rest) = Inr (m @ kvs, rest)"
proof (induction kvs arbitrary: m)
  case (Cons kv kvs)
  have "hm_insert (fst kv) (snd kv) m = m @ [kv]"
    using Cons.prems(2) by (induction m) auto
  with Cons show ?case by (simp add: kv_ok_def enc_kv_def)
qed simp

lemma parse_header_back:
  assumes "version = 2 \<or> version = 3" "length kvs < 2 ^ 64" "length ts < 2 ^ 64"
    "distinct (map fst kvs)" "list_all (kv_ok alloc) kvs" "list_all (tensor_ok alloc) ts"
    "alloc TensorVec (of_nat (length ts))"
  shows "parse_header alloc (enc_header version kvs ts @ rest) = Inr ((version, kvs, ts), rest)"
proof -
  have "rbind (read_metadata alloc (length kvs) []) f (concat (map enc_kv kvs) @ rest') = f kvs rest'"
    for f :: "_ \<Rightarrow> (u32 \<times> (string, gguf_value) hmap \<times> tensor_info list) reader" and rest'
    using read_metadata_back [of alloc kvs "[]"] assms by (simp add: rbind_def)
  then show ?thesis
    using assms by (auto simp: parse_header_def enc_header_def unat_of_nat cten.bind_n_enc)
qed

lemma align_up_32:
  assumes "unat pos < 2 ^ 63"
  shows "32 dvd unat (align_up_32 pos) \<and> unat pos \<le> unat (align_up_32 pos) \<and>
    unat (align_up_32 pos) < unat pos + 32"
proof -
  define x where "x = pos + 32 - 1"
  have x: "unat x = unat pos + 31"
  proof -
    have "x = pos + 31" by (simp add: x_def)
    moreover have "unat (pos + 31) = unat pos + unat (31 :: u64)"
      using assms by (intro unat_plus_no_wrap) simp
    ultimately show ?thesis by simp
  qed
  have "unat (x div 32) = unat x div unat (32 :: u64)" by (rule unat_div)
  then have "unat (x div 32) = unat x div 32" by (simp only: unsigned_numeral) simp
  moreover have "unat x div 32 * 32 \<le> unat x" by simp
  then have "unat x div 32 * 32 < 2 ^ 64" using assms unfolding x by simp
  ultimately have "unat (align_up_32 pos) = unat x div 32 * 32"
    unfolding align_up_32_def x_def [symmetric] by (subst unat_mult_no_wrap) auto
  then have eq: "unat (align_up_32 pos) = (unat pos + 31) div 32 * 32" by (simp only: x)
  have "unat pos \<le> (unat pos + 31) div 32 * 32" "(unat pos + 31) div 32 * 32 < unat pos + 32"
    using div_mult_mod_eq [of "unat pos + 31" 32] mod_less_divisor [of 32 "unat pos + 31"] by linarith+
  then show ?thesis unfolding eq by (intro conjI dvd_triv_right)
qed

lemma parse_layer_index_blk: "parse_layer_index (blk_name (unat (n :: u32)) rest) = Some n"
  by (simp add: parse_layer_index_def split_blk_name Suc_le_eq)


lemma parse_alt:
  "parse alloc bs = Inr f \<longleftrightarrow> (\<exists>rest. length rest \<le> length bs \<and>
     parse_header alloc bs = Inr ((gf_version f, gf_metadata f, gf_tensors f), rest) \<and>
     gf_data_offset f = align_up_32 (of_nat (length bs - length rest)))"
proof -
  have "length rest \<le> length bs" if h: "parse_header alloc bs = Inr (x, rest)" for x rest
  proof -
    obtain c where "bs = c @ rest"
      using regular_at [OF regular_parse_header] h by (rule regular_atD)
    then show ?thesis by simp
  qed
  then show ?thesis
    by (cases f) (auto simp: parse_def split: sum.splits prod.splits)
qed

lemma parse_eof: "parse_header alloc bs = Inl e \<Longrightarrow> parse alloc bs = Inl e"
  by (simp add: parse_def)


section \<open>Properties\<close>

text \<open>C26. Parsing inverts writing: a header of version 2 or 3 with distinct keys, homogeneous
  arrays of any depth and UTF-8 strings, followed by any tensor data, parses to exactly
  the version, metadata and tensors that were written, and the data offset is the header
  length rounded up to 32.\<close>

theorem parse_encode:
  assumes "version = 2 \<or> version = 3" "length kvs < 2 ^ 64" "length ts < 2 ^ 64"
    "distinct (map fst kvs)" "list_all (kv_ok alloc) kvs" "list_all (tensor_ok alloc) ts"
    "alloc TensorVec (of_nat (length ts))"
  shows "parse alloc (enc_header version kvs ts @ data) =
    Inr \<lparr>gf_version = version, gf_metadata = kvs, gf_tensors = ts,
         gf_data_offset = align_up_32 (of_nat (length (enc_header version kvs ts)))\<rparr>"
  by (simp add: parse_def parse_header_back [OF assms])

theorem parse_encode_witness:
  "parse (\<lambda>_ _. True) (enc_header 3
       [(''general.architecture'', Str ''llama''), (''llama.block_count'', Uint32 32),
        (''a.head_count_kv'', Array [Array [Int32 4], Array []])]
       [mk_tensor_info ''blk.7.attn_q.weight'' [4096, 4096] 12 64] @ [1, 2, 3]) =
   Inr \<lparr>gf_version = 3,
        gf_metadata = [(''general.architecture'', Str ''llama''), (''llama.block_count'', Uint32 32),
                       (''a.head_count_kv'', Array [Array [Int32 4], Array []])],
        gf_tensors = [\<lparr>ti_name = ''blk.7.attn_q.weight'', ti_dimensions = [4096, 4096], ti_dtype = Q4K,
          ti_offset = 64, ti_size_bytes = 9437184, ti_layer_index = Some 7\<rparr>],
        gf_data_offset = 256\<rparr>"
proof -
  let ?kvs = "[(''general.architecture'', Str ''llama''), (''llama.block_count'', Uint32 32),
        (''a.head_count_kv'', Array [Array [Int32 4], Array []])]"
  let ?t = "mk_tensor_info ''blk.7.attn_q.weight'' [4096, 4096] 12 64"
  have t: "?t = \<lparr>ti_name = ''blk.7.attn_q.weight'', ti_dimensions = [4096, 4096], ti_dtype = Q4K,
          ti_offset = 64, ti_size_bytes = 9437184, ti_layer_index = Some 7\<rparr>"
    by code_simp
  have len: "align_up_32 (of_nat (length (enc_header 3 ?kvs [?t]))) = 256" by code_simp
  have kvs: "list_all (kv_ok (\<lambda>_ _. True)) ?kvs" by code_simp
  have ts: "list_all (tensor_ok (\<lambda>_ _. True)) [?t]" by code_simp
  have "parse (\<lambda>_ _. True) (enc_header 3 ?kvs [?t] @ [1, 2, 3]) =
      Inr \<lparr>gf_version = 3, gf_metadata = ?kvs, gf_tensors = [?t],
           gf_data_offset = align_up_32 (of_nat (length (enc_header 3 ?kvs [?t])))\<rparr>"
    by (rule parse_encode [OF _ _ _ _ kvs ts]) simp_all
  then show ?thesis unfolding len unfolding t .
qed

text \<open>C27. The parser reads the header and nothing after it: a successful parse depends on a
  prefix of the file only, and every file cut short inside that prefix is rejected with an
  I/O error instead of a wrong result.  The data offset lies at or after the end of that
  prefix, by less than 32 bytes, and is a multiple of 32.\<close>

theorem parse_reads_header_only:
  assumes "parse alloc bs = Inr f" "length bs < 2 ^ 63"
  shows "\<exists>n \<le> length bs.
     (\<forall>ts. parse alloc (take n bs @ ts) = Inr f) \<and>
     (\<forall>k < n. parse alloc (take k bs) = Inl Io) \<and>
     32 dvd unat (gf_data_offset f) \<and> n \<le> unat (gf_data_offset f) \<and> unat (gf_data_offset f) < n + 32"
proof -
  obtain rest where r: "parse_header alloc bs = Inr ((gf_version f, gf_metadata f, gf_tensors f), rest)"
    and off: "gf_data_offset f = align_up_32 (of_nat (length bs - length rest))"
    using assms(1) by (auto simp: parse_alt)
  obtain c where c: "bs = c @ rest"
    "\<And>ts. parse_header alloc (c @ ts) = Inr ((gf_version f, gf_metadata f, gf_tensors f), ts)"
    "\<And>k. k < length c \<Longrightarrow> parse_header alloc (take k c) = Inl Io"
    using regular_atD [OF regular_at [OF regular_parse_header] r] by metis
  have "unat (of_nat (length c) :: u64) = length c" using assms(2) c(1) by (simp add: unat_of_nat)
  then have off': "32 dvd unat (gf_data_offset f) \<and> length c \<le> unat (gf_data_offset f) \<and>
      unat (gf_data_offset f) < length c + 32"
    using align_up_32 [of "of_nat (length c)"] assms(2) c(1) off by simp
  have "parse alloc (take (length c) bs @ ts) = Inr f" for ts
    using c(1,2) off by (auto simp: parse_alt)
  moreover have "parse alloc (take k bs) = Inl Io" if "k < length c" for k
    using c(1) c(3) [OF that] that by (simp add: parse_eof)
  ultimately show ?thesis using off' c(1) by (intro exI [of _ "length c"]) simp
qed

theorem parse_reads_header_only_witness:
  "\<exists>n \<le> 24. \<forall>k < n. parse (\<lambda>_ _. True) (take k (enc_header 3 [] [])) = Inl Io"
proof -
  let ?f = "\<lparr>gf_version = 3, gf_metadata = [], gf_tensors = [], gf_data_offset = 32\<rparr>"
  have "parse (\<lambda>_ _. True) (enc_header 3 [] []) = Inr ?f" by code_simp
  moreover have len: "length (enc_header 3 [] []) = 24" by code_simp
  ultimately have "\<exists>n \<le> length (enc_header 3 [] []).
      (\<forall>ts. parse (\<lambda>_ _. True) (take n (enc_header 3 [] []) @ ts) = Inr ?f) \<and>
      (\<forall>k < n. parse (\<lambda>_ _. True) (take k (enc_header 3 [] [])) = Inl Io) \<and>
      32 dvd unat (gf_data_offset ?f) \<and> n \<le> unat (gf_data_offset ?f) \<and> unat (gf_data_offset ?f) < n + 32"
    by (intro parse_reads_header_only) simp_all
  then show ?thesis unfolding len by blast
qed

text \<open>The layer index of every tensor named \<open>blk.n.\<dots>\<close> in a parsed file is \<open>n\<close>, for every
  32-bit \<open>n\<close>, and the byte size of a tensor whose element count is a whole number of
  blocks is the exact number of blocks times the block bytes when that fits 64 bits.\<close>

theorem parsed_tensor_fields:
  assumes "t = mk_tensor_info (blk_name (unat n) rest) dims raw off"
    "block_size (ggml_from_u32 raw) = (be, bb)"
    "prod_list (map unat dims) = blocks * unat be"
    "prod_list (map unat dims) < 2 ^ 64" "blocks * unat bb < 2 ^ 64"
  shows "ti_layer_index t = Some n \<and> unat (ti_size_bytes t) = blocks * unat bb"
proof -
  have be: "0 < unat be" using assms(2) by (cases "ggml_from_u32 raw") auto
  have "unat (prod_list dims) = blocks * unat be"
    using assms(3,4) by (simp add: unat_prod_list_no_wrap)
  then have "unat (prod_list dims div be) = blocks" using be by (simp add: unat_div)
  then have "unat (tensor_size dims (ggml_from_u32 raw)) = blocks * unat bb"
    using assms(2,5) by (simp add: tensor_size_def unat_mult_no_wrap)
  then show ?thesis by (simp add: assms(1) mk_tensor_info_def Let_def parse_layer_index_blk)
qed

theorem parsed_tensor_fields_witness:
  "ti_layer_index (mk_tensor_info (blk_name (unat (31 :: u32)) ''ffn_gate_exps.weight'') [4096, 14336, 8] 12 0) = Some 31"
  using parsed_tensor_fields [of "mk_tensor_info (blk_name (unat (31 :: u32)) ''ffn_gate_exps.weight'') [4096, 14336, 8] 12 0"
      31 "''ffn_gate_exps.weight''" "[4096, 14336, 8]" 12 0 256 144 1835008]
  by (simp add: ggml_from_u32_def del: unsigned_numeral)

text \<open>The tensor count is handed to the allocator before any tensor is read: a file of 24
  bytes that announces \<open>2 ^ 64 - 1\<close> tensors does not end in the parser's error type but in
  a refused allocation, for every allocator that cannot provide that many.\<close>

theorem untrusted_count_aborts:
  assumes "\<not> alloc TensorVec 0xFFFFFFFFFFFFFFFF"
  shows "parse alloc (enc_u32 GGUF_MAGIC @ enc_u32 3 @ enc_u64 0xFFFFFFFFFFFFFFFF @ enc_u64 0) = Inl AllocAbort"
proof -
  have "rbind read_u64 f (enc_u64 0) = f 0 []" for f :: "u64 \<Rightarrow> (u32 \<times> (string, gguf_value) hmap \<times> tensor_info list) reader"
    using c64.bind_enc [where x = 0 and f = f and rest = "[]"] by simp
  then show ?thesis using assms by (simp add: parse_def parse_header_def with_capacity_def)
qed

theorem untrusted_count_aborts_witness:
  "parse (\<lambda>_ n. n < 0x1000000) (enc_u32 GGUF_MAGIC @ enc_u32 3 @ enc_u64 0xFFFFFFFFFFFFFFFF @ enc_u64 0) = Inl AllocAbort"
  by (rule untrusted_count_aborts) simp

end
