(* ===== verification/Metadata.thy ===== *)
theory Metadata
  imports Gguf
begin

text \<open>
  Model of \<open>src/model/metadata.rs\<close>: the model parameters that the planner works with, read
  from a parsed GGUF file through chains of fall-back keys, the dominant quantization and
  the parameter count.  The quantization is picked from a \<open>HashMap\<close>, whose iteration order
  is unspecified; the order is the parameter \<open>ord\<close>, of which only \<open>mset (ord xs) = mset xs\<close>
  is ever assumed.
\<close>

record model_metadata =
  mm_architecture :: string
  mm_parameter_count :: u64
  mm_context_length :: u32
  mm_embedding_dim :: u32
  mm_num_layers :: u32
  mm_num_heads :: u32
  mm_num_kv_heads :: u32
  mm_vocab_size :: u32
  mm_quantization :: "string option"
  mm_is_moe :: bool
  mm_num_experts :: "u32 option"
  mm_num_experts_used :: "u32 option"

fun unwrap_or :: "'a option \<Rightarrow> 'a \<Rightarrow> 'a" where
  "unwrap_or (Some x) _ = x"
| "unwrap_or None d = d"

section \<open>Quantization and size\<close>

text \<open>The \<open>Debug\<close> text of a type is its variant name.\<close>

fun ggml_debug :: "ggml_type \<Rightarrow> string" where
  "ggml_debug F32 = ''F32''" | "ggml_debug F16 = ''F16''" | "ggml_debug Q4_0 = ''Q4_0''"
| "ggml_debug Q4_1 = ''Q4_1''" | "ggml_debug Q5_0 = ''Q5_0''" | "ggml_debug Q5_1 = ''Q5_1''"
| "ggml_debug Q8_0 = ''Q8_0''" | "ggml_debug Q8_1 = ''Q8_1''" | "ggml_debug Q2K = ''Q2K''"
| "ggml_debug Q3K = ''Q3K''" | "ggml_debug Q4K = ''Q4K''" | "ggml_debug Q5K = ''Q5K''"
| "ggml_debug Q6K = ''Q6K''" | "ggml_debug Q8K = ''Q8K''" | "ggml_debug IQ2XXS = ''IQ2XXS''"
| "ggml_debug IQ2XS = ''IQ2XS''" | "ggml_debug IQ3XXS = ''IQ3XXS''" | "ggml_debug IQ1S = ''IQ1S''"
| "ggml_debug IQ4NL = ''IQ4NL''" | "ggml_debug IQ3S = ''IQ3S''" | "ggml_debug IQ2S = ''IQ2S''"
| "ggml_debug IQ4XS = ''IQ4XS''" | "ggml_debug I8 = ''I8''" | "ggml_debug I16 = ''I16''"
| "ggml_debug I32 = ''I32''" | "ggml_debug I64 = ''I64''" | "ggml_debug F64 = ''F64''"
| "ggml_debug IQ1M = ''IQ1M''" | "ggml_debug BF16 = ''BF16''"
| "ggml_debug (Unknown v) = ''Unknown('' @ dec (unat v) @ '')''"

definition count_dtype :: "(string, u32) hmap \<Rightarrow> tensor_info \<Rightarrow> (string, u32) hmap" where
  "count_dtype m t =
     (if 1024 * 1024 < ti_size_bytes t
      then hm_insert (ggml_debug (ti_dtype t)) (unwrap_or (hm_get m (ggml_debug (ti_dtype t))) 0 + 1) m
      else m)"

definition detect_quantization ::
  "((string \<times> u32) list \<Rightarrow> (string \<times> u32) list) \<Rightarrow> gguf_file \<Rightarrow> string option" where
  "detect_quantization ord gguf =
     (let type_counts = foldl count_dtype [] (gf_tensors gguf)
      in map_option fst (max_by_key snd (ord type_counts)))"

definition estimate_parameters :: "gguf_file \<Rightarrow> u64" where
  "estimate_parameters gguf = sum_list (map (\<lambda>t. prod_list (ti_dimensions t)) (gf_tensors gguf))"

section \<open>Extraction\<close>

definition lookup2 :: "gguf_file \<Rightarrow> string \<Rightarrow> string \<Rightarrow> u32 option" where
  "lookup2 gguf arch key = or_else (get_u32 gguf (arch_key arch key)) (get_u32 gguf key)"

definition from_gguf ::
  "((string \<times> u32) list \<Rightarrow> (string \<times> u32) list) \<Rightarrow> gguf_file \<Rightarrow> model_metadata" where
  "from_gguf ord gguf =
     (let arch = unwrap_or (get_string gguf ''general.architecture'') ''unknown'';
          num_layers = unwrap_or (lookup2 gguf arch ''block_count'') 0;
          embedding_dim = unwrap_or (lookup2 gguf arch ''embedding_length'') 0;
          num_heads = unwrap_or (lookup2 gguf arch ''attention.head_count'') 0;
          num_kv_heads = unwrap_or
            (or_else (lookup2 gguf arch ''attention.head_count_kv'')
               (Option.bind (get_u32_array gguf ''attention.head_count_kv'') (max_by_key (\<lambda>x. x))))
            num_heads;
          vocab_size = unwrap_or (lookup2 gguf arch ''vocab_size'') 0;
          context_length = unwrap_or (lookup2 gguf arch ''context_length'') 0;
          num_experts = lookup2 gguf arch ''expert_count'';
          num_experts_used = lookup2 gguf arch ''expert_used_count'';
          is_moe = (case num_experts of None \<Rightarrow> False | Some n \<Rightarrow> 1 < n)
      in \<lparr>mm_architecture = arch, mm_parameter_count = estimate_parameters gguf,
          mm_context_length = context_length, mm_embedding_dim = embedding_dim,
          mm_num_layers = num_layers, mm_num_heads = num_heads, mm_num_kv_heads = num_kv_heads,
          mm_vocab_size = vocab_size, mm_quantization = detect_quantization ord gguf,
          mm_is_moe = is_moe, mm_num_experts = num_experts, mm_num_experts_used = num_experts_used\<rparr>)"

section \<open>Counting\<close>

definition dtype_count :: "tensor_info list \<Rightarrow> string \<Rightarrow> nat" where
  "dtype_count ts d = length (filter (\<lambda>t. 1024 * 1024 < ti_size_bytes t \<and> ggml_debug (ti_dtype t) = d) ts)"

lemma dtype_count_snoc:
  "dtype_count (ts @ [t]) d =
     dtype_count ts d + (if 1024 * 1024 < ti_size_bytes t \<and> ggml_debug (ti_dtype t) = d then 1 else 0)"
  by (simp add: dtype_count_def)

lemma type_counts_correct:
  "length ts < 2 ^ 32 \<Longrightarrow>
   hm_wf (foldl count_dtype [] ts) \<and>
   (\<forall>d. hm_get (foldl count_dtype [] ts) d =
      (if dtype_count ts d = 0 then None else Some (of_nat (dtype_count ts d))))"
proof (induction ts rule: rev_induct)
  case Nil
  then show ?case by (simp add: dtype_count_def)
next
  case (snoc t ts)
  then show ?case
    by (auto simp: count_dtype_def dtype_count_snoc)
qed

lemma dtype_count_le: "dtype_count ts d \<le> length ts"
  by (simp add: dtype_count_def)

text \<open>The reported quantization is a dominant one for every iteration order of the hash
  map: among the tensors above one MiB no other type is more frequent, and there is none
  exactly when no tensor is that large.\<close>

theorem quantization_is_dominant:
  assumes ord: "\<And>xs. mset (ord xs) = mset xs" and len: "length (gf_tensors gguf) < 2 ^ 32"
  shows "case detect_quantization ord gguf of
      None \<Rightarrow> \<forall>d. dtype_count (gf_tensors gguf) d = 0
    | Some q \<Rightarrow> 0 < dtype_count (gf_tensors gguf) q \<and>
        (\<forall>d. dtype_count (gf_tensors gguf) d \<le> dtype_count (gf_tensors gguf) q)"
proof -
  let ?ts = "gf_tensors gguf"
  let ?m = "foldl count_dtype [] ?ts"
  have wf: "hm_wf ?m" and get: "hm_get ?m d = (if dtype_count ?ts d = 0 then None else Some (of_nat (dtype_count ?ts d)))" for d
    using type_counts_correct [OF len] by auto
  have mem: "(d, c) \<in> set ?m \<longleftrightarrow> 0 < dtype_count ?ts d \<and> c = of_nat (dtype_count ?ts d)" for d c
    using wf map_of_eq_Some_iff [of ?m d c] get [of d] by (auto simp: hm_wf_def split: if_splits)
  have set_ord: "set (ord ?m) = set ?m" by (metis ord set_mset_mset)
  show ?thesis
  proof (cases "detect_quantization ord gguf")
    case None
    then have "ord ?m = []" by (simp add: detect_quantization_def)
    then have "set ?m = {}" using set_ord by simp
    then show ?thesis using mem None by (auto intro: ccontr)
  next
    case (Some q)
    then obtain c where max: "max_by_key snd (ord ?m) = Some (q, c)"
      by (auto simp: detect_quantization_def)
    then have q: "0 < dtype_count ?ts q" "c = of_nat (dtype_count ?ts q)"
      using max_by_key_Some [OF max] mem set_ord by auto
    have "dtype_count ?ts d \<le> dtype_count ?ts q" for d
    proof (cases "dtype_count ?ts d = 0")
      case False
      then have "(d, of_nat (dtype_count ?ts d)) \<in> set ?m" using mem by simp
      then have "(of_nat (dtype_count ?ts d) :: u32) \<le> of_nat (dtype_count ?ts q)"
        using max_by_key_Some [OF max] set_ord q by fastforce
      then show ?thesis
        using len dtype_count_le [of ?ts d] dtype_count_le [of ?ts q]
        by (simp add: word_le_nat_alt unat_of_nat)
    qed simp
    with q Some show ?thesis by simp
  qed
qed

theorem quantization_is_dominant_witness:
  "let gguf = \<lparr>gf_version = 3, gf_metadata = [], gf_tensors = [mk_tensor_info ''a'' [4096, 4096] 12 0,
        mk_tensor_info ''b'' [4096, 4096] 12 0, mk_tensor_info ''c'' [4096, 4096] 14 0], gf_data_offset = 0\<rparr>
   in detect_quantization rev gguf = Some ''Q4K'' \<and>
      dtype_count (gf_tensors gguf) ''Q6K'' \<le> dtype_count (gf_tensors gguf) ''Q4K''"
proof -
  let ?g = "\<lparr>gf_version = 3, gf_metadata = [], gf_tensors = [mk_tensor_info ''a'' [4096, 4096] 12 0,
        mk_tensor_info ''b'' [4096, 4096] 12 0, mk_tensor_info ''c'' [4096, 4096] 14 0], gf_data_offset = 0\<rparr>"
  have "detect_quantization rev ?g = Some ''Q4K''" by code_simp
  with quantization_is_dominant [of rev ?g] show ?thesis by (simp add: Let_def)
qed

text \<open>A file that names its architecture and keeps the standard keys under it gives exactly
  those values: layers, width, heads, vocabulary, context and experts are read from
  \<open>arch.key\<close>, and the model is a mixture of experts exactly when it has more than one
  expert.\<close>

theorem metadata_from_arch_keys:
  assumes arch: "hm_get (gf_metadata gguf) ''general.architecture'' = Some (Str arch)"
    and keys: "\<And>key. key \<in> {''block_count'', ''embedding_length'', ''attention.head_count'',
        ''attention.head_count_kv'', ''vocab_size'', ''context_length'', ''expert_count'', ''expert_used_count''} \<Longrightarrow>
      hm_get (gf_metadata gguf) (arch_key arch key) = Some (Uint32 (val key))"
  shows "from_gguf ord gguf =
     \<lparr>mm_architecture = arch, mm_parameter_count = estimate_parameters gguf,
      mm_context_length = val ''context_length'', mm_embedding_dim = val ''embedding_length'',
      mm_num_layers = val ''block_count'', mm_num_heads = val ''attention.head_count'',
      mm_num_kv_heads = val ''attention.head_count_kv'', mm_vocab_size = val ''vocab_size'',
      mm_quantization = detect_quantization ord gguf, mm_is_moe = (1 < val ''expert_count''),
      mm_num_experts = Some (val ''expert_count''), mm_num_experts_used = Some (val ''expert_used_count'')\<rparr>"
proof -
  have "get_string gguf ''general.architecture'' = Some arch"
    by (simp add: get_string_def arch)
  then show ?thesis
    by (simp add: from_gguf_def lookup2_def get_u32_def keys)
qed

theorem metadata_from_arch_keys_witness:
  "mm_num_experts_used (from_gguf rev \<lparr>gf_version = 3, gf_metadata =
       [(''general.architecture'', Str ''x''), (''x.block_count'', Uint32 32), (''x.embedding_length'', Uint32 4096),
        (''x.attention.head_count'', Uint32 24), (''x.attention.head_count_kv'', Uint32 8),
        (''x.vocab_size'', Uint32 10), (''x.context_length'', Uint32 14), (''x.expert_count'', Uint32 16),
        (''x.expert_used_count'', Uint32 2)],
     gf_tensors = [], gf_data_offset = 0\<rparr>) = Some 2"
proof -
  let ?md = "[(''general.architecture'', Str ''x''), (''x.block_count'', Uint32 32), (''x.embedding_length'', Uint32 4096),
        (''x.attention.head_count'', Uint32 24), (''x.attention.head_count_kv'', Uint32 8),
        (''x.vocab_size'', Uint32 10), (''x.context_length'', Uint32 14), (''x.expert_count'', Uint32 16),
        (''x.expert_used_count'', Uint32 2)]"
  let ?val = "\<lambda>key. case hm_get ?md (arch_key ''x'' key) of Some (Uint32 v) \<Rightarrow> v | _ \<Rightarrow> 0"
  show ?thesis
    by (subst metadata_from_arch_keys [where arch = "''x''" and val = ?val])
      (auto simp: arch_key_def)
qed

text \<open>An architecture that stores one key/value head count per layer is planned with the
  largest of them: no layer has more heads than the planner reserves for.\<close>

theorem kv_heads_per_layer_max:
  assumes arch: "hm_get (gf_metadata gguf) ''general.architecture'' = Some (Str arch)"
    and arr: "hm_get (gf_metadata gguf) (arch_key arch ''attention.head_count_kv'') = Some (Array (map Int32 (h # hs)))"
    and others: "hm_get (gf_metadata gguf) (arch_key arch (arch_key arch ''attention.head_count_kv'')) = None"
      "hm_get (gf_metadata gguf) ''attention.head_count_kv'' = None"
  shows "mm_num_kv_heads (from_gguf ord gguf) \<in> set (h # hs) \<and>
    (\<forall>x \<in> set (h # hs). x \<le> mm_num_kv_heads (from_gguf ord gguf))"
proof -
  have s: "get_string gguf ''general.architecture'' = Some arch" by (simp add: get_string_def arch)
  have l: "lookup2 gguf arch ''attention.head_count_kv'' = None"
    by (simp add: lookup2_def get_u32_def arr others s)
  have c: "collect_options (map (as_u32 \<circ> Int32) xs) = Some xs" for xs
    by (induction xs) auto
  have a: "get_u32_array gguf ''attention.head_count_kv'' = Some (h # hs)"
    using c [of "h # hs"] by (simp add: get_u32_array_def arr others s)
  obtain m where m: "max_by_key (\<lambda>x. x) (h # hs) = Some m"
    by (cases "max_by_key (\<lambda>x. x) (h # hs)") auto
  then have "mm_num_kv_heads (from_gguf ord gguf) = m"
    by (simp add: from_gguf_def s l a Let_def)
  with max_by_key_Some [OF m] show ?thesis by simp
qed

theorem kv_heads_per_layer_max_witness:
  "8 \<le> mm_num_kv_heads (from_gguf rev \<lparr>gf_version = 3, gf_metadata =
       [(''general.architecture'', Str ''x''),
        (''x.attention.head_count_kv'', Array (map Int32 (2 # [8, 4])))],
     gf_tensors = [], gf_data_offset = 0\<rparr>)"
proof -
  let ?g = "\<lparr>gf_version = 3, gf_metadata =
       [(''general.architecture'', Str ''x''),
        (''x.attention.head_count_kv'', Array (map Int32 (2 # [8, 4])))],
     gf_tensors = [], gf_data_offset = 0\<rparr>"
  have "mm_num_kv_heads (from_gguf rev ?g) \<in> set (2 # [8, 4]) \<and>
      (\<forall>x \<in> set (2 # [8, 4]). x \<le> mm_num_kv_heads (from_gguf rev ?g))"
    by (rule kv_heads_per_layer_max [where arch = "''x''"]) (simp_all add: arch_key_def)
  then show ?thesis by simp
qed

end
