(* ===== verification/Sched_Types.thy ===== *)
theory Sched_Types
  imports Metadata
begin

text \<open>
  Model of \<open>src/profiler/types.rs\<close> and \<open>src/scheduler/types.rs\<close>: the hardware profile, the
  vocabulary of placement plans, and the memory budget of a unified-memory machine.  The
  timestamp of a profile is kept as its text.
\<close>

section \<open>Hardware profile\<close>

record system_info =
  si_os :: string
  si_arch :: string
  si_machine_model :: string
  si_total_cores :: u32

record memory_profile =
  mp_total_bytes :: u64
  mp_available_bytes :: u64
  mp_bandwidth_bytes_per_sec :: u64
  mp_is_unified :: bool

datatype gpu_backend = Metal | Cuda | Rocm | NoBackend

record gpu_profile =
  gp_name :: string
  gp_vram_bytes :: u64
  gp_bandwidth_bytes_per_sec :: u64
  gp_fp16_tflops :: f64
  gp_backend :: gpu_backend

record bandwidth_curve =
  bc_points :: "(u64 \<times> u64) list"
  bc_peak_sequential :: u64

datatype storage_type = NvmePcie | Sata | UnknownStorage

record storage_profile =
  sp_device_path :: string
  sp_mount_point :: string
  sp_device_type :: storage_type
  sp_capacity_bytes :: u64
  sp_free_bytes :: u64
  sp_sequential_read :: bandwidth_curve
  sp_random_read_iops :: u64
  sp_pcie_gen :: "u8 option"
  sp_wear_level :: "f64 option"

record cpu_profile =
  cp_model_name :: string
  cp_cores_performance :: u32
  cp_cores_efficiency :: u32
  cp_has_amx :: bool
  cp_has_neon :: bool
  cp_has_avx512 :: bool
  cp_has_avx2 :: bool
  cp_int8_gflops :: f64

record hardware_profile =
  hw_timestamp :: string
  hw_system :: system_info
  hw_memory :: memory_profile
  hw_gpu :: "gpu_profile option"
  hw_storage :: "storage_profile list"
  hw_cpu :: cpu_profile

text \<open>\<open>slice::first\<close>.\<close>

fun first :: "'a list \<Rightarrow> 'a option" where
  "first [] = None"
| "first (x # _) = Some x"

section \<open>Plans\<close>

datatype storage_tier = Gpu | Ram | Nvme

datatype experience_tier = Fast | Usable | Slow

definition from_tok_per_sec :: "f64 \<Rightarrow> experience_tier" where
  "from_tok_per_sec tps =
     (if f_lt (Fin 10) tps then Fast else if f_lt (Fin 2) tps then Usable else Slow)"

fun tier_label :: "experience_tier \<Rightarrow> string" where
  "tier_label Fast = ''FAST''"
| "tier_label Usable = ''USABLE''"
| "tier_label Slow = ''SLOW''"

fun tier_description :: "experience_tier \<Rightarrow> string" where
  "tier_description Fast = ''suitable for real-time chat''"
| "tier_description Usable = ''suitable for coding, Q&A. Not real-time chat.''"
| "tier_description Slow = ''background tasks only''"

datatype inference_mode =
  FullResident | KeepResident | ExpertStreaming | DenseFfnStreaming | SparseMoeMmap | FullStreaming

record prefetch_op =
  po_tensor_name :: string
  po_source_tier :: storage_tier
  po_target_tier :: storage_tier
  po_size_bytes :: u64
  po_lead_time_layers :: u32

record prefetch_schedule =
  ps_layer_prefetches :: "prefetch_op list list"

datatype kv_quantization = KvF16 | KvQ8_0 | KvQ4_0

fun memory_scale :: "kv_quantization \<Rightarrow> f64" where
  "memory_scale KvF16 = Fin 1"
| "memory_scale KvQ8_0 = rnd (53 / 100)"
| "memory_scale KvQ4_0 = rnd (28 / 100)"

record kv_cache_plan =
  kp_hot_window_tokens :: u32
  kp_warm_window_tokens :: u32
  kp_hot_tier :: storage_tier
  kp_warm_tier :: storage_tier
  kp_hot_bytes :: u64
  kp_warm_bytes :: u64
  kp_kv_quantization :: "kv_quantization option"

type_synonym tier_map = "(string, storage_tier) hmap"

record placement_plan =
  pp_model_id :: string
  pp_hardware_profile_hash :: string
  pp_tier_assignments :: tier_map
  pp_prefetch_schedule :: prefetch_schedule
  pp_estimated_tok_per_sec :: f64
  pp_estimated_time_to_first_token :: f64
  pp_kv_cache_plan :: kv_cache_plan
  pp_experience_tier :: experience_tier
  pp_inference_mode :: inference_mode

record placement_summary =
  sm_layers_on_gpu :: u32
  sm_layers_in_ram :: u32
  sm_layers_on_nvme :: u32
  sm_total_gpu_bytes :: u64
  sm_total_ram_bytes :: u64
  sm_total_nvme_bytes :: u64

section \<open>Memory budget\<close>

record memory_budget =
  mb_total_ram :: u64
  mb_gpu_committed :: u64
  mb_kv_cache_bytes :: u64
  mb_metal_overhead :: u64
  mb_os_overhead :: u64
  mb_pool_bytes :: u64
  mb_resident_bytes :: u64
  mb_total_committed :: u64
  mb_available :: u64

definition METAL_COMPUTE_OVERHEAD :: u64 where "METAL_COMPUTE_OVERHEAD = 512 * 2 ^ 20"
definition OS_RESERVED :: u64 where "OS_RESERVED = 3 * 2 ^ 30"

definition mb_compute ::
  "u64 \<Rightarrow> u64 \<Rightarrow> bool \<Rightarrow> u32 \<Rightarrow> u32 \<Rightarrow> u64 \<Rightarrow> u32 \<Rightarrow> kv_quantization option \<Rightarrow> memory_budget" where
  "mb_compute total_ram gpu_tensor_bytes use_mmap num_layers num_kv_heads head_dim context_length kv_quant =
     (let gpu_committed = (if use_mmap then gpu_tensor_bytes * 60 div 100 else gpu_tensor_bytes);
          kv_raw = 2 * ucast num_layers * ucast num_kv_heads * head_dim * 2 * ucast context_length;
          kv_cache_bytes = (case kv_quant of
              Some q \<Rightarrow> f_to_word (f_mul (f_of_word kv_raw) (memory_scale q))
            | None \<Rightarrow> kv_raw);
          total_committed = gpu_committed + kv_cache_bytes + METAL_COMPUTE_OVERHEAD + OS_RESERVED;
          available = saturating_sub total_ram total_committed
      in \<lparr>mb_total_ram = total_ram, mb_gpu_committed = gpu_committed, mb_kv_cache_bytes = kv_cache_bytes,
          mb_metal_overhead = METAL_COMPUTE_OVERHEAD, mb_os_overhead = OS_RESERVED,
          mb_pool_bytes = 0, mb_resident_bytes = 0,
          mb_total_committed = total_committed, mb_available = available\<rparr>)"

definition with_pool :: "u64 \<Rightarrow> memory_budget \<Rightarrow> memory_budget" where
  "with_pool pool_bytes b =
     (let total = mb_total_committed b + pool_bytes
      in b\<lparr>mb_pool_bytes := pool_bytes, mb_total_committed := total,
           mb_available := saturating_sub (mb_total_ram b) total\<rparr>)"

definition with_resident :: "u64 \<Rightarrow> memory_budget \<Rightarrow> memory_budget" where
  "with_resident resident_bytes b =
     (let total = mb_total_committed b + resident_bytes
      in b\<lparr>mb_resident_bytes := resident_bytes, mb_total_committed := total,
           mb_available := saturating_sub (mb_total_ram b) total\<rparr>)"

text \<open>A function that may panic.  \<open>clamp\<close> panics when its bounds are out of order.\<close>

definition clamp :: "'a::linorder \<Rightarrow> 'a \<Rightarrow> 'a \<Rightarrow> 'a outcome" where
  "clamp x lo hi = (if hi < lo then Panic else Ret (if x < lo then lo else if hi < x then hi else x))"

definition pool_slots :: "memory_budget \<Rightarrow> u64 \<Rightarrow> usize \<Rightarrow> usize \<Rightarrow> usize outcome" where
  "pool_slots b slot_size min_slots max_slots =
     (if slot_size = 0 then Ret min_slots
      else clamp (mb_available b div slot_size) min_slots max_slots)"

text \<open>The total is the sum of its parts, and what is available is what remains of the RAM.\<close>

definition mb_balanced :: "memory_budget \<Rightarrow> bool" where
  "mb_balanced b \<longleftrightarrow>
     mb_total_committed b = mb_gpu_committed b + mb_kv_cache_bytes b + mb_metal_overhead b +
       mb_os_overhead b + mb_pool_bytes b + mb_resident_bytes b \<and>
     mb_available b = saturating_sub (mb_total_ram b) (mb_total_committed b)"

lemma mb_balanced_compute: "mb_balanced (mb_compute ram gpu mmap nl nkv hdim ctx q)"
  by (simp add: mb_balanced_def mb_compute_def Let_def)

lemma mb_balanced_with:
  "mb_balanced b \<Longrightarrow> mb_pool_bytes b = 0 \<Longrightarrow> mb_balanced (with_pool p b)"
  "mb_balanced b \<Longrightarrow> mb_resident_bytes b = 0 \<Longrightarrow> mb_balanced (with_resident r b)"
  by (simp_all add: mb_balanced_def with_pool_def with_resident_def Let_def)

text \<open>The dynamic pool fits the machine: for a budget that adds up, the slot count lies
  between its bounds, and unless the lower bound forces it the pool of that many slots takes
  no more than the available memory; entering it leaves a budget that still adds up and does
  not commit more than the RAM.\<close>

theorem pool_slots_fit:
  assumes bounds: "min_slots \<le> max_slots" and b: "mb_balanced b" "mb_pool_bytes b = 0" and avail: "0 < mb_available b"
  shows "\<exists>n. pool_slots b slot_size min_slots max_slots = Ret n \<and> min_slots \<le> n \<and> n \<le> max_slots \<and>
    (n = min_slots \<or>
       unat n * unat slot_size \<le> unat (mb_available b) \<and>
       mb_balanced (with_pool (n * slot_size) b) \<and>
       mb_total_committed (with_pool (n * slot_size) b) \<le> mb_total_ram b)"
proof -
  let ?q = "mb_available b div slot_size"
  have q: "unat ?q * unat slot_size \<le> unat (mb_available b)"
    by (simp only: unat_div div_times_less_eq_dividend)
  have fit: "unat n * unat slot_size \<le> unat (mb_available b)" if "n \<le> ?q" for n
  proof -
    have "unat n * unat slot_size \<le> unat ?q * unat slot_size"
      using that by (simp only: word_le_nat_alt mult_le_mono1)
    with q show ?thesis by (rule le_trans [rotated])
  qed
  have total: "mb_total_committed (with_pool (n * slot_size) b) \<le> mb_total_ram b"
    if "unat n * unat slot_size \<le> unat (mb_available b)" for n
  proof -
    have "unat (mb_available b) = unat (mb_total_ram b) - unat (mb_total_committed b)"
      using b by (simp add: mb_balanced_def unat_saturating_sub)
    moreover have "0 < unat (mb_available b)" using avail by (simp add: word_less_nat_alt)
    moreover have prod: "unat (n * slot_size) = unat n * unat slot_size"
      using that unsigned_less [of "mb_available b", where ?'a = nat]
      by (intro unat_mult_no_wrap) simp
    ultimately have le: "unat (mb_total_committed b) + unat (n * slot_size) \<le> unat (mb_total_ram b)"
      using that by linarith
    then have "unat (mb_total_committed b + n * slot_size) = unat (mb_total_committed b) + unat (n * slot_size)"
      using unsigned_less [of "mb_total_ram b", where ?'a = nat] by (intro unat_plus_no_wrap) simp
    with le show ?thesis by (simp add: with_pool_def Let_def word_le_nat_alt)
  qed
  show ?thesis
    using bounds b by (auto simp: pool_slots_def clamp_def not_less fit total mb_balanced_with)
qed

theorem pool_slots_fit_witness:
  "\<exists>n. pool_slots (mb_compute (32 * 2 ^ 30) 0 False 32 8 128 4096 None) (2 ^ 26) 6 64 = Ret n \<and> n \<le> 64"
proof -
  let ?b = "mb_compute (32 * 2 ^ 30) 0 False 32 8 128 4096 None"
  have "mb_balanced ?b" by (rule mb_balanced_compute)
  moreover have "mb_pool_bytes ?b = 0" "0 < mb_available ?b"
    by (simp_all add: mb_compute_def saturating_sub_def METAL_COMPUTE_OVERHEAD_def OS_RESERVED_def)
  ultimately show ?thesis using pool_slots_fit [of 6 64 ?b "2 ^ 26"] by auto
qed

text \<open>A faster model is never classified worse.\<close>

definition tier_rank :: "experience_tier \<Rightarrow> nat" where
  "tier_rank t = (case t of Slow \<Rightarrow> 0 | Usable \<Rightarrow> 1 | Fast \<Rightarrow> 2)"

lemma experience_tier_mono:
  "f_le a b \<Longrightarrow> tier_rank (from_tok_per_sec a) \<le> tier_rank (from_tok_per_sec b)"
  by (cases a; cases b) (auto simp: from_tok_per_sec_def tier_rank_def)

end
