(* ===== verification/Placement.thy ===== *)
theory Placement
  imports Sched_Types
begin

text \<open>
  Model of the first half of \<open>src/scheduler/placement.rs\<close>: the tier capacities of a machine,
  the scores of the tensors, the three placements that stream part of a model from NVMe,
  and the key/value cache plan.  The shared law of the streaming placements is the locale
  \<open>tier_split\<close> near the end.
\<close>

definition OS_OVERHEAD :: u64 where "OS_OVERHEAD = 2 * 2 ^ 30"
definition GPU_RUNTIME_OVERHEAD :: u64 where "GPU_RUNTIME_OVERHEAD = 2 ^ 30"
definition SYNC_OVERHEAD_PER_LAYER_US :: f64 where "SYNC_OVERHEAD_PER_LAYER_US = Fin 50"
definition MOE_CACHE_HIT_RATE :: f64 where "MOE_CACHE_HIT_RATE = rnd (965 / 1000)"

definition sync_secs :: f64 where
  "sync_secs = f_mul SYNC_OVERHEAD_PER_LAYER_US (rnd (1 / 1000000))"

section \<open>Capacities\<close>

record tier_capacities =
  tc_gpu_bytes :: u64
  tc_ram_bytes :: u64
  tc_unified_limit :: u64
  tc_nvme_peak_bw :: u64

definition estimate_kv_bytes :: "model_metadata \<Rightarrow> u32 \<Rightarrow> u64" where
  "estimate_kv_bytes md context_length =
     (if mm_num_heads md = 0 \<or> mm_embedding_dim md = 0 then 0
      else let head_dim = ucast (mm_embedding_dim md) div ucast (mm_num_heads md)
           in 2 * ucast (mm_num_layers md) * ucast (mm_num_kv_heads md) * head_dim * 2 * ucast context_length)"

definition compute_tier_capacities :: "hardware_profile \<Rightarrow> model_metadata \<Rightarrow> u32 \<Rightarrow> tier_capacities" where
  "compute_tier_capacities hw md context_length =
     (let total_ram = mp_total_bytes (hw_memory hw);
          usable = saturating_sub total_ram OS_OVERHEAD;
          gpu_max = (case hw_gpu hw of None \<Rightarrow> 0 | Some g \<Rightarrow> gp_vram_bytes g);
          kv_headroom = estimate_kv_bytes md context_length;
          gpu_bytes = saturating_sub (saturating_sub (min gpu_max usable) kv_headroom) GPU_RUNTIME_OVERHEAD;
          ram_bytes = saturating_sub (saturating_sub usable gpu_bytes) kv_headroom;
          unified_limit = saturating_sub usable kv_headroom;
          nvme_peak_bw = unwrap_or (map_option (\<lambda>s. bc_peak_sequential (sp_sequential_read s)) (first (hw_storage hw)))
                           3000000000
      in \<lparr>tc_gpu_bytes = gpu_bytes, tc_ram_bytes = ram_bytes, tc_unified_limit = unified_limit,
          tc_nvme_peak_bw = nvme_peak_bw\<rparr>)"

section \<open>Scores\<close>

record scored_tensor =
  st_name :: string
  st_size_bytes :: u64
  st_score :: f64
  st_access_freq :: f64
  st_layer_index :: "u32 option"
  st_role :: tensor_role

definition effective_io_freq :: "tensor_role \<Rightarrow> f64 \<Rightarrow> bool \<Rightarrow> f64" where
  "effective_io_freq role base_freq moe =
     (if moe then
        (if is_expert_role role then f_mul base_freq (f_sub (Fin 1) MOE_CACHE_HIT_RATE) else base_freq)
      else base_freq)"

fun score_bonus :: "tensor_role \<Rightarrow> f64" where
  "score_bonus Norm = Fin 10"
| "score_bonus Embedding = Fin 5"
| "score_bonus OutputHead = Fin 5"
| "score_bonus _ = Fin 1"

definition score_tensor :: "u32 \<Rightarrow> u32 \<Rightarrow> tensor_info \<Rightarrow> scored_tensor" where
  "score_tensor experts_per_token total_experts t =
     (let role = role_from_name (ti_name t);
          access_freq = access_frequency role experts_per_token total_experts;
          size_gb = f_div (f_of_word (ti_size_bytes t)) (f_of_word (2 ^ 30 :: u64));
          score = f_div (f_mul access_freq (score_bonus role)) (f_add (Fin 1) size_gb)
      in \<lparr>st_name = ti_name t, st_size_bytes = ti_size_bytes t, st_score = score,
          st_access_freq = access_freq, st_layer_index = ti_layer_index t, st_role = role\<rparr>)"

definition score_tensors :: "tensor_info list \<Rightarrow> model_metadata \<Rightarrow> scored_tensor list" where
  "score_tensors tensors md =
     map (score_tensor (unwrap_or (mm_num_experts_used md) 1) (unwrap_or (mm_num_experts md) 1)) tensors"

text \<open>
  \<open>sort_by(|a, b| b.score.partial_cmp(&a.score).unwrap())\<close>: highest score first, and a
  panic when a comparison meets a NaN.  A sort of two or more elements compares each of
  them at least once.
\<close>

definition sort_by_score :: "scored_tensor list \<Rightarrow> scored_tensor list outcome" where
  "sort_by_score ts =
     (if 2 \<le> length ts \<and> list_ex (\<lambda>t. st_score t = NaN) ts then Panic
      else Ret (sort_by (\<lambda>a b. f_le (st_score b) (st_score a)) ts))"

definition total_size :: "scored_tensor list \<Rightarrow> u64" where
  "total_size ts = sum_list (map st_size_bytes ts)"

section \<open>Streaming placements\<close>

text \<open>The loop that fills the GPU in score order and sends the rest to RAM; it returns the
  GPU bytes that are left.\<close>

fun fill_gpu :: "scored_tensor list \<Rightarrow> u64 \<Rightarrow> tier_map \<Rightarrow> u64 \<times> tier_map" where
  "fill_gpu [] gpu_remaining m = (gpu_remaining, m)"
| "fill_gpu (t # ts) gpu_remaining m =
     (if st_size_bytes t \<le> gpu_remaining
      then fill_gpu ts (gpu_remaining - st_size_bytes t) (hm_insert (st_name t) Gpu m)
      else fill_gpu ts gpu_remaining (hm_insert (st_name t) Ram m))"

definition insert_all :: "storage_tier \<Rightarrow> scored_tensor list \<Rightarrow> tier_map \<Rightarrow> tier_map" where
  "insert_all tier ts m = foldl (\<lambda>m t. hm_insert (st_name t) tier m) m ts"

text \<open>The tensors that are streamed go to NVMe, the others are kept.\<close>

definition split_assign :: "(tensor_role \<Rightarrow> bool) \<Rightarrow> scored_tensor list \<Rightarrow> u64 \<Rightarrow> tier_map outcome" where
  "split_assign streamed tensors gpu_bytes =
     omap (\<lambda>kept. insert_all Nvme (filter (\<lambda>t. streamed (st_role t)) tensors) (snd (fill_gpu kept gpu_bytes [])))
       (sort_by_score (filter (\<lambda>t. \<not> streamed (st_role t)) tensors))"

definition try_sparse_moe_mmap :: "scored_tensor list \<Rightarrow> tier_capacities \<Rightarrow> model_metadata \<Rightarrow> tier_map option" where
  "try_sparse_moe_mmap tensors caps md =
     (if \<not> mm_is_moe md then None
      else let experts_total = ucast (max (unwrap_or (mm_num_experts md) 1) 1) :: u64;
               experts_used = ucast (max (unwrap_or (mm_num_experts_used md) 1) 1) :: u64;
               activation_ratio = f_div (f_of_word experts_used) (f_of_word experts_total)
           in if f_le (rnd (15 / 100)) activation_ratio then None
              else let total_bytes = total_size tensors;
                       active_bytes = f_to_word (f_mul (f_of_word total_bytes) activation_ratio) :: u64
                   in if tc_unified_limit caps * 30 div 100 < active_bytes then None
                      else Some (insert_all Gpu tensors []))"

abbreviation is_fused :: "tensor_role \<Rightarrow> bool" where
  "is_fused role \<equiv> role = MoeFusedExperts"

definition try_expert_streaming_assign ::
  "scored_tensor list \<Rightarrow> tier_capacities \<Rightarrow> model_metadata \<Rightarrow> tier_map option outcome" where
  "try_expert_streaming_assign tensors caps md =
     (if \<not> mm_is_moe md then Ret None
      else let non_expert_bytes = total_size (filter (\<lambda>t. \<not> is_fused (st_role t)) tensors);
               expert_bytes = total_size (filter (\<lambda>t. is_fused (st_role t)) tensors);
               total = non_expert_bytes + expert_bytes;
               estimated_pool = 3 * 2 ^ 30 div 2
           in if tc_unified_limit caps < non_expert_bytes \<or> total \<le> tc_unified_limit caps then Ret None
              else if tc_gpu_bytes caps + GPU_RUNTIME_OVERHEAD < non_expert_bytes + estimated_pool then Ret None
              else omap Some (split_assign is_fused tensors (tc_gpu_bytes caps)))"

definition try_dense_ffn_streaming_assign ::
  "scored_tensor list \<Rightarrow> tier_capacities \<Rightarrow> model_metadata \<Rightarrow> tier_map option outcome" where
  "try_dense_ffn_streaming_assign tensors caps md =
     (if mm_is_moe md then Ret None
      else let non_ffn_bytes = total_size (filter (\<lambda>t. \<not> is_ffn (st_role t)) tensors);
               ffn_bytes = total_size (filter (\<lambda>t. is_ffn (st_role t)) tensors);
               total = non_ffn_bytes + ffn_bytes
           in if tc_unified_limit caps < non_ffn_bytes \<or> total \<le> tc_unified_limit caps then Ret None
              else if ffn_bytes = 0 then Ret None
              else let max_ffn_tensor = unwrap_or (max_by_key (\<lambda>x. x)
                         (map st_size_bytes (filter (\<lambda>t. is_ffn (st_role t)) tensors))) 0;
                       estimated_pool = max_ffn_tensor * 6
                   in if tc_gpu_bytes caps + GPU_RUNTIME_OVERHEAD < non_ffn_bytes + estimated_pool then Ret None
                      else omap Some (split_assign is_ffn tensors (tc_gpu_bytes caps)))"

section \<open>Key/value cache plan\<close>

definition compute_kv_cache_plan :: "model_metadata \<Rightarrow> u32 \<Rightarrow> tier_map \<Rightarrow> tier_capacities \<Rightarrow> kv_cache_plan" where
  "compute_kv_cache_plan md context_length assignments caps =
     (let kv_per_token_fp16 = estimate_kv_bytes md 1
      in if kv_per_token_fp16 = 0 then
           \<lparr>kp_hot_window_tokens = context_length, kp_warm_window_tokens = 0, kp_hot_tier = Gpu,
            kp_warm_tier = Ram, kp_hot_bytes = 0, kp_warm_bytes = 0, kp_kv_quantization = None\<rparr>
         else
           let total_fp16_kv = kv_per_token_fp16 * ucast context_length;
               kv_quantization =
                 (if 0 < tc_gpu_bytes caps \<and> tc_gpu_bytes caps * 2 div 5 < total_fp16_kv \<and>
                     total_fp16_kv div 2 \<le> tc_gpu_bytes caps div 4
                  then Some KvQ8_0 else None);
               kv_per_token = (if kv_quantization \<noteq> None then kv_per_token_fp16 div 2 else kv_per_token_fp16);
               gpu_kv_budget = tc_gpu_bytes caps div 5;
               hot_tokens = ucast (min (gpu_kv_budget div kv_per_token) (ucast context_length)) :: u32;
               warm_tokens = saturating_sub context_length hot_tokens;
               kv_per_token_q8 = kv_per_token_fp16 div 2
           in \<lparr>kp_hot_window_tokens = hot_tokens, kp_warm_window_tokens = warm_tokens, kp_hot_tier = Gpu,
               kp_warm_tier = Ram, kp_hot_bytes = ucast hot_tokens * kv_per_token,
               kp_warm_bytes = ucast warm_tokens * kv_per_token_q8,
               kp_kv_quantization = kv_quantization\<rparr>)"

section \<open>Capacities: properties\<close>

text \<open>The tiers partition the usable memory exactly: GPU bytes plus RAM bytes are the
  unified limit, without overflow, and limit plus key/value headroom plus the system reserve
  fit in the RAM of the machine whenever the limit is not zero; the GPU share leaves room for
  the headroom and the GPU runtime within the GPU's own memory.\<close>

theorem capacities_partition:
  "let caps = compute_tier_capacities hw md ctx; kv = estimate_kv_bytes md ctx;
       ram = mp_total_bytes (hw_memory hw)
   in unat (tc_gpu_bytes caps) + unat (tc_ram_bytes caps) = unat (tc_unified_limit caps) \<and>
      (tc_unified_limit caps = 0 \<or>
       unat (tc_unified_limit caps) + unat kv + unat OS_OVERHEAD = unat ram) \<and>
      (tc_gpu_bytes caps = 0 \<or>
       (\<exists>g. hw_gpu hw = Some g \<and>
         unat (tc_gpu_bytes caps) + unat kv + unat GPU_RUNTIME_OVERHEAD \<le> unat (gp_vram_bytes g)))"
  by (cases "hw_gpu hw")
    (auto simp: compute_tier_capacities_def Let_def word_nat unat_eq_zero [symmetric])


section \<open>Placements of tensors\<close>

definition bytes :: "scored_tensor list \<Rightarrow> nat" where
  "bytes ts = sum_list (map (\<lambda>t. unat (st_size_bytes t)) ts)"

definition names :: "scored_tensor list \<Rightarrow> string list" where
  "names ts = map st_name ts"

definition placed :: "tier_map \<Rightarrow> storage_tier \<Rightarrow> scored_tensor list \<Rightarrow> nat" where
  "placed m tier ts = bytes (filter (\<lambda>t. hm_get m (st_name t) = Some tier) ts)"

lemma bytes_simps [simp]:
  "bytes [] = 0" "bytes (t # ts) = unat (st_size_bytes t) + bytes ts" "bytes (xs @ ys) = bytes xs + bytes ys"
  by (simp_all add: bytes_def)

lemma names_simps [simp]:
  "names [] = []" "names (t # ts) = st_name t # names ts" "names (xs @ ys) = names xs @ names ys"
  by (simp_all add: names_def)

lemma names_in: "t \<in> set ts \<Longrightarrow> st_name t \<in> set (names ts)"
  by (simp add: names_def)

lemma placed_simps [simp]:
  "placed m tier [] = 0"
  "placed m tier (t # ts) = (if hm_get m (st_name t) = Some tier then unat (st_size_bytes t) else 0) + placed m tier ts"
  "placed m tier (xs @ ys) = placed m tier xs + placed m tier ys"
  by (simp_all add: placed_def)

lemma bytes_mset: "mset xs = mset ys \<Longrightarrow> bytes xs = bytes ys"
  by (metis bytes_def mset_map sum_mset_sum_list)

lemma placed_mset: "mset xs = mset ys \<Longrightarrow> placed m tier xs = placed m tier ys"
  unfolding placed_def by (rule bytes_mset) (simp add: mset_filter)

lemma bytes_filter_le: "bytes (filter P ts) \<le> bytes ts"
  by (induction ts) auto

lemma bytes_filter_partition: "bytes (filter P ts) + bytes (filter (\<lambda>t. \<not> P t) ts) = bytes ts"
  by (induction ts) auto

lemma placed_filter_partition: "placed m tier (filter P ts) + placed m tier (filter (\<lambda>t. \<not> P t) ts) = placed m tier ts"
  by (induction ts) auto

lemma placed_le: "placed m tier ts \<le> bytes ts"
  by (simp add: placed_def bytes_filter_le)

lemma placed_cong:
  "(\<And>t. t \<in> set ts \<Longrightarrow> hm_get m (st_name t) = hm_get m' (st_name t)) \<Longrightarrow> placed m tier ts = placed m' tier ts"
  by (simp add: placed_def cong: filter_cong)

lemma placed_none:
  "(\<And>t. t \<in> set ts \<Longrightarrow> hm_get m (st_name t) \<noteq> Some tier) \<Longrightarrow> placed m tier ts = 0"
  by (induction ts) auto

lemma placed_two:
  assumes "tier \<noteq> tier'" "\<And>t. t \<in> set ts \<Longrightarrow> hm_get m (st_name t) \<in> {Some tier, Some tier'}"
  shows "placed m tier ts + placed m tier' ts = bytes ts"
  using assms by (induction ts) auto

lemma total_size_bytes: "bytes ts < 2 ^ 64 \<Longrightarrow> unat (total_size ts) = bytes ts"
  using unat_sum_list_no_wrap [of "map st_size_bytes ts"]
  by (simp add: total_size_def bytes_def comp_def)

lemma distinct_names_filter: "distinct (names ts) \<Longrightarrow> distinct (names (filter P ts))"
  by (simp add: names_def distinct_map_filter)

lemma sort_by_score_mset: "sort_by_score ts = Ret ts' \<Longrightarrow> mset ts' = mset ts"
  by (auto simp: sort_by_score_def split: if_splits)

lemma names_mset: "mset xs = mset ys \<Longrightarrow> mset (names xs) = mset (names ys)"
  by (simp add: names_def)

lemma insert_all_get:
  "hm_get (insert_all tier ts m) k = (if k \<in> set (names ts) then Some tier else hm_get m k)"
  by (induction ts arbitrary: m) (auto simp: insert_all_def)

lemma fill_gpu_other: "k \<notin> set (names ts) \<Longrightarrow> hm_get (snd (fill_gpu ts r m)) k = hm_get m k"
  by (induction ts r m rule: fill_gpu.induct) auto

lemma fill_gpu_names:
  "k \<in> set (names ts) \<Longrightarrow>
   hm_get (snd (fill_gpu ts r m)) k = Some Gpu \<or> hm_get (snd (fill_gpu ts r m)) k = Some Ram"
proof (induction ts r m rule: fill_gpu.induct)
  case (2 u us r m)
  show ?case
  proof (cases "k \<in> set (names us)")
    case True
    with 2 show ?thesis by simp
  next
    case False
    with 2 show ?thesis by (auto simp: fill_gpu_other)
  qed
qed simp

lemma fill_gpu_tiers:
  "t \<in> set ts \<Longrightarrow> hm_get (snd (fill_gpu ts r m)) (st_name t) \<in> {Some Gpu, Some Ram}"
  using fill_gpu_names [OF names_in] by auto

lemma fill_gpu_budget:
  "distinct (names ts) \<Longrightarrow>
   unat (fst (fill_gpu ts r m)) + placed (snd (fill_gpu ts r m)) Gpu ts = unat r"
proof (induction ts r m rule: fill_gpu.induct)
  case (2 t ts r m)
  then show ?case
    by (auto simp: fill_gpu_other unat_minus_no_wrap word_le_nat_alt)
qed simp

text \<open>
  The contract the streaming placements share: when they answer at all, the kept tensors fit
  the unified limit and the assignment is the split.  What follows for the tensors is proved
  once.
\<close>

locale streaming_placement =
  fixes attempt :: "scored_tensor list \<Rightarrow> tier_capacities \<Rightarrow> model_metadata \<Rightarrow> tier_map option outcome"
    and streamed :: "tensor_role \<Rightarrow> bool"
  assumes attempt_split: "attempt ts caps md = Ret (Some m) \<Longrightarrow>
      total_size (filter (\<lambda>t. \<not> streamed (st_role t)) ts) \<le> tc_unified_limit caps \<and>
      split_assign streamed ts (tc_gpu_bytes caps) = Ret m"
    and attempt_no_panic: "list_all (\<lambda>t. st_score t \<noteq> NaN) ts \<Longrightarrow> attempt ts caps md \<noteq> Panic"
begin

lemma split_get:
  assumes "attempt ts caps md = Ret (Some m)"
  obtains kept where "mset kept = mset (filter (\<lambda>t. \<not> streamed (st_role t)) ts)"
    "m = insert_all Nvme (filter (\<lambda>t. streamed (st_role t)) ts) (snd (fill_gpu kept (tc_gpu_bytes caps) []))"
  using attempt_split [OF assms] by (auto simp: split_assign_def omap_Ret dest: sort_by_score_mset)

lemma placement:
  assumes ok: "attempt ts caps md = Ret (Some m)" and dist: "distinct (names ts)" and fits: "bytes ts < 2 ^ 64"
  shows "(\<forall>t \<in> set ts. hm_get m (st_name t) \<in> (if streamed (st_role t) then {Some Nvme} else {Some Gpu, Some Ram})) \<and>
    set (hm_keys m) = set (names ts) \<and>
    placed m Gpu ts \<le> unat (tc_gpu_bytes caps) \<and>
    placed m Gpu ts + placed m Ram ts \<le> unat (tc_unified_limit caps)"
proof -
  let ?S = "filter (\<lambda>t. streamed (st_role t)) ts" and ?K = "filter (\<lambda>t. \<not> streamed (st_role t)) ts"
  obtain kept where kept: "mset kept = mset ?K"
    and m: "m = insert_all Nvme ?S (snd (fill_gpu kept (tc_gpu_bytes caps) []))"
    using ok by (rule split_get)
  have set_kept: "set kept = set ?K" by (metis kept set_mset_mset)
  then have names_kept: "set (names kept) = set (names ?K)" by (simp add: names_def)
  have disj: "st_name t \<notin> set (names ?S)" if "t \<in> set ?K" for t
  proof
    assume "st_name t \<in> set (names ?S)"
    then obtain u where u: "u \<in> set ts" "streamed (st_role u)" "st_name u = st_name t"
      by (auto simp: names_def)
    with that dist have "u = t" by (auto simp: names_def distinct_map inj_on_def)
    with u that show False by auto
  qed
  have get_kept: "hm_get m (st_name t) \<in> {Some Gpu, Some Ram}" if "t \<in> set ?K" for t
    using that disj [OF that] fill_gpu_tiers [of t kept] set_kept
    by (simp add: m insert_all_get)
  have get_streamed: "hm_get m (st_name t) = Some Nvme" if "t \<in> set ?S" for t
    using names_in [OF that] by (simp add: m insert_all_get)
  have dist_kept: "distinct (names kept)"
    using distinct_names_filter [OF dist] names_mset [OF kept] by (metis mset_eq_imp_distinct_iff)
  have keys: "set (hm_keys m) = set (names ts)"
  proof -
    have "hm_get m k \<noteq> None \<longleftrightarrow> k \<in> set (names ts)" for k
    proof (cases "k \<in> set (names ts)")
      case True
      then show ?thesis using get_kept get_streamed by (fastforce simp: names_def)
    next
      case False
      then have "k \<notin> set (names ?S)" "k \<notin> set (names kept)"
        unfolding names_kept by (auto simp: names_def)
      with False show ?thesis by (simp add: m insert_all_get fill_gpu_other)
    qed
    then show ?thesis by (auto simp: set_hm_keys)
  qed
  have "placed m Gpu ?K = placed m Gpu kept" by (rule placed_mset) (simp add: kept)
  also have "\<dots> = placed (snd (fill_gpu kept (tc_gpu_bytes caps) [])) Gpu kept"
    using disj set_kept by (intro placed_cong) (auto simp: m insert_all_get)
  also have "\<dots> \<le> unat (tc_gpu_bytes caps)"
    using fill_gpu_budget [OF dist_kept, of "tc_gpu_bytes caps" "[]"] by simp
  finally have gpu: "placed m Gpu ?K \<le> unat (tc_gpu_bytes caps)" .
  have none: "placed m tier ?S = 0" if "tier \<noteq> Nvme" for tier
    using that get_streamed by (intro placed_none) auto
  have parts: "placed m tier ts = placed m tier ?K" if "tier \<noteq> Nvme" for tier
    using placed_filter_partition [of m tier "\<lambda>t. streamed (st_role t)" ts] none [OF that] by simp
  have "placed m Gpu ?K + placed m Ram ?K = bytes ?K"
    using get_kept by (intro placed_two) auto
  also have "\<dots> = unat (total_size ?K)"
    using fits bytes_filter_le [of "\<lambda>t. \<not> streamed (st_role t)" ts] by (intro total_size_bytes [symmetric]) simp
  also have "\<dots> \<le> unat (tc_unified_limit caps)"
    using attempt_split [OF ok] by (simp only: word_le_nat_alt)
  finally have "placed m Gpu ts + placed m Ram ts \<le> unat (tc_unified_limit caps)"
    by (simp add: parts)
  with gpu keys get_kept get_streamed show ?thesis by (auto simp: parts)
qed

end

lemma split_no_panic:
  "list_all (\<lambda>t. st_score t \<noteq> NaN) ts \<Longrightarrow> split_assign streamed ts g \<noteq> Panic"
  by (auto simp: split_assign_def sort_by_score_def list_ex_iff list_all_iff)

interpretation expert: streaming_placement try_expert_streaming_assign is_fused
proof
  show "total_size (filter (\<lambda>t. \<not> is_fused (st_role t)) ts) \<le> tc_unified_limit caps \<and>
      split_assign is_fused ts (tc_gpu_bytes caps) = Ret m"
    if "try_expert_streaming_assign ts caps md = Ret (Some m)" for ts caps md m
    using that
    by (auto simp: try_expert_streaming_assign_def Let_def omap_Ret not_less split: if_splits)
  show "try_expert_streaming_assign ts caps md \<noteq> Panic" if "list_all (\<lambda>t. st_score t \<noteq> NaN) ts" for ts caps md
    using split_no_panic [OF that, of is_fused "tc_gpu_bytes caps"]
    by (cases "split_assign is_fused ts (tc_gpu_bytes caps)") (auto simp: try_expert_streaming_assign_def Let_def)
qed

interpretation dense: streaming_placement try_dense_ffn_streaming_assign is_ffn
proof
  show "total_size (filter (\<lambda>t. \<not> is_ffn (st_role t)) ts) \<le> tc_unified_limit caps \<and>
      split_assign is_ffn ts (tc_gpu_bytes caps) = Ret m"
    if "try_dense_ffn_streaming_assign ts caps md = Ret (Some m)" for ts caps md m
    using that
    by (auto simp: try_dense_ffn_streaming_assign_def Let_def omap_Ret not_less split: if_splits)
  show "try_dense_ffn_streaming_assign ts caps md \<noteq> Panic" if "list_all (\<lambda>t. st_score t \<noteq> NaN) ts" for ts caps md
    using split_no_panic [OF that, of is_ffn "tc_gpu_bytes caps"]
    by (cases "split_assign is_ffn ts (tc_gpu_bytes caps)") (auto simp: try_dense_ffn_streaming_assign_def Let_def)
qed


lemma f_in_div:
  assumes "f_in k x" "y = Fin r" "1 \<le> r" "- 1022 \<le> k" "k < 1024"
  shows "f_in k (f_div x y)"
proof -
  obtain a where a: "x = Fin a" "0 \<le> a" "a \<le> 2 powi k" using assms(1) by (auto simp: f_in_def)
  have "a / r \<le> a / 1" using a(2) assms(3) by (intro divide_left_mono) auto
  with a assms show ?thesis by (auto intro!: f_in_rnd)
qed

lemma f_of_word_pos: "0 < w \<Longrightarrow> LENGTH('a) \<le> 1000 \<Longrightarrow> \<exists>r. f_of_word (w :: 'a::len word) = Fin r \<and> 1 \<le> r"
proof -
  assume w: "0 < w" and len: "LENGTH('a) \<le> 1000"
  then obtain r where r: "f_of_word w = Fin r" using f_in_of_word [of w] by (auto simp: f_in_def)
  have "1 \<le> unat w" using w by (simp add: word_less_nat_alt)
  then obtain x where "f_of_nat 1 = Fin x" "x \<le> r"
    using r unfolding f_of_word_def by (rule f_of_nat_mono)
  with r show ?thesis using f_of_nat_1 by simp
qed

lemma access_frequency_finite: "f_in 32 (access_frequency role used nexp)"
proof (cases "is_expert_role role \<and> 0 < nexp")
  case True
  then obtain r where "f_of_word nexp = Fin r" "1 \<le> r" using f_of_word_pos [of nexp] by auto
  then have "f_in 32 (f_div (f_of_word used) (f_of_word nexp))"
    using f_in_of_word [of used] by (intro f_in_div) auto
  with True show ?thesis by (simp add: access_frequency_def)
qed (auto simp: access_frequency_def f_in_def)

lemma score_finite: "f_in 36 (st_score (score_tensor used nexp t))"
proof -
  let ?size = "f_of_word (ti_size_bytes t)"
  have "f_of_word (2 ^ 30 :: u64) = Fin (2 ^ 30)"
    unfolding f_of_word_def using f_of_nat_exact [of "2 ^ 30"] by simp
  then have "f_in 64 (f_div ?size (f_of_word (2 ^ 30 :: u64)))"
    using f_in_of_word [of "ti_size_bytes t"] by (intro f_in_div [where r = "2 ^ 30"]) auto
  then obtain g where g: "f_div ?size (f_of_word (2 ^ 30 :: u64)) = Fin g" "0 \<le> g" "g \<le> 2 powi 64"
    by (auto simp: f_in_def)
  have "f_in 65 (rnd (1 + g))"
  proof (rule f_in_rnd)
    have "(1 :: rat) \<le> 2 powi 64" by simp
    then have "1 + g \<le> 2 powi 64 + 2 powi 64" using g(3) by (rule add_mono)
    then show "1 + g \<le> 2 powi 65" by simp
  qed (use g in auto)
  then obtain d where d: "rnd (1 + g) = Fin d" by (auto simp: f_in_def)
  have "rnd 1 = Fin 1" using rnd_int [of 1] by simp
  then have "1 \<le> d" using rnd_mono [of 1 "1 + g" d] g(2) d by auto
  moreover have "f_in 4 (score_bonus role)" for role
    by (cases role) (auto simp: f_in_def)
  then have "f_in (32 + 4) (f_mul (access_frequency (role_from_name (ti_name t)) used nexp)
      (score_bonus (role_from_name (ti_name t))))"
    by (intro f_in_mul access_frequency_finite) auto
  ultimately show ?thesis
    using d g(1) by (auto simp: score_tensor_def Let_def intro!: f_in_div)
qed

lemma scores_finite: "list_all (\<lambda>t. st_score t \<noteq> NaN) (score_tensors ts md)"
  using score_finite by (auto simp: score_tensors_def list_all_iff dest: f_in_not_NaN)

lemma sort_by_score_sorted:
  assumes "list_all (\<lambda>t. st_score t \<noteq> NaN) ts" "sort_by_score ts = Ret ts'"
  shows "sorted_wrt (\<lambda>a b. f_le (st_score b) (st_score a)) ts'"
proof -
  let ?le = "\<lambda>a b. f_le (st_score b) (st_score a)"
  let ?le' = "\<lambda>a b. st_score a = NaN \<or> f_le (st_score b) (st_score a)"
  have ts': "ts' = sort_by ?le ts" using assms(2) by (auto simp: sort_by_score_def split: if_splits)
  have ins: "insert_by ?le x ys = insert_by ?le' x ys" if "st_score x \<noteq> NaN" for x ys
    using that by (induction ys) auto
  have "sort_by ?le xs = sort_by ?le' xs" if "list_all (\<lambda>t. st_score t \<noteq> NaN) xs" for xs
    using that by (induction xs) (auto simp: sort_by_Cons ins)
  with assms(1) have eq: "ts' = sort_by ?le' ts" by (simp add: ts')
  have "sorted_wrt ?le' ts'"
    unfolding eq
  proof (rule sorted_sort_by)
    fix a b c
    show "?le' a b \<or> ?le' b a" using f_lt_total by blast
    show "?le' a b \<Longrightarrow> ?le' b c \<Longrightarrow> ?le' a c" by (cases "st_score a"; cases "st_score b"; cases "st_score c") auto
  qed
  moreover have "st_score t \<noteq> NaN" if "t \<in> set ts'" for t
    using that assms(1) unfolding ts' by (auto simp: list_all_iff)
  ultimately show ?thesis by (auto intro: sorted_wrt_mono_rel [of ts' ?le' ?le])
qed


section \<open>Streaming placements: properties\<close>

text \<open>The sort of the tensors by score cannot panic: no tensor of any model, whatever its
  size and whatever expert counts its metadata claims, gets a score that is not a number, so
  both streaming placements always return.\<close>

theorem streaming_never_panics:
  "try_expert_streaming_assign (score_tensors ts md) caps md \<noteq> Panic \<and>
   try_dense_ffn_streaming_assign (score_tensors ts md) caps md \<noteq> Panic"
  by (intro conjI expert.attempt_no_panic dense.attempt_no_panic scores_finite)

text \<open>C23. The expert-streaming placement is safe: exactly the fused expert tensors go to NVMe,
  every other tensor is kept on the GPU or in RAM, every tensor has a tier, the GPU tensors
  fit the GPU bytes, and GPU and RAM together fit the unified limit.\<close>

theorem expert_streaming_placement:
  assumes "try_expert_streaming_assign ts caps md = Ret (Some m)" "distinct (names ts)" "bytes ts < 2 ^ 64"
  shows "(\<forall>t \<in> set ts. hm_get m (st_name t) \<in>
      (if st_role t = MoeFusedExperts then {Some Nvme} else {Some Gpu, Some Ram})) \<and>
    set (hm_keys m) = set (names ts) \<and>
    placed m Gpu ts \<le> unat (tc_gpu_bytes caps) \<and>
    placed m Gpu ts + placed m Ram ts \<le> unat (tc_unified_limit caps)"
  using expert.placement [OF assms] by simp

definition moe_md :: model_metadata where
  "moe_md = \<lparr>mm_architecture = ''llama'', mm_parameter_count = 46700000000, mm_context_length = 32768,
     mm_embedding_dim = 4096, mm_num_layers = 32, mm_num_heads = 32, mm_num_kv_heads = 8,
     mm_vocab_size = 32000, mm_quantization = Some ''Q4K'', mm_is_moe = True,
     mm_num_experts = Some 8, mm_num_experts_used = Some 2\<rparr>"

definition caps_8g :: tier_capacities where
  "caps_8g = \<lparr>tc_gpu_bytes = 8 * 2 ^ 30, tc_ram_bytes = 4 * 2 ^ 30, tc_unified_limit = 12 * 2 ^ 30,
     tc_nvme_peak_bw = 5000000000\<rparr>"

definition moe_tensors :: "scored_tensor list" where
  "moe_tensors =
     [\<lparr>st_name = ''blk.0.attn_q.weight'', st_size_bytes = 2 * 2 ^ 30, st_score = Fin 1, st_access_freq = Fin 1,
       st_layer_index = Some 0, st_role = AttentionQuery\<rparr>,
      \<lparr>st_name = ''blk.0.ffn_gate_exps.weight'', st_size_bytes = 14 * 2 ^ 30, st_score = Fin (1/4),
       st_access_freq = Fin (1/4), st_layer_index = Some 0, st_role = MoeFusedExperts\<rparr>]"

theorem expert_streaming_placement_witness:
  "hm_get [(''blk.0.attn_q.weight'', Gpu), (''blk.0.ffn_gate_exps.weight'', Nvme)] ''blk.0.ffn_gate_exps.weight'' = Some Nvme \<and>
   try_expert_streaming_assign moe_tensors caps_8g moe_md =
     Ret (Some [(''blk.0.attn_q.weight'', Gpu), (''blk.0.ffn_gate_exps.weight'', Nvme)])"
proof -
  have run: "try_expert_streaming_assign moe_tensors caps_8g moe_md =
      Ret (Some [(''blk.0.attn_q.weight'', Gpu), (''blk.0.ffn_gate_exps.weight'', Nvme)])"
    by (simp add: try_expert_streaming_assign_def moe_tensors_def caps_8g_def moe_md_def total_size_def
        GPU_RUNTIME_OVERHEAD_def split_assign_def sort_by_score_def sort_by_Cons insert_all_def)
  have "distinct (names moe_tensors)" "bytes moe_tensors < 2 ^ 64"
    by (simp_all add: moe_tensors_def)
  from expert_streaming_placement [OF run this] run show ?thesis
    by (simp add: moe_tensors_def)
qed

text \<open>C24. The dense feed-forward streaming placement is safe: exactly the three feed-forward
  tensors of each layer go to NVMe, everything else is kept within the GPU bytes and the
  unified limit, and every tensor has a tier.\<close>

theorem dense_streaming_placement:
  assumes "try_dense_ffn_streaming_assign ts caps md = Ret (Some m)" "distinct (names ts)" "bytes ts < 2 ^ 64"
  shows "(\<forall>t \<in> set ts. hm_get m (st_name t) \<in>
      (if is_ffn (st_role t) then {Some Nvme} else {Some Gpu, Some Ram})) \<and>
    set (hm_keys m) = set (names ts) \<and>
    placed m Gpu ts \<le> unat (tc_gpu_bytes caps) \<and>
    placed m Gpu ts + placed m Ram ts \<le> unat (tc_unified_limit caps)"
  using dense.placement [OF assms] .

definition dense_md :: model_metadata where
  "dense_md = moe_md\<lparr>mm_is_moe := False, mm_num_experts := None, mm_num_experts_used := None\<rparr>"

definition ffn_tensors :: "scored_tensor list" where
  "ffn_tensors =
     [\<lparr>st_name = ''q'', st_size_bytes = 2 ^ 30, st_score = Fin 1, st_access_freq = Fin 1,
       st_layer_index = Some 0, st_role = AttentionQuery\<rparr>,
      \<lparr>st_name = ''u'', st_size_bytes = 2 ^ 30, st_score = Fin (1/2), st_access_freq = Fin 1,
       st_layer_index = Some 0, st_role = FfnUp\<rparr>]"

theorem dense_streaming_placement_witness:
  "\<exists>m. try_dense_ffn_streaming_assign ffn_tensors (caps_8g\<lparr>tc_unified_limit := 3 * 2 ^ 29\<rparr>) dense_md = Ret (Some m) \<and>
     hm_get m ''u'' = Some Nvme"
proof -
  have run: "try_dense_ffn_streaming_assign ffn_tensors (caps_8g\<lparr>tc_unified_limit := 3 * 2 ^ 29\<rparr>) dense_md =
      Ret (Some [(''q'', Gpu), (''u'', Nvme)])"
    by (simp add: try_dense_ffn_streaming_assign_def ffn_tensors_def caps_8g_def dense_md_def moe_md_def total_size_def
        GPU_RUNTIME_OVERHEAD_def split_assign_def sort_by_score_def sort_by_Cons insert_all_def is_ffn_def max_by_key_def)
  have "distinct (names ffn_tensors)" "bytes ffn_tensors < 2 ^ 64"
    by (simp_all add: ffn_tensors_def)
  from dense_streaming_placement [OF run this] run show ?thesis
    by (simp add: ffn_tensors_def is_ffn_def)
qed

section \<open>Key/value cache plan: properties\<close>

lemma four_dvd_kv: "4 dvd unat (estimate_kv_bytes md ctx)"
proof -
  have four: "2 * a * b * h * 2 * c = 4 * (a * b * h * c)" for a b h c :: u64
  proof -
    have "2 * a * b * h * 2 * c = (2 * 2) * (a * b * h * c)" by (simp only: ac_simps)
    then show ?thesis by simp
  qed
  have "estimate_kv_bytes md ctx = 4 * 0 \<or> (\<exists>x. estimate_kv_bytes md ctx = 4 * x)"
    unfolding estimate_kv_bytes_def Let_def four by simp blast
  then have "\<exists>x. estimate_kv_bytes md ctx = 4 * x" by blast
  then obtain x where "estimate_kv_bytes md ctx = 4 * x" ..
  then have "unat (estimate_kv_bytes md ctx) = (4 * unat x) mod 2 ^ 64" by (simp add: unat_word_ariths)
  then show ?thesis by (simp add: dvd_mod)
qed

text \<open>The key/value plan covers the context and stays in budget: the hot and the warm window
  together are exactly the requested context, the hot window takes at most a fifth of the
  GPU bytes, and the per-token size that the plan divides by is never zero, also after it is
  halved for the quantized cache.\<close>

theorem kv_plan_covers_context:
  "let p = compute_kv_cache_plan md ctx m caps; per_token = estimate_kv_bytes md 1 in
   unat (kp_hot_window_tokens p) + unat (kp_warm_window_tokens p) = unat ctx \<and>
   unat (kp_hot_bytes p) \<le> unat (tc_gpu_bytes caps) div 5 \<and>
   (per_token = 0 \<or> 0 < per_token div 2)"
proof -
  let ?fp = "estimate_kv_bytes md 1"
  have half: "0 < ?fp div 2" if "?fp \<noteq> 0"
  proof -
    obtain k where "unat ?fp = 4 * k" using four_dvd_kv [of md 1] by (rule dvdE)
    moreover from this that have "k \<noteq> 0" using unat_eq_zero [of ?fp] by (intro notI) simp
    ultimately have "2 \<le> unat ?fp" by simp
    then have "0 < unat (?fp div 2)" by (simp add: unat_div)
    then show ?thesis by (simp add: word_less_nat_alt)
  qed
  have windows: "unat (ucast (min (b div k) (ucast ctx)) :: u32) + unat (saturating_sub ctx (ucast (min (b div k) (ucast ctx)))) = unat ctx \<and>
      unat (ucast (ucast (min (b div k) (ucast ctx)) :: u32) * k) \<le> unat b"
    for b k :: u64
  proof -
    let ?m = "min (b div k) (ucast ctx)"
    have m: "unat ?m \<le> unat ctx" "unat ?m \<le> unat (b div k)" by (simp_all add: unat_min)
    then have "unat ?m < 2 ^ 32" using unsigned_less [of ctx, where ?'a = nat] by simp
    then have c: "unat (ucast ?m :: u32) = unat ?m" by (simp add: unsigned_ucast_eq take_bit_nat_eq_self_iff)
    have "unat (ucast (ucast ?m :: u32) * k) \<le> unat (ucast (ucast ?m :: u32) :: u64) * unat k"
      by (simp add: unat_word_ariths)
    also have "\<dots> = unat ?m * unat k" by (simp add: c)
    also have "\<dots> \<le> unat (b div k) * unat k" using m(2) by (rule mult_le_mono1)
    also have "\<dots> \<le> unat b" by (simp only: unat_div div_times_less_eq_dividend)
    finally show ?thesis using m(1) by (simp add: unat_saturating_sub c)
  qed
  have five: "unat (tc_gpu_bytes caps div 5) = unat (tc_gpu_bytes caps) div 5" by (simp add: unat_div)
  show ?thesis
    using windows [of "tc_gpu_bytes caps div 5"] half unfolding five
    by (auto simp: compute_kv_cache_plan_def Let_def)
qed

end
