(* ===== verification/Greedy.thy ===== *)
theory Greedy
  imports Placement
begin

text \<open>
  Model of \<open>greedy_assign\<close> of \<open>src/scheduler/placement.rs\<close>, the placement used when the
  solver fails: non-layer tensors first, then the cutoff layer that minimises the predicted
  latency, everything from it on going to NVMe.  The results: capacity, contiguity, and
  optimality of the cutoff among those that fit.
\<close>

section \<open>Layers\<close>

text \<open>\<open>BTreeMap::entry(k).or_default().push(v)\<close>: the keys stay sorted.\<close>

fun bt_push :: "'k::linorder \<Rightarrow> 'v \<Rightarrow> ('k \<times> 'v list) list \<Rightarrow> ('k \<times> 'v list) list" where
  "bt_push k v [] = [(k, [v])]"
| "bt_push k v ((k', vs) # r) =
     (if k = k' then (k', vs @ [v]) # r
      else if k < k' then (k, [v]) # (k', vs) # r
      else (k', vs) # bt_push k v r)"

definition group_layers :: "scored_tensor list \<Rightarrow> (u32 \<times> scored_tensor list) list" where
  "group_layers ts = foldl (\<lambda>g t. case st_layer_index t of Some l \<Rightarrow> bt_push l t g | None \<Rightarrow> g) [] ts"

definition non_layer :: "scored_tensor list \<Rightarrow> scored_tensor list" where
  "non_layer ts = filter (\<lambda>t. st_layer_index t = None) ts"

fun assign_non_layer :: "scored_tensor list \<Rightarrow> u64 \<Rightarrow> u64 \<Rightarrow> tier_map \<Rightarrow> u64 \<times> u64 \<times> tier_map" where
  "assign_non_layer [] gpu_remaining unified_remaining m = (gpu_remaining, unified_remaining, m)"
| "assign_non_layer (t # ts) gpu_remaining unified_remaining m =
     (if st_size_bytes t \<le> gpu_remaining \<and> st_size_bytes t \<le> unified_remaining then
        assign_non_layer ts (gpu_remaining - st_size_bytes t) (unified_remaining - st_size_bytes t)
          (hm_insert (st_name t) Gpu m)
      else if st_size_bytes t \<le> unified_remaining then
        assign_non_layer ts gpu_remaining (unified_remaining - st_size_bytes t) (hm_insert (st_name t) Ram m)
      else assign_non_layer ts gpu_remaining unified_remaining (hm_insert (st_name t) Nvme m))"

section \<open>The cutoff\<close>

definition layers_size :: "(u32 \<times> scored_tensor list) list \<Rightarrow> u64" where
  "layers_size layers = total_size (concat (map snd layers))"

definition ram_cost :: "f64 \<Rightarrow> scored_tensor \<Rightarrow> f64" where
  "ram_cost ram_bw t = f_div (f_mul (f_of_word (st_size_bytes t)) (st_access_freq t)) ram_bw"

definition io_cost :: "f64 \<Rightarrow> bool \<Rightarrow> scored_tensor \<Rightarrow> f64" where
  "io_cost nvme_bw moe t =
     f_div (f_mul (f_of_word (st_size_bytes t)) (effective_io_freq (st_role t) (st_access_freq t) moe)) nvme_bw"

fun nvme_loop :: "f64 \<Rightarrow> bool \<Rightarrow> (u32 \<times> scored_tensor list) list \<Rightarrow> f64 \<Rightarrow> f64 \<Rightarrow> f64" where
  "nvme_loop nvme_bw moe [] nvme_cost prev_compute = nvme_cost"
| "nvme_loop nvme_bw moe ((l, ts) # layers) nvme_cost prev_compute =
     (let layer_io = f_sum (map (io_cost nvme_bw moe) ts);
          effective_io = f_max (f_sub layer_io prev_compute) (Fin 0)
      in nvme_loop nvme_bw moe layers (f_add nvme_cost (f_add effective_io sync_secs)) (Fin 0))"

definition cutoff_cost :: "f64 \<Rightarrow> f64 \<Rightarrow> bool \<Rightarrow> (u32 \<times> scored_tensor list) list \<Rightarrow> nat \<Rightarrow> f64" where
  "cutoff_cost ram_bw nvme_bw moe layers cutoff =
     (let resident_cost = f_sum (map (ram_cost ram_bw) (concat (map snd (take cutoff layers))));
          prev_compute = (if 0 < cutoff then f_sum (map (ram_cost ram_bw) (snd (layers ! (cutoff - 1)))) else Fin 0);
          nvme_cost = nvme_loop nvme_bw moe (drop cutoff layers) (Fin 0) prev_compute
      in f_add resident_cost nvme_cost)"

definition f64_MAX :: f64 where
  "f64_MAX = Fin (of_int ((2 ^ 53 - 1) * 2 ^ 971))"

text \<open>The search over \<open>0..=max_cutoff\<close>: it stops at the first cutoff whose resident layers do
  not fit, and keeps the first cutoff of least cost.\<close>

fun search_cutoff ::
  "(nat \<Rightarrow> f64) \<Rightarrow> (nat \<Rightarrow> bool) \<Rightarrow> nat list \<Rightarrow> nat \<Rightarrow> f64 \<Rightarrow> nat \<times> f64" where
  "search_cutoff cost fits [] best_cutoff best_cost = (best_cutoff, best_cost)"
| "search_cutoff cost fits (cutoff # cutoffs) best_cutoff best_cost =
     (if \<not> fits cutoff then (best_cutoff, best_cost)
      else if f_lt (cost cutoff) best_cost
        then search_cutoff cost fits cutoffs cutoff (cost cutoff)
        else search_cutoff cost fits cutoffs best_cutoff best_cost)"

definition best_cutoff ::
  "f64 \<Rightarrow> f64 \<Rightarrow> bool \<Rightarrow> (u32 \<times> scored_tensor list) list \<Rightarrow> u64 \<Rightarrow> nat" where
  "best_cutoff ram_bw nvme_bw moe layers unified_remaining =
     fst (search_cutoff (cutoff_cost ram_bw nvme_bw moe layers)
       (\<lambda>cutoff. layers_size (take cutoff layers) \<le> unified_remaining)
       [0..<length layers + 1] 0 f64_MAX)"

section \<open>Applying the cutoff\<close>

fun apply_layers :: "nat \<Rightarrow> nat \<Rightarrow> (u32 \<times> scored_tensor list) list \<Rightarrow> u64 \<Rightarrow> tier_map \<Rightarrow> tier_map outcome" where
  "apply_layers kcut i [] gpu_remaining m = Ret m"
| "apply_layers kcut i ((l, ts) # layers) gpu_remaining m =
     (if i < kcut then
        obind (sort_by_score ts) (\<lambda>sorted_layer.
          let (gpu_remaining', m') = fill_gpu sorted_layer gpu_remaining m
          in apply_layers kcut (Suc i) layers gpu_remaining' m')
      else apply_layers kcut (Suc i) layers gpu_remaining (insert_all Nvme ts m))"

definition greedy_assign ::
  "scored_tensor list \<Rightarrow> tier_capacities \<Rightarrow> hardware_profile \<Rightarrow> model_metadata \<Rightarrow> tier_map outcome" where
  "greedy_assign tensors caps hw md =
     (let ram_bw = f_of_word (mp_bandwidth_bytes_per_sec (hw_memory hw));
          nvme_bw = f_of_word (tc_nvme_peak_bw caps);
          layer_list = group_layers tensors
      in obind (sort_by_score (non_layer tensors)) (\<lambda>non_layer_tensors.
           let (gpu_remaining, unified_remaining, m) =
                 assign_non_layer non_layer_tensors (tc_gpu_bytes caps) (tc_unified_limit caps) [];
               kcut = best_cutoff ram_bw nvme_bw (mm_is_moe md) layer_list unified_remaining
           in apply_layers kcut 0 layer_list gpu_remaining m))"

section \<open>Grouping\<close>

definition group_wf :: "('k::linorder \<times> 'v list) list \<Rightarrow> bool" where
  "group_wf g \<longleftrightarrow> sorted_wrt (<) (map fst g)"

lemma bt_push_keys: "set (map fst (bt_push k v g)) = insert k (set (map fst g))"
  by (induction k v g rule: bt_push.induct) auto

lemma bt_push_wf: "group_wf g \<Longrightarrow> group_wf (bt_push k v g)"
proof (induction k v g rule: bt_push.induct)
  case (2 k v k' vs r)
  then show ?case using bt_push_keys [of k v r] by (fastforce simp: group_wf_def)
qed (simp add: group_wf_def)

lemma bt_push_mset: "mset (concat (map snd (bt_push k v g))) = add_mset v (mset (concat (map snd g)))"
  by (induction k v g rule: bt_push.induct) auto

lemma bt_push_member: "(l, us) \<in> set (bt_push k v g) \<Longrightarrow> u \<in> set us \<Longrightarrow>
    (l = k \<and> u = v) \<or> (\<exists>us'. (l, us') \<in> set g \<and> u \<in> set us')"
  by (induction k v g rule: bt_push.induct) (auto split: if_splits)

lemma group_layers_props:
  "group_wf (group_layers ts) \<and>
   mset (concat (map snd (group_layers ts))) = mset (filter (\<lambda>t. st_layer_index t \<noteq> None) ts) \<and>
   (\<forall>(l, us) \<in> set (group_layers ts). \<forall>u \<in> set us. st_layer_index u = Some l)"
proof (induction ts rule: rev_induct)
  case Nil
  then show ?case by (simp add: group_layers_def group_wf_def)
next
  case (snoc t ts)
  show ?case
  proof (cases "st_layer_index t")
    case None
    with snoc show ?thesis by (simp add: group_layers_def)
  next
    case (Some l)
    then have step: "group_layers (ts @ [t]) = bt_push l t (group_layers ts)" by (simp add: group_layers_def)
    show ?thesis
      unfolding step using snoc Some
      by (auto simp: bt_push_wf bt_push_mset dest!: bt_push_member)
  qed
qed

lemma group_layers_partition:
  "mset (non_layer ts @ concat (map snd (group_layers ts))) = mset ts"
  using group_layers_props [of ts] by (simp add: non_layer_def)


section \<open>Budgets\<close>

lemma assign_non_layer_other:
  "assign_non_layer ts g u m = (g', u', m') \<Longrightarrow> k \<notin> set (names ts) \<Longrightarrow> hm_get m' k = hm_get m k"
  by (induction ts g u m rule: assign_non_layer.induct) (auto split: if_splits)

lemma assign_non_layer_names:
  "assign_non_layer ts g u m = (g', u', m') \<Longrightarrow> k \<in> set (names ts) \<Longrightarrow> hm_get m' k \<noteq> None"
proof (induction ts g u m rule: assign_non_layer.induct)
  case (2 t ts g u m)
  show ?case
  proof (cases "k \<in> set (names ts)")
    case True
    with 2 show ?thesis by (auto split: if_splits)
  next
    case False
    with 2 show ?thesis by (auto split: if_splits dest: assign_non_layer_other)
  qed
qed simp

lemma assign_non_layer_budget:
  "assign_non_layer ts g u m = (g', u', m') \<Longrightarrow> distinct (names ts) \<Longrightarrow>
   unat g' + placed m' Gpu ts = unat g \<and> unat u' + placed m' Gpu ts + placed m' Ram ts = unat u"
proof (induction ts g u m rule: assign_non_layer.induct)
  case (2 t ts g u m)
  note get = assign_non_layer_other [where k = "st_name t"]
  consider "st_size_bytes t \<le> g \<and> st_size_bytes t \<le> u" | "\<not> (st_size_bytes t \<le> g \<and> st_size_bytes t \<le> u)" "st_size_bytes t \<le> u"
    | "\<not> st_size_bytes t \<le> u" by blast
  then show ?case
  proof cases
    case 1
    with 2 show ?thesis
      by (auto dest!: get simp: unat_minus_no_wrap word_le_nat_alt)
  next
    case 2
    with "2.IH"(2) "2.prems" show ?thesis
      by (auto dest!: get simp: unat_minus_no_wrap word_le_nat_alt)
  next
    case 3
    with "2.IH"(3) "2.prems" show ?thesis
      by (auto dest!: get)
  qed
qed simp

lemma apply_layers_resident:
  assumes "apply_layers kcut i ((l, ts) # layers) g m = Ret m'" "i < kcut"
  obtains sl where "sort_by_score ts = Ret sl"
    "apply_layers kcut (Suc i) layers (fst (fill_gpu sl g m)) (snd (fill_gpu sl g m)) = Ret m'"
  using assms by (auto simp: obind_Ret case_prod_unfold Let_def)

lemma apply_layers_other:
  "apply_layers kcut i layers g m = Ret m' \<Longrightarrow> k \<notin> set (names (concat (map snd layers))) \<Longrightarrow>
   hm_get m' k = hm_get m k"
proof (induction kcut i layers g m rule: apply_layers.induct)
  case (2 kcut i l ts layers g m)
  show ?case
  proof (cases "i < kcut")
    case True
    with 2(3) obtain sl where sl: "sort_by_score ts = Ret sl"
      "apply_layers kcut (Suc i) layers (fst (fill_gpu sl g m)) (snd (fill_gpu sl g m)) = Ret m'"
      by (rule apply_layers_resident)
    have "set (names sl) = set (names ts)"
      using names_mset [OF sort_by_score_mset [OF sl(1)]] by (metis set_mset_mset)
    with 2(4) 2(1) [OF True _ prod.collapse [symmetric] sl(2)] show ?thesis by (simp add: fill_gpu_other)
  next
    case False
    with 2 show ?thesis by (simp add: insert_all_get)
  qed
qed simp

lemma apply_layers_nvme:
  "apply_layers kcut i layers g m = Ret m' \<Longrightarrow> kcut \<le> i \<Longrightarrow> k \<in> set (names (concat (map snd layers))) \<Longrightarrow>
   hm_get m' k = Some Nvme"
proof (induction kcut i layers g m rule: apply_layers.induct)
  case (2 kcut i l ts layers g m)
  show ?case
  proof (cases "k \<in> set (names (concat (map snd layers)))")
    case True
    with 2 show ?thesis by simp
  next
    case False
    with 2 apply_layers_other [of kcut "Suc i" layers g "insert_all Nvme ts m" m' k] show ?thesis
      by (simp add: insert_all_get)
  qed
qed simp

lemma apply_layers_spec:
  assumes "apply_layers kcut i layers g m = Ret m'" "distinct (names (concat (map snd layers)))"
  shows "(\<forall>t \<in> set (concat (map snd (take (kcut - i) layers))). hm_get m' (st_name t) \<in> {Some Gpu, Some Ram}) \<and>
    (\<forall>t \<in> set (concat (map snd (drop (kcut - i) layers))). hm_get m' (st_name t) = Some Nvme) \<and>
    placed m' Gpu (concat (map snd (take (kcut - i) layers))) \<le> unat g"
  using assms
proof (induction kcut i layers g m rule: apply_layers.induct)
  case (2 kcut i l ts layers g m)
  show ?case
  proof (cases "i < kcut")
    case True
    then have k: "kcut - i = Suc (kcut - Suc i)" by simp
    obtain sl where sl: "sort_by_score ts = Ret sl"
      "apply_layers kcut (Suc i) layers (fst (fill_gpu sl g m)) (snd (fill_gpu sl g m)) = Ret m'"
      using 2(3) True by (rule apply_layers_resident)
    note ms = sort_by_score_mset [OF sl(1)]
    have set_sl: "set sl = set ts" by (metis ms set_mset_mset)
    have dist: "distinct (names sl)" "distinct (names (concat (map snd layers)))"
      "set (names ts) \<inter> set (names (concat (map snd layers))) = {}"
      using 2(4) mset_eq_imp_distinct_iff [OF names_mset [OF ms]] by simp_all
    have get: "hm_get m' (st_name t) = hm_get (snd (fill_gpu sl g m)) (st_name t)" if "t \<in> set sl" for t
      using apply_layers_other [OF sl(2)] dist(3) names_in [of t ts] that set_sl by auto
    have IH: "(\<forall>t \<in> set (concat (map snd (take (kcut - Suc i) layers))). hm_get m' (st_name t) \<in> {Some Gpu, Some Ram}) \<and>
      (\<forall>t \<in> set (concat (map snd (drop (kcut - Suc i) layers))). hm_get m' (st_name t) = Some Nvme) \<and>
      placed m' Gpu (concat (map snd (take (kcut - Suc i) layers))) \<le> unat (fst (fill_gpu sl g m))"
      using 2(1) [OF True _ prod.collapse [symmetric] sl(2) dist(2)] by simp
    have "placed m' Gpu ts = placed m' Gpu sl" by (rule placed_mset) (simp add: ms)
    also have "\<dots> = placed (snd (fill_gpu sl g m)) Gpu sl" using get by (intro placed_cong)
    finally have "unat (fst (fill_gpu sl g m)) + placed m' Gpu ts = unat g"
      using fill_gpu_budget [OF dist(1)] by simp
    moreover have "hm_get m' (st_name t) \<in> {Some Gpu, Some Ram}" if "t \<in> set ts" for t
      using get fill_gpu_tiers that set_sl by auto
    ultimately show ?thesis
      using IH unfolding k
      by (simp only: take_Suc_Cons drop_Suc_Cons list.map concat.simps snd_conv set_append placed_simps ball_Un)
        (elim conjE, intro conjI ballI, blast+, linarith)
  next
    case False
    then have le: "kcut \<le> i" by simp
    have "hm_get m' (st_name t) = Some Nvme" if "t \<in> set (concat (map snd ((l, ts) # layers)))" for t
      by (rule apply_layers_nvme [OF 2(3) le names_in [OF that]])
    then show ?thesis using le by simp
  qed
qed simp

section \<open>The search\<close>

lemma f_lt_irrefl: "\<not> f_lt x x"
  by (cases x) auto

lemma f_lt_step: "f_lt a b \<Longrightarrow> \<not> f_lt a c \<Longrightarrow> \<not> f_lt b c"
  by (cases a; cases b; cases c) auto

lemma f_lt_step': "\<not> f_lt a b \<Longrightarrow> \<not> f_lt b c \<Longrightarrow> \<not> f_lt a c \<or> b = NaN"
  by (cases a; cases b; cases c) auto

text \<open>The loop invariant of the search: the best so far is the least cost over the cutoffs seen.\<close>

lemma search_cutoff_spec:
  assumes "search_cutoff cost fits cs best best_cost = (k, c)" "best_cost = cost best" "best_cost \<noteq> NaN"
  shows "c = cost k \<and> (k = best \<or> k \<in> set cs \<and> fits k) \<and>
    \<not> f_lt best_cost c \<and>
    (\<forall>j < length cs. (\<forall>i \<le> j. fits (cs ! i)) \<longrightarrow> \<not> f_lt (cost (cs ! j)) c)"
  using assms
proof (induction cost fits cs best best_cost rule: search_cutoff.induct)
  case (1 cost fits best best_cost)
  then show ?case by (cases "cost best") (auto simp: f_lt_irrefl)
next
  case (2 cost fits cutoff cs best best_cost)
  show ?case
  proof (cases "fits cutoff")
    case False
    with 2(3,4) show ?thesis by (force simp: f_lt_irrefl)
  next
    case True
    define b where "b = (if f_lt (cost cutoff) best_cost then cutoff else best)"
    have run: "search_cutoff cost fits cs b (cost b) = (k, c)" using 2(3,4) True by (auto simp: b_def)
    have IH: "c = cost k \<and> (k = b \<or> k \<in> set cs \<and> fits k) \<and> \<not> f_lt (cost b) c \<and>
        (\<forall>j < length cs. (\<forall>i \<le> j. fits (cs ! i)) \<longrightarrow> \<not> f_lt (cost (cs ! j)) c)"
    proof (cases "f_lt (cost cutoff) best_cost")
      case True
      then have "cost cutoff \<noteq> NaN" by auto
      with 2(1) [OF _ True] \<open>fits cutoff\<close> run True show ?thesis by (auto simp: b_def)
    next
      case False
      with 2(2) [OF _ False] \<open>fits cutoff\<close> run 2(4,5) show ?thesis by (auto simp: b_def)
    qed
    have le: "\<not> f_lt (cost cutoff) c \<and> \<not> f_lt best_cost c"
      using IH 2(4,5) f_lt_step [of "cost cutoff" best_cost c] f_lt_step' [of "cost cutoff" best_cost c]
      by (auto simp: b_def split: if_splits)
    have "\<not> f_lt (cost ((cutoff # cs) ! j)) c" if "j < Suc (length cs)" "\<forall>i \<le> j. fits ((cutoff # cs) ! i)" for j
    proof (cases j)
      case 0
      with le show ?thesis by simp
    next
      case (Suc j')
      with that have "\<forall>i \<le> j'. fits (cs ! i)" by (metis Suc_le_mono nth_Cons_Suc)
      with Suc that IH show ?thesis by auto
    qed
    with IH le True show ?thesis by (auto simp: b_def)
  qed
qed

lemma search_cutoff_feasible:
  "search_cutoff cost fits cs best best_cost = (k, c) \<Longrightarrow> k = best \<or> k \<in> set cs \<and> fits k"
  by (induction cost fits cs best best_cost rule: search_cutoff.induct) (fastforce split: if_splits)+

lemma best_cutoff_fits:
  "best_cutoff ram_bw nvme_bw moe layers u \<le> length layers \<and>
   layers_size (take (best_cutoff ram_bw nvme_bw moe layers u) layers) \<le> u"
proof -
  let ?cost = "cutoff_cost ram_bw nvme_bw moe layers" and ?fits = "\<lambda>j. layers_size (take j layers) \<le> u"
  obtain k c where run: "search_cutoff ?cost ?fits [0..<length layers + 1] 0 f64_MAX = (k, c)"
    by (cases "search_cutoff ?cost ?fits [0..<length layers + 1] 0 f64_MAX")
  have "?fits 0" by (simp add: layers_size_def total_size_def)
  then show ?thesis
    using search_cutoff_feasible [OF run] run by (auto simp: best_cutoff_def)
qed

lemma best_cutoff_spec:
  fixes u :: u64
  assumes "f_lt (cutoff_cost ram_bw nvme_bw moe layers 0) f64_MAX" "bytes (concat (map snd layers)) < 2 ^ 64"
  defines "k \<equiv> best_cutoff ram_bw nvme_bw moe layers u"
  shows "k \<le> length layers \<and> layers_size (take k layers) \<le> u \<and>
    (\<forall>j \<le> length layers. layers_size (take j layers) \<le> u \<longrightarrow>
       \<not> f_lt (cutoff_cost ram_bw nvme_bw moe layers j) (cutoff_cost ram_bw nvme_bw moe layers k))"
proof -
  let ?cost = "cutoff_cost ram_bw nvme_bw moe layers" and ?fits = "\<lambda>j. layers_size (take j layers) \<le> u"
  have zero: "?fits 0" by (simp add: layers_size_def total_size_def)
  have up: "[0..<length layers + 1] = 0 # [1..<length layers + 1]"
    by (simp add: upt_conv_Cons del: upt_Suc)
  obtain k' c where run: "search_cutoff ?cost ?fits [1..<length layers + 1] 0 (?cost 0) = (k', c)"
    by (cases "search_cutoff ?cost ?fits [1..<length layers + 1] 0 (?cost 0)")
  then have kk: "k = k'" unfolding k_def best_cutoff_def up
    using zero assms(1) by (simp del: upt_Suc)
  have nn: "?cost 0 \<noteq> NaN" using assms(1) by auto
  have spec: "c = ?cost k \<and> (k = 0 \<or> k \<in> set [1..<length layers + 1] \<and> ?fits k) \<and> \<not> f_lt (?cost 0) c \<and>
      (\<forall>j < length [1..<length layers + 1]. (\<forall>i \<le> j. ?fits ([1..<length layers + 1] ! i)) \<longrightarrow>
         \<not> f_lt (?cost ([1..<length layers + 1] ! j)) c)"
    using search_cutoff_spec [OF run refl nn] unfolding kk .
  then have c0: "\<not> f_lt (?cost 0) (?cost k)" by metis
  have size: "unat (layers_size (take j layers)) = bytes (concat (map snd (take j layers)))" for j
  proof -
    have "bytes (concat (map snd (take j layers))) \<le> bytes (concat (map snd (take j layers @ drop j layers)))"
      by (simp only: map_append concat_append bytes_simps le_add1)
    then have "bytes (concat (map snd (take j layers))) < 2 ^ 64"
      using assms(2) by (simp only: append_take_drop_id)
    then show ?thesis unfolding layers_size_def by (rule total_size_bytes)
  qed
  have mono: "?fits i" if "?fits j" "i \<le> j" for i j
  proof -
    have "take j layers = take i layers @ take (j - i) (drop i layers)"
      using that(2) by (metis le_add_diff_inverse take_add)
    then have "bytes (concat (map snd (take i layers))) \<le> bytes (concat (map snd (take j layers)))" by simp
    with that(1) show ?thesis by (simp add: word_le_nat_alt size)
  qed
  have "\<not> f_lt (?cost j) (?cost k)" if "j \<le> length layers" "?fits j" for j
  proof (cases j)
    case 0
    then show ?thesis using c0 by simp
  next
    case (Suc j')
    have "\<forall>i \<le> j'. ?fits ([1..<length layers + 1] ! i)"
      using mono [OF that(2)] that(1) Suc by (auto simp del: upt_Suc)
    moreover have "j' < length [1..<length layers + 1]" "[1..<length layers + 1] ! j' = j"
      using that(1) Suc by (auto simp del: upt_Suc)
    ultimately show ?thesis using spec by metis
  qed
  moreover have "k \<le> length layers \<and> ?fits k" using spec zero by auto
  ultimately show ?thesis by blast
qed


section \<open>Properties\<close>

lemma greedy_spec:
  assumes ok: "greedy_assign ts caps hw md = Ret m" and dist: "distinct (names ts)" and fits: "bytes ts < 2 ^ 64"
  shows "set (hm_keys m) = set (names ts) \<and>
    placed m Gpu ts \<le> unat (tc_gpu_bytes caps) \<and>
    placed m Gpu ts + placed m Ram ts \<le> unat (tc_unified_limit caps) \<and>
    (\<forall>t \<in> set ts. \<forall>u \<in> set ts. \<forall>l k. st_layer_index t = Some l \<and> st_layer_index u = Some k \<and>
        hm_get m (st_name t) \<noteq> Some Nvme \<and> hm_get m (st_name u) = Some Nvme \<longrightarrow> l < k)"
proof -
  let ?L = "group_layers ts"
  obtain nl g u m0 where nl: "sort_by_score (non_layer ts) = Ret nl"
    and m0: "assign_non_layer nl (tc_gpu_bytes caps) (tc_unified_limit caps) [] = (g, u, m0)"
    and m: "apply_layers (best_cutoff (f_of_word (mp_bandwidth_bytes_per_sec (hw_memory hw)))
        (f_of_word (tc_nvme_peak_bw caps)) (mm_is_moe md) ?L u) 0 ?L g m0 = Ret m"
  proof -
    obtain nl where "sort_by_score (non_layer ts) = Ret nl"
      using ok by (auto simp: greedy_assign_def Let_def obind_Ret)
    then show ?thesis
      using ok that by (cases "assign_non_layer nl (tc_gpu_bytes caps) (tc_unified_limit caps) []")
        (auto simp: greedy_assign_def Let_def)
  qed
  define k where "k = best_cutoff (f_of_word (mp_bandwidth_bytes_per_sec (hw_memory hw)))
        (f_of_word (tc_nvme_peak_bw caps)) (mm_is_moe md) ?L u"
  let ?R = "concat (map snd (take k ?L))" and ?N = "concat (map snd (drop k ?L))"
  have RN: "concat (map snd ?L) = ?R @ ?N" by (metis append_take_drop_id concat_append map_append)
  have parts: "mset (nl @ ?R @ ?N) = mset ts"
    using group_layers_partition [of ts] sort_by_score_mset [OF nl] by (simp add: RN)
  have dist': "distinct (names (nl @ ?R @ ?N))"
    using dist names_mset [OF parts] by (metis mset_eq_imp_distinct_iff)
  have bytes': "bytes (concat (map snd ?L)) < 2 ^ 64"
    using fits bytes_mset [OF parts] by (simp add: RN)
  have cut: "layers_size (take k ?L) \<le> u" using best_cutoff_fits unfolding k_def by blast
  have dRN: "distinct (names (concat (map snd ?L)))" using dist' by (simp add: RN)
  note layers = apply_layers_spec [OF m dRN, folded k_def, unfolded diff_zero]
  have keep: "hm_get m (st_name t) = hm_get m0 (st_name t)" if "t \<in> set nl" for t
    using apply_layers_other [OF m] dist' names_in [OF that] by (auto simp: RN)
  have nlp: "placed m tier nl = placed m0 tier nl" for tier by (rule placed_cong) (rule keep)
  have dnl: "distinct (names nl)" using dist' by simp
  note budget = assign_non_layer_budget [OF m0 dnl, folded nlp]
  have zero: "placed m tier ?N = 0" if "tier \<noteq> Nvme" for tier
    using that layers by (intro placed_none) auto
  have all: "placed m tier ts = placed m tier nl + placed m tier ?R" if "tier \<noteq> Nvme" for tier
    using placed_mset [OF parts, of m tier] zero [OF that] by simp
  have "placed m Gpu ?R + placed m Ram ?R = bytes ?R" using layers by (intro placed_two) auto
  moreover have "bytes ?R \<le> unat u"
  proof -
    have "bytes ?R < 2 ^ 64" using bytes' by (simp add: RN)
    then show ?thesis using cut total_size_bytes [of ?R] by (simp add: layers_size_def word_le_nat_alt)
  qed
  ultimately have "placed m Gpu ts + placed m Ram ts \<le> unat (tc_unified_limit caps)"
    using budget by (simp add: all)
  moreover have "placed m Gpu ts \<le> unat (tc_gpu_bytes caps)"
    using budget layers by (simp add: all)
  moreover have "set (hm_keys m) = set (names ts)"
  proof -
    have names_ts: "set (names ts) = set (names nl) \<union> set (names (concat (map snd ?L)))"
      using names_mset [OF parts] by (metis RN names_simps(3) set_append set_mset_mset)
    have "hm_get m x \<noteq> None \<longleftrightarrow> x \<in> set (names ts)" for x
    proof (cases "x \<in> set (names (concat (map snd ?L)))")
      case True
      then obtain t where "t \<in> set ?R \<or> t \<in> set ?N" "x = st_name t" by (auto simp: RN names_def)
      then have "hm_get m x \<noteq> None" using layers by fastforce
      with True show ?thesis by (simp add: names_ts)
    next
      case False
      with apply_layers_other [OF m False] show ?thesis
        using assign_non_layer_names [OF m0, of x] assign_non_layer_other [OF m0, of x]
        by (cases "x \<in> set (names nl)") (auto simp: names_ts)
    qed
    then show ?thesis by (auto simp: set_hm_keys)
  qed
  moreover have "l < l'" if t: "t \<in> set ts" "st_layer_index t = Some l" "hm_get m (st_name t) \<noteq> Some Nvme"
    and v: "v \<in> set ts" "st_layer_index v = Some l'" "hm_get m (st_name v) = Some Nvme" for t v l l'
  proof -
    have mem: "x \<in> set ?R \<or> x \<in> set ?N" if "x \<in> set ts" "st_layer_index x \<noteq> None" for x
    proof -
      have "set (concat (map snd ?L)) = set (filter (\<lambda>t. st_layer_index t \<noteq> None) ts)"
        using group_layers_props [of ts] by (metis set_mset_mset)
      with that show ?thesis by (auto simp: RN)
    qed
    have "t \<in> set ?R" "v \<in> set ?N" using mem [of t] mem [of v] t v layers by (blast, fastforce)
    then obtain us vs where us: "(l, us) \<in> set (take k ?L)" and vs: "(l', vs) \<in> set (drop k ?L)"
      using group_layers_props [of ts] t(2) v(2) in_set_takeD [of _ k ?L] in_set_dropD [of _ k ?L]
      by (fastforce simp: split_beta)
    have "sorted_wrt (<) (map fst (take k ?L) @ map fst (drop k ?L))"
      using group_layers_props [of ts] by (simp add: group_wf_def flip: map_append)
    with us vs show ?thesis by (fastforce simp: sorted_wrt_append)
  qed
  ultimately show ?thesis by blast
qed

lemmas greedy_keys = greedy_spec [THEN conjunct1]

text \<open>C21. The greedy placement is safe and contiguous: every tensor gets a tier, the GPU tensors
  fit the GPU bytes, GPU and RAM together fit the unified limit, and the layers are cut in
  two, so that every resident layer comes before every NVMe layer and no layer is divided
  between NVMe and memory.\<close>

theorem greedy_placement:
  assumes ok: "greedy_assign ts caps hw md = Ret m" and dist: "distinct (names ts)" and fits: "bytes ts < 2 ^ 64"
  shows "set (hm_keys m) = set (names ts) \<and>
    placed m Gpu ts \<le> unat (tc_gpu_bytes caps) \<and>
    placed m Gpu ts + placed m Ram ts \<le> unat (tc_unified_limit caps) \<and>
    (\<forall>t \<in> set ts. \<forall>u \<in> set ts. \<forall>l k. st_layer_index t = Some l \<and> st_layer_index u = Some k \<and>
        hm_get m (st_name t) \<noteq> Some Nvme \<and> hm_get m (st_name u) = Some Nvme \<longrightarrow> l < k)"
  using greedy_spec [OF ok dist fits] .

lemma greedy_never_panics_aux:
  assumes "\<And>l us. (l, us) \<in> set layers \<Longrightarrow> list_all (\<lambda>t. st_score t \<noteq> NaN) us"
  shows "apply_layers kcut i layers g m \<noteq> Panic"
  using assms
proof (induction kcut i layers g m rule: apply_layers.induct)
  case (2 kcut i l ts layers g m)
  have "\<not> list_ex (\<lambda>t. st_score t = NaN) ts" using 2(3) [of l ts] by (auto simp: list_ex_iff list_all_iff)
  then obtain sl where sl: "sort_by_score ts = Ret sl" by (auto simp: sort_by_score_def)
  have rest: "(l', us) \<in> set layers \<Longrightarrow> list_all (\<lambda>t. st_score t \<noteq> NaN) us" for l' us
    using 2(3) [of l' us] by simp
  show ?case
  proof (cases "i < kcut")
    case True
    with 2(1) [OF True _ prod.collapse [symmetric] rest] sl show ?thesis by (simp add: case_prod_unfold Let_def)
  next
    case False
    with 2(2) [OF False rest] show ?thesis by simp
  qed
qed simp

lemma greedy_never_panics:
  assumes "list_all (\<lambda>t. st_score t \<noteq> NaN) ts"
  shows "greedy_assign ts caps hw md \<noteq> Panic"
proof -
  have "\<not> list_ex (\<lambda>t. st_score t = NaN) (non_layer ts)"
    using assms by (auto simp: list_ex_iff list_all_iff non_layer_def)
  then obtain nl where nl: "sort_by_score (non_layer ts) = Ret nl" by (auto simp: sort_by_score_def)
  have "set (concat (map snd (group_layers ts))) \<subseteq> set ts"
    using group_layers_props [of ts] by (metis filter_is_subset set_mset_mset)
  then have "list_all (\<lambda>t. st_score t \<noteq> NaN) us" if "(l, us) \<in> set (group_layers ts)" for l us
    using that assms by (fastforce simp: list_all_iff)
  from greedy_never_panics_aux [OF this] nl show ?thesis
    by (simp add: greedy_assign_def Let_def case_prod_unfold)
qed

section \<open>Finite costs\<close>

lemma f_in_foldl:
  "list_all (f_in k) xs \<Longrightarrow> f_in k a \<Longrightarrow> - 1022 \<le> k \<Longrightarrow> k + int (length xs) < 1000 \<Longrightarrow>
   f_in (k + int (length xs)) (foldl f_add a xs)"
proof (induction xs arbitrary: a k)
  case (Cons x xs)
  then have "f_in (k + 1) (f_add a x)" by (intro f_in_add) auto
  moreover have "list_all (f_in (k + 1)) xs" using Cons.prems(1) by (auto simp: list_all_iff intro: f_in_mono)
  ultimately show ?case using Cons.IH [of "k + 1" "f_add a x"] Cons.prems by (simp add: add.assoc)
qed simp

lemma f_in_sum: "list_all (f_in k) xs \<Longrightarrow> 0 \<le> k \<Longrightarrow> k + int (length xs) < 1000 \<Longrightarrow> f_in (k + int (length xs)) (f_sum xs)"
  unfolding f_sum_def by (rule f_in_foldl) (auto simp: f_in_def)

lemma f_in_sync_secs: "f_in 0 sync_secs"
proof -
  have "f_in (- 14) (rnd (1 / 1000000))" by (rule f_in_rnd) simp_all
  then have "f_in (6 + - 14) sync_secs"
    unfolding sync_secs_def SYNC_OVERHEAD_PER_LAYER_US_def
    by (intro f_in_mul) (auto simp: f_in_def)
  then show ?thesis by (rule f_in_mono) simp
qed

lemma f_in_effective_io_freq:
  assumes "f_in 32 base" shows "f_in 33 (effective_io_freq role base moe)"
proof -
  have hit: "f_in 0 MOE_CACHE_HIT_RATE" unfolding MOE_CACHE_HIT_RATE_def by (rule f_in_rnd) simp_all
  then obtain h where h: "MOE_CACHE_HIT_RATE = Fin h" "0 \<le> h" "h \<le> 1" by (auto simp: f_in_def)
  then have "f_in 0 (f_sub (Fin 1) MOE_CACHE_HIT_RATE)"
    using f_in_rnd [of "1 - h" 0] unfolding h(1) f_sub_def by simp
  then have "f_in (32 + 0) (f_mul base (f_sub (Fin 1) MOE_CACHE_HIT_RATE))"
    using assms by (intro f_in_mul) auto
  then show ?thesis
    using assms by (auto simp: effective_io_freq_def intro: f_in_mono)
qed

lemma f_in_io_cost:
  assumes "f_in 32 (st_access_freq t)" "0 < bw"
  shows "f_in 97 (io_cost (f_of_word (bw :: u64)) moe t)"
proof -
  obtain r where "f_of_word bw = Fin r" "1 \<le> r" using f_of_word_pos [OF assms(2)] by auto
  moreover have "f_in (64 + 33) (f_mul (f_of_word (st_size_bytes t)) (effective_io_freq (st_role t) (st_access_freq t) moe))"
    using f_in_of_word [of "st_size_bytes t"] f_in_effective_io_freq [OF assms(1)] by (intro f_in_mul) auto
  ultimately show ?thesis by (auto simp: io_cost_def intro: f_in_div)
qed

lemma f_in_nvme_loop:
  assumes "\<And>l us t. (l, us) \<in> set layers \<Longrightarrow> t \<in> set us \<Longrightarrow> f_in 32 (st_access_freq t)" "0 < bw"
    "\<And>l us. (l, us) \<in> set layers \<Longrightarrow> length us \<le> n" "f_in k c" "97 + int n \<le> k"
    "k + 2 * int (length layers) < 900"
  shows "f_in (k + 2 * int (length layers)) (nvme_loop (f_of_word (bw :: u64)) moe layers c (Fin 0))"
  using assms(1,3-6)
proof (induction layers arbitrary: c k)
  case (Cons l layers)
  obtain i us where l: "l = (i, us)" by (cases l)
  let ?io = "f_sum (map (io_cost (f_of_word bw) moe) us)"
  have freq: "t \<in> set us \<Longrightarrow> f_in 32 (st_access_freq t)" for t using Cons.prems(1) [of i us] l by simp
  have "length us \<le> n" using Cons.prems(2) [of i us] l by simp
  then have "f_in (97 + int (length us)) ?io"
    using f_in_sum [of 97 "map (io_cost (f_of_word bw) moe) us"] f_in_io_cost [OF freq assms(2)] Cons.prems(4,5)
    by (simp add: list_all_iff)
  from f_in_mono [OF this, of k] have "f_in k ?io" using \<open>length us \<le> n\<close> Cons.prems(4) by simp
  then obtain r where r: "?io = Fin r" "0 \<le> r" "r \<le> 2 powi k" unfolding f_in_def by blast
  then have "f_sub ?io (Fin 0) = rnd r" by (simp add: f_sub_def)
  moreover have "f_in k (rnd r)" using r(2,3) Cons.prems(4,5) by (intro f_in_rnd) linarith+
  ultimately have "f_in k (f_sub ?io (Fin 0))" by simp
  then have "f_in k (f_max (f_sub ?io (Fin 0)) (Fin 0))" by (auto simp: f_in_def f_max_def)
  then have "f_in (k + 1) (f_add (f_max (f_sub ?io (Fin 0)) (Fin 0)) sync_secs)"
    using Cons.prems(4,5) by (intro f_in_add f_in_mono [OF f_in_sync_secs]) auto
  then have "f_in (k + 1 + 1) (f_add c (f_add (f_max (f_sub ?io (Fin 0)) (Fin 0)) sync_secs))"
    using f_in_mono [OF Cons.prems(3), of "k + 1"] Cons.prems(4,5) by (intro f_in_add [of "k + 1"]) auto
  then have "f_in (k + 2) (f_add c (f_add (f_max (f_sub ?io (Fin 0)) (Fin 0)) sync_secs))" by (simp add: add.commute)
  then have "f_in (k + 2 + 2 * int (length layers)) (nvme_loop (f_of_word bw) moe layers
      (f_add c (f_add (f_max (f_sub ?io (Fin 0)) (Fin 0)) sync_secs)) (Fin 0))"
    using Cons.prems(4,5) Cons.prems(1,2) [OF list.set_intros(2)] by (intro Cons.IH) auto
  then show ?case by (simp add: l Let_def algebra_simps)
qed simp

lemma f_in_below_MAX: "f_in k x \<Longrightarrow> k < 1000 \<Longrightarrow> f_lt x f64_MAX"
proof -
  assume "f_in k x" "k < 1000"
  then obtain r where r: "x = Fin r" "r \<le> 2 powi k" by (auto simp: f_in_def)
  note r(2)
  also have "(2 :: rat) powi k \<le> 2 powi 1000" using \<open>k < 1000\<close> by (simp only: powi_le_iff)
  also have "\<dots> = of_int (2 ^ 1000)" by (simp only: power_int_def) simp
  also have "\<dots> < of_int ((2 ^ 53 - 1) * 2 ^ 971)" by (simp only: of_int_less_iff) simp
  finally show ?thesis by (simp add: r(1) f64_MAX_def)
qed

text \<open>The cost of streaming every layer is a finite number for every model of realistic shape,
  whatever the tensors weigh.\<close>

lemma cutoff_cost_finite:
  assumes "\<And>l us t. (l, us) \<in> set layers \<Longrightarrow> t \<in> set us \<Longrightarrow> f_in 32 (st_access_freq t)" "0 < bw"
    "\<And>l us. (l, us) \<in> set layers \<Longrightarrow> length us \<le> 100" "length layers \<le> 300"
  shows "f_lt (cutoff_cost ram_bw (f_of_word (bw :: u64)) moe layers 0) f64_MAX"
proof -
  let ?k = "197 + 2 * int (length layers)"
  have "f_in ?k (nvme_loop (f_of_word bw) moe layers (Fin 0) (Fin 0))"
    using assms by (intro f_in_nvme_loop [where n = 100]) (auto simp: f_in_def)
  then have "f_in (?k + 1) (f_add (Fin 0) (nvme_loop (f_of_word bw) moe layers (Fin 0) (Fin 0)))"
    using assms(4) by (intro f_in_add) (auto simp: f_in_def)
  then show ?thesis
    using assms(4) by (intro f_in_below_MAX) (auto simp: cutoff_cost_def f_sum_def Let_def)
qed

text \<open>The greedy placement always returns: no sort in it meets a score that is not a number
  when the scores come from the scoring pass.\<close>

lemma greedy_returns: "\<exists>m. greedy_assign (score_tensors ts md) caps hw md = Ret m"
  using greedy_never_panics [OF scores_finite, of ts md caps hw md]
  by (cases "greedy_assign (score_tensors ts md) caps hw md") auto

text \<open>C22. The cutoff is optimal: the layers it keeps fit the memory that is left, and no other
  cutoff whose layers fit has a lower predicted latency.\<close>

theorem greedy_cutoff_optimal:
  fixes u :: u64
  assumes "f_lt (cutoff_cost ram_bw nvme_bw moe layers 0) f64_MAX" "bytes (concat (map snd layers)) < 2 ^ 64"
  shows "best_cutoff ram_bw nvme_bw moe layers u \<le> length layers \<and>
    layers_size (take (best_cutoff ram_bw nvme_bw moe layers u) layers) \<le> u \<and>
    (\<forall>j \<le> length layers. layers_size (take j layers) \<le> u \<longrightarrow>
       \<not> f_lt (cutoff_cost ram_bw nvme_bw moe layers j)
              (cutoff_cost ram_bw nvme_bw moe layers (best_cutoff ram_bw nvme_bw moe layers u)))"
  using best_cutoff_spec [OF assms] .

definition hw_32g :: hardware_profile where
  "hw_32g = \<lparr>hw_timestamp = ''2025-01-01T00:00:00Z'',
     hw_system = \<lparr>si_os = ''test'', si_arch = ''arm64'', si_machine_model = ''test'', si_total_cores = 10\<rparr>,
     hw_memory = \<lparr>mp_total_bytes = 34359738368, mp_available_bytes = 30064771072,
       mp_bandwidth_bytes_per_sec = 200000000000, mp_is_unified = True\<rparr>,
     hw_gpu = Some \<lparr>gp_name = ''Test GPU'', gp_vram_bytes = 17179869184,
       gp_bandwidth_bytes_per_sec = 200000000000, gp_fp16_tflops = Fin 0, gp_backend = Metal\<rparr>,
     hw_storage = [\<lparr>sp_device_path = ''/dev/disk0'', sp_mount_point = ''/'', sp_device_type = NvmePcie,
       sp_capacity_bytes = 1099511627776, sp_free_bytes = 536870912000,
       sp_sequential_read = \<lparr>bc_points = [], bc_peak_sequential = 5000000000\<rparr>,
       sp_random_read_iops = 0, sp_pcie_gen = None, sp_wear_level = None\<rparr>],
     hw_cpu = \<lparr>cp_model_name = ''Test CPU'', cp_cores_performance = 8, cp_cores_efficiency = 2, cp_has_amx = False,
       cp_has_neon = True, cp_has_avx512 = False, cp_has_avx2 = False, cp_int8_gflops = Fin 0\<rparr>\<rparr>"

definition gib_layers :: "scored_tensor list" where
  "gib_layers = map (\<lambda>i. \<lparr>st_name = blk_name i ''attn_q.weight'', st_size_bytes = 1073741824,
     st_score = Fin (10 - of_nat i), st_access_freq = Fin 1, st_layer_index = Some (of_nat i),
     st_role = AttentionQuery\<rparr>) [0..<3]"

definition caps_2g :: tier_capacities where
  "caps_2g = \<lparr>tc_gpu_bytes = 1073741824, tc_ram_bytes = 1073741824, tc_unified_limit = 2147483648,
     tc_nvme_peak_bw = 5000000000\<rparr>"

theorem greedy_placement_witness:
  "\<exists>m. greedy_assign gib_layers caps_2g hw_32g dense_md = Ret m \<and>
     placed m Gpu gib_layers \<le> 1073741824 \<and> placed m Gpu gib_layers + placed m Ram gib_layers \<le> 2147483648"
proof -
  have scores: "list_all (\<lambda>t. st_score t \<noteq> NaN) gib_layers" by (simp add: gib_layers_def list_all_iff)
  obtain m where m: "greedy_assign gib_layers caps_2g hw_32g dense_md = Ret m"
    using greedy_never_panics [OF scores, of caps_2g hw_32g dense_md]
    by (cases "greedy_assign gib_layers caps_2g hw_32g dense_md") auto
  have "distinct (names gib_layers)" by code_simp
  moreover have "bytes gib_layers < 2 ^ 64" by (simp add: gib_layers_def upt_rec)
  ultimately show ?thesis using greedy_placement [OF m] m by (auto simp: caps_2g_def)
qed

theorem greedy_cutoff_optimal_witness:
  "layers_size (take (best_cutoff (f_of_word (200000000000 :: u64)) (f_of_word (5000000000 :: u64)) False
     (group_layers gib_layers) 2147483648) (group_layers gib_layers)) \<le> 2147483648"
proof -
  have layers: "group_layers gib_layers =
      map (\<lambda>i. (of_nat i, [gib_layers ! i])) [0..<3]" by code_simp
  have "f_lt (cutoff_cost (f_of_word (200000000000 :: u64)) (f_of_word (5000000000 :: u64)) False (group_layers gib_layers) 0) f64_MAX"
    unfolding layers by (rule cutoff_cost_finite) (auto simp: gib_layers_def f_in_def)
  moreover have "bytes (concat (map snd (group_layers gib_layers))) < 2 ^ 64"
    unfolding layers by (simp add: gib_layers_def upt_rec)
  ultimately show ?thesis by (rule greedy_cutoff_optimal [THEN conjunct2, THEN conjunct1])
qed

end
