(* ===== verification/Lp.thy ===== *)
theory Lp
  imports Greedy
begin

text \<open>
  Model of \<open>lp_assign\<close> of \<open>src/scheduler/placement.rs\<close>.  The mixed integer program is built
  as data, variable by variable and constraint by constraint in the order of the code; the
  solver (\<open>good_lp\<close> with HiGHS) is the parameter \<open>solve\<close>, a function from the program to a
  value for each variable or an error.  What is assumed of it is what solvers document: the
  values it returns satisfy every constraint up to a feasibility tolerance.
\<close>

section \<open>The program as data\<close>

datatype lp_var = XGpu nat | XRam nat | XNvme nat | LayerNvme nat | LayerCost nat

text \<open>A linear expression: the terms and the constant.\<close>

type_synonym lp_expr = "(f64 \<times> lp_var) list \<times> f64"

datatype lp_rel = Geq | Leq | Equal

type_synonym lp_constraint = "lp_expr \<times> lp_rel \<times> lp_expr"

record lp_problem =
  lp_binaries :: "lp_var list"
  lp_continuous :: "lp_var list"
  lp_objective :: lp_expr
  lp_constraints :: "lp_constraint list"

definition e_var :: "lp_var \<Rightarrow> lp_expr" where "e_var x = ([(Fin 1, x)], Fin 0)"
definition e_const :: "f64 \<Rightarrow> lp_expr" where "e_const c = ([], c)"

definition e_sub :: "lp_expr \<Rightarrow> lp_expr \<Rightarrow> lp_expr" where
  "e_sub a b = (fst a @ map (\<lambda>(c, x). (f_neg c, x)) (fst b), f_sub (snd a) (snd b))"

section \<open>Building\<close>

text \<open>The \<open>BTreeSet\<close> of layer indices and the position of each in ascending order.\<close>

definition layer_indices :: "scored_tensor list \<Rightarrow> u32 list" where
  "layer_indices ts = sorted_list_of_set (set (List.map_filter st_layer_index ts))"

fun index_of :: "'a list \<Rightarrow> 'a \<Rightarrow> nat option" where
  "index_of [] x = None"
| "index_of (y # ys) x = (if y = x then Some 0 else map_option Suc (index_of ys x))"

definition weight :: "scored_tensor \<Rightarrow> f64" where
  "weight t = f_mul (f_of_word (st_size_bytes t)) (st_access_freq t)"

definition eff_weight :: "bool \<Rightarrow> scored_tensor \<Rightarrow> f64" where
  "eff_weight moe t = f_mul (f_of_word (st_size_bytes t)) (effective_io_freq (st_role t) (st_access_freq t) moe)"

definition numbered :: "scored_tensor list \<Rightarrow> (nat \<times> scored_tensor) list" where
  "numbered ts = zip [0..<length ts] ts"

definition lp_objective_of :: "scored_tensor list \<Rightarrow> nat \<Rightarrow> f64 \<Rightarrow> f64 \<Rightarrow> f64 \<Rightarrow> lp_expr" where
  "lp_objective_of ts num_layers gpu_bw ram_bw nvme_bw =
     (map (\<lambda>j. (Fin 1, LayerCost j)) [0..<num_layers] @
      concat (map (\<lambda>(i, t). [(f_div (weight t) gpu_bw, XGpu i), (f_div (weight t) ram_bw, XRam i),
                             (f_div (weight t) nvme_bw, XNvme i)])
        (filter (\<lambda>(i, t). st_layer_index t = None) (numbered ts))), Fin 0)"

definition in_layer :: "scored_tensor list \<Rightarrow> u32 \<Rightarrow> (nat \<times> scored_tensor) list" where
  "in_layer ts layer = filter (\<lambda>(i, t). st_layer_index t = Some layer) (numbered ts)"

definition compute_expr :: "scored_tensor list \<Rightarrow> f64 \<Rightarrow> f64 \<Rightarrow> u32 \<Rightarrow> lp_expr" where
  "compute_expr ts gpu_bw ram_bw layer =
     (concat (map (\<lambda>(i, t). [(f_div (weight t) gpu_bw, XGpu i), (f_div (weight t) ram_bw, XRam i)])
        (in_layer ts layer)), Fin 0)"

definition io_expr :: "scored_tensor list \<Rightarrow> bool \<Rightarrow> f64 \<Rightarrow> u32 \<Rightarrow> lp_expr" where
  "io_expr ts moe nvme_bw layer =
     (map (\<lambda>(i, t). (f_div (eff_weight moe t) nvme_bw, XNvme i)) (in_layer ts layer), Fin 0)"

definition cost_constraints ::
  "scored_tensor list \<Rightarrow> bool \<Rightarrow> f64 \<Rightarrow> f64 \<Rightarrow> f64 \<Rightarrow> u32 list \<Rightarrow> lp_constraint list" where
  "cost_constraints ts moe gpu_bw ram_bw nvme_bw layers =
     concat (map (\<lambda>j.
         (e_var (LayerCost j), Geq, compute_expr ts gpu_bw ram_bw (layers ! j)) #
         (if j = 0 then [(e_var (LayerCost j), Geq, io_expr ts moe nvme_bw (layers ! j))] else []))
       [0..<length layers]) @
     map (\<lambda>j. (e_var (LayerCost j), Geq,
         e_sub (io_expr ts moe nvme_bw (layers ! j)) (compute_expr ts gpu_bw ram_bw (layers ! (j - 1)))))
       [1..<length layers]"

definition one_tier_constraints :: "nat \<Rightarrow> lp_constraint list" where
  "one_tier_constraints n =
     map (\<lambda>i. (([(Fin 1, XGpu i), (Fin 1, XRam i), (Fin 1, XNvme i)], Fin 0), Equal, e_const (Fin 1))) [0..<n]"

definition capacity_constraints :: "scored_tensor list \<Rightarrow> tier_capacities \<Rightarrow> lp_constraint list" where
  "capacity_constraints ts caps =
     [((map (\<lambda>(i, t). (f_of_word (st_size_bytes t), XGpu i)) (numbered ts), Fin 0), Leq,
        e_const (f_of_word (tc_gpu_bytes caps))),
      ((map (\<lambda>(i, t). (f_of_word (st_size_bytes t), XRam i)) (numbered ts), Fin 0), Leq,
        e_const (f_of_word (tc_ram_bytes caps))),
      ((concat (map (\<lambda>(i, t). [(f_of_word (st_size_bytes t), XGpu i), (f_of_word (st_size_bytes t), XRam i)])
          (numbered ts)), Fin 0), Leq, e_const (f_of_word (tc_unified_limit caps)))]"

definition monotone_constraints :: "nat \<Rightarrow> lp_constraint list" where
  "monotone_constraints num_layers =
     map (\<lambda>j. (e_var (LayerNvme j), Geq, e_var (LayerNvme (j - 1)))) [1..<num_layers]"

definition link_constraints :: "scored_tensor list \<Rightarrow> u32 list \<Rightarrow> lp_constraint list" where
  "link_constraints ts layers =
     List.map_filter (\<lambda>(i, t). case st_layer_index t of None \<Rightarrow> None
       | Some l \<Rightarrow> (case index_of layers l of None \<Rightarrow> None
           | Some j \<Rightarrow> Some (e_var (XNvme i), Equal, e_var (LayerNvme j)))) (numbered ts)"

definition lp_problem_of ::
  "scored_tensor list \<Rightarrow> tier_capacities \<Rightarrow> hardware_profile \<Rightarrow> model_metadata \<Rightarrow> lp_problem" where
  "lp_problem_of ts caps hw md =
     (let n = length ts;
          gpu_bw = (case hw_gpu hw of None \<Rightarrow> Fin 1000000000 | Some g \<Rightarrow> f_of_word (gp_bandwidth_bytes_per_sec g));
          ram_bw = f_of_word (mp_bandwidth_bytes_per_sec (hw_memory hw));
          nvme_bw = f_of_word (tc_nvme_peak_bw caps);
          layers = layer_indices ts;
          num_layers = length layers
      in \<lparr>lp_binaries = concat (map (\<lambda>i. [XGpu i, XRam i, XNvme i]) [0..<n]) @ map LayerNvme [0..<num_layers],
          lp_continuous = map LayerCost [0..<num_layers],
          lp_objective = lp_objective_of ts num_layers gpu_bw ram_bw nvme_bw,
          lp_constraints = cost_constraints ts (mm_is_moe md) gpu_bw ram_bw nvme_bw layers @
            one_tier_constraints n @ capacity_constraints ts caps @ monotone_constraints num_layers @
            link_constraints ts layers\<rparr>)"

type_synonym solver = "lp_problem \<Rightarrow> (lp_var \<Rightarrow> f64) option"

definition lp_tier :: "(lp_var \<Rightarrow> f64) \<Rightarrow> nat \<Rightarrow> storage_tier" where
  "lp_tier solution i =
     (if f_lt (Fin (1/2)) (solution (XGpu i)) then Gpu
      else if f_lt (Fin (1/2)) (solution (XRam i)) then Ram
      else Nvme)"

definition lp_assign ::
  "solver \<Rightarrow> scored_tensor list \<Rightarrow> tier_capacities \<Rightarrow> hardware_profile \<Rightarrow> model_metadata \<Rightarrow> tier_map option" where
  "lp_assign solve ts caps hw md =
     (if length ts = 0 then Some []
      else case solve (lp_problem_of ts caps hw md) of
        None \<Rightarrow> None
      | Some solution \<Rightarrow>
          Some (foldl (\<lambda>m (i, t). hm_insert (st_name t) (lp_tier solution i) m) [] (numbered ts)))"

section \<open>Feasible solutions\<close>

text \<open>
  The exact value of an expression under rational values of the variables, and what it means
  to satisfy a program up to \<open>eps\<close>: binaries within \<open>eps\<close> of 0 or 1, constraints violated
  by at most \<open>eps\<close>.
\<close>

fun f_val :: "f64 \<Rightarrow> rat" where
  "f_val (Fin r) = r"
| "f_val _ = 0"

definition e_val :: "(lp_var \<Rightarrow> rat) \<Rightarrow> lp_expr \<Rightarrow> rat" where
  "e_val v e = sum_list (map (\<lambda>(c, x). f_val c * v x) (fst e)) + f_val (snd e)"

fun holds_upto :: "rat \<Rightarrow> (lp_var \<Rightarrow> rat) \<Rightarrow> lp_constraint \<Rightarrow> bool" where
  "holds_upto eps v (a, Geq, b) \<longleftrightarrow> e_val v b \<le> e_val v a + eps"
| "holds_upto eps v (a, Leq, b) \<longleftrightarrow> e_val v a \<le> e_val v b + eps"
| "holds_upto eps v (a, Equal, b) \<longleftrightarrow> \<bar>e_val v a - e_val v b\<bar> \<le> eps"

definition near_binary :: "rat \<Rightarrow> rat \<Rightarrow> bool" where
  "near_binary eps x \<longleftrightarrow> \<bar>x\<bar> \<le> eps \<or> \<bar>x - 1\<bar> \<le> eps"

definition feasible_upto :: "rat \<Rightarrow> lp_problem \<Rightarrow> (lp_var \<Rightarrow> f64) \<Rightarrow> bool" where
  "feasible_upto eps p sol \<longleftrightarrow>
     list_all (\<lambda>x. near_binary eps (f_val (sol x))) (lp_binaries p) \<and>
     list_all (\<lambda>x. - eps \<le> f_val (sol x)) (lp_continuous p) \<and>
     list_all (holds_upto eps (\<lambda>x. f_val (sol x))) (lp_constraints p)"

definition sound_solver :: "rat \<Rightarrow> solver \<Rightarrow> bool" where
  "sound_solver eps solve \<longleftrightarrow> (\<forall>p sol. solve p = Some sol \<longrightarrow> (\<forall>x. \<exists>r. sol x = Fin r) \<and> feasible_upto eps p sol)"


section \<open>Reading the solution\<close>

lemma numbered_nth: "(i, t) \<in> set (numbered ts) \<longleftrightarrow> i < length ts \<and> t = ts ! i"
  by (force simp: numbered_def in_set_zip)

lemma numbered_snd [simp]: "map snd (numbered ts) = ts"
  by (simp add: numbered_def)

lemma foldl_insert_get:
  "distinct (map (\<lambda>x. st_name (snd x)) xs) \<Longrightarrow>
   hm_get (foldl (\<lambda>m (i, t). hm_insert (st_name t) (f i) m) m0 xs) k =
     (case find (\<lambda>x. st_name (snd x) = k) xs of Some x \<Rightarrow> Some (f (fst x)) | None \<Rightarrow> hm_get m0 k)"
proof (induction xs arbitrary: m0)
  case (Cons x xs)
  have "find (\<lambda>y. st_name (snd y) = st_name (snd x)) xs = None"
    using Cons.prems by (auto simp: find_None_iff image_iff)
  with Cons show ?case by (auto simp: case_prod_unfold split: option.splits)
qed simp

lemma lp_assign_get:
  assumes "lp_assign solve ts caps hw md = Some m" "distinct (names ts)" "0 < length ts"
  obtains sol where "solve (lp_problem_of ts caps hw md) = Some sol"
    "\<And>i. i < length ts \<Longrightarrow> hm_get m (st_name (ts ! i)) = Some (lp_tier sol i)"
    "\<And>k. k \<notin> set (names ts) \<Longrightarrow> hm_get m k = None"
proof -
  obtain sol where sol: "solve (lp_problem_of ts caps hw md) = Some sol"
    and m: "m = foldl (\<lambda>m (i, t). hm_insert (st_name t) (lp_tier sol i) m) [] (numbered ts)"
    using assms(1,3) by (auto simp: lp_assign_def split: option.splits)
  have "map (\<lambda>x. st_name (snd x)) (numbered ts) = map st_name (map snd (numbered ts))"
    unfolding list.map_comp comp_def ..
  then have "map (\<lambda>x. st_name (snd x)) (numbered ts) = names ts"
    unfolding numbered_snd names_def .
  then have dist: "distinct (map (\<lambda>x. st_name (snd x)) (numbered ts))" using assms(2) by simp
  note get = foldl_insert_get [OF dist, where f = "lp_tier sol" and ?m0.0 = "[]", folded m]
  have 1: "hm_get m (st_name (ts ! i)) = Some (lp_tier sol i)" if i: "i < length ts" for i
  proof -
    have mem: "(i, ts ! i) \<in> set (numbered ts)" using i by (simp add: numbered_nth)
    obtain x where x: "find (\<lambda>x. st_name (snd x) = st_name (ts ! i)) (numbered ts) = Some x"
      using mem by (cases "find (\<lambda>x. st_name (snd x) = st_name (ts ! i)) (numbered ts)")
        (auto simp: find_None_iff)
    then have "x \<in> set (numbered ts)" "st_name (snd x) = st_name (ts ! i)"
      by (auto simp: find_Some_iff)
    then have "fst x < length ts" "st_name (ts ! fst x) = st_name (ts ! i)"
      using numbered_nth [of "fst x" "snd x" ts] by auto
    then have "fst x = i"
      using assms(2) i nth_eq_iff_index_eq [of "names ts" "fst x" i] by (simp add: names_def)
    with x show ?thesis by (simp add: get)
  qed
  have 2: "hm_get m k = None" if "k \<notin> set (names ts)" for k
  proof -
    have "find (\<lambda>x. st_name (snd x) = k) (numbered ts) = None"
      using that by (auto simp: find_None_iff numbered_nth names_def)
    then show ?thesis by (simp add: get)
  qed
  show ?thesis using that sol 1 2 by blast
qed

lemma index_of_Some: "x \<in> set xs \<Longrightarrow> \<exists>j. index_of xs x = Some j \<and> j < length xs \<and> xs ! j = x"
  by (induction xs) auto

text \<open>What a feasible solution says about the variables, extracted once.\<close>

definition lp_solution ::
  "rat \<Rightarrow> scored_tensor list \<Rightarrow> tier_capacities \<Rightarrow> hardware_profile \<Rightarrow> model_metadata \<Rightarrow> (lp_var \<Rightarrow> f64) \<Rightarrow> bool" where
  "lp_solution eps ts caps hw md sol \<longleftrightarrow> 0 \<le> eps \<and> eps \<le> 1 / 10 \<and> (\<forall>x. \<exists>r. sol x = Fin r) \<and>
     feasible_upto eps (lp_problem_of ts caps hw md) sol"

definition v_of :: "(lp_var \<Rightarrow> f64) \<Rightarrow> lp_var \<Rightarrow> rat" where "v_of sol x = f_val (sol x)"

lemma lp_solution_eps: "lp_solution eps ts caps hw md sol \<Longrightarrow> 0 \<le> eps \<and> eps \<le> 1 / 10"
  by (simp add: lp_solution_def)

lemma sol_v: "lp_solution eps ts caps hw md sol \<Longrightarrow> sol x = Fin (v_of sol x)"
proof -
  assume "lp_solution eps ts caps hw md sol"
  then obtain r where "sol x = Fin r" unfolding lp_solution_def by blast
  then show ?thesis by (simp add: v_of_def)
qed

lemma constraint_holds:
  "lp_solution eps ts caps hw md sol \<Longrightarrow> c \<in> set (lp_constraints (lp_problem_of ts caps hw md)) \<Longrightarrow> holds_upto eps (v_of sol) c"
  by (auto simp: lp_solution_def feasible_upto_def list_all_iff v_of_def [abs_def])

lemma binary:
  assumes "lp_solution eps ts caps hw md sol"
  shows "i < length ts \<Longrightarrow> near_binary eps (v_of sol (XGpu i)) \<and> near_binary eps (v_of sol (XRam i)) \<and>
      near_binary eps (v_of sol (XNvme i))"
    and "j < length (layer_indices ts) \<Longrightarrow> near_binary eps (v_of sol (LayerNvme j))"
proof -
  have "list_all (\<lambda>x. near_binary eps (v_of sol x)) (lp_binaries (lp_problem_of ts caps hw md))"
    using assms by (simp add: lp_solution_def feasible_upto_def v_of_def)
  then show "i < length ts \<Longrightarrow> near_binary eps (v_of sol (XGpu i)) \<and> near_binary eps (v_of sol (XRam i)) \<and>
      near_binary eps (v_of sol (XNvme i))"
    "j < length (layer_indices ts) \<Longrightarrow> near_binary eps (v_of sol (LayerNvme j))"
    by (auto simp: list_all_iff lp_problem_of_def Let_def)
qed

lemma one_tier:
  assumes "lp_solution eps ts caps hw md sol" and i: "i < length ts"
  shows "\<bar>v_of sol (XGpu i) + v_of sol (XRam i) + v_of sol (XNvme i) - 1\<bar> \<le> eps"
proof -
  let ?c = "(([(Fin 1, XGpu i), (Fin 1, XRam i), (Fin 1, XNvme i)], Fin 0), Equal, e_const (Fin 1))"
  have "?c \<in> set (lp_constraints (lp_problem_of ts caps hw md))"
    using i by (auto simp: lp_problem_of_def Let_def one_tier_constraints_def)
  from constraint_holds [OF assms(1) this] show ?thesis by (simp add: e_val_def e_const_def algebra_simps)
qed

lemma monotone:
  assumes "lp_solution eps ts caps hw md sol" and j: "0 < j" "j < length (layer_indices ts)"
  shows "v_of sol (LayerNvme (j - 1)) \<le> v_of sol (LayerNvme j) + eps"
proof -
  have "(e_var (LayerNvme j), Geq, e_var (LayerNvme (j - 1))) \<in> set (lp_constraints (lp_problem_of ts caps hw md))"
    using j by (auto simp: lp_problem_of_def Let_def monotone_constraints_def)
  from constraint_holds [OF assms(1) this] show ?thesis by (simp add: e_val_def e_var_def)
qed

lemma link:
  assumes "lp_solution eps ts caps hw md sol" "i < length ts" "st_layer_index (ts ! i) = Some l" "index_of (layer_indices ts) l = Some j"
  shows "\<bar>v_of sol (XNvme i) - v_of sol (LayerNvme j)\<bar> \<le> eps"
proof -
  have "(i, ts ! i) \<in> set (numbered ts)" using assms(2) by (simp add: numbered_nth)
  then have "(e_var (XNvme i), Equal, e_var (LayerNvme j)) \<in> set (link_constraints ts (layer_indices ts))"
    using assms(3,4) by (force simp: link_constraints_def List.map_filter_def image_iff)
  then have "(e_var (XNvme i), Equal, e_var (LayerNvme j)) \<in> set (lp_constraints (lp_problem_of ts caps hw md))"
    by (simp add: lp_problem_of_def Let_def)
  from constraint_holds [OF assms(1) this] show ?thesis by (simp add: e_val_def e_var_def)
qed

lemma tier_values:
  assumes "lp_solution eps ts caps hw md sol" "i < length ts"
  shows "lp_tier sol i = Gpu \<Longrightarrow> 1 - eps \<le> v_of sol (XGpu i)"
    and "lp_tier sol i \<noteq> Gpu \<Longrightarrow> - eps \<le> v_of sol (XGpu i)"
    and "- eps \<le> v_of sol (XGpu i)" and "- eps \<le> v_of sol (XRam i)"
    and "lp_tier sol i = Ram \<Longrightarrow> 1 - eps \<le> v_of sol (XRam i)"
    and "lp_tier sol i = Nvme \<Longrightarrow> 1 - 3 * eps \<le> v_of sol (XNvme i)"
    and "lp_tier sol i \<noteq> Nvme \<Longrightarrow> v_of sol (XNvme i) \<le> 3 * eps"
  using binary(1) [OF assms] one_tier [OF assms] lp_solution_eps [OF assms(1)]
  by (auto simp: lp_tier_def sol_v [OF assms(1)] near_binary_def abs_le_iff split: if_splits)

lemma layer_values:
  assumes "lp_solution eps ts caps hw md sol" "i < length ts" "st_layer_index (ts ! i) = Some l" "index_of (layer_indices ts) l = Some j"
    "j < length (layer_indices ts)"
  shows "lp_tier sol i = Nvme \<Longrightarrow> 1 - eps \<le> v_of sol (LayerNvme j)"
    and "lp_tier sol i \<noteq> Nvme \<Longrightarrow> v_of sol (LayerNvme j) \<le> eps"
proof -
  note lk = link [OF assms(1-4), unfolded abs_le_iff] and bin = binary(2) [OF assms(1,5), unfolded near_binary_def abs_le_iff]
  show "1 - eps \<le> v_of sol (LayerNvme j)" if "lp_tier sol i = Nvme"
    using tier_values(6) [OF assms(1,2) that] lk bin lp_solution_eps [OF assms(1)] by linarith
  show "v_of sol (LayerNvme j) \<le> eps" if "lp_tier sol i \<noteq> Nvme"
    using tier_values(7) [OF assms(1,2) that] lk bin lp_solution_eps [OF assms(1)] by linarith
qed

lemma once_nvme_stays:
  "lp_solution eps ts caps hw md sol \<Longrightarrow> j \<le> k \<Longrightarrow> k < length (layer_indices ts) \<Longrightarrow> 1 - eps \<le> v_of sol (LayerNvme j) \<Longrightarrow> 1 - eps \<le> v_of sol (LayerNvme k)"
proof (induction k)
  case (Suc k)
  show ?case
  proof (cases "j = Suc k")
    case False
    with Suc have "1 - eps \<le> v_of sol (LayerNvme k)" by simp
    then show ?thesis
      using monotone [OF Suc.prems(1), of "Suc k"] binary(2) [OF Suc.prems(1), of "Suc k"] Suc.prems(3)
        lp_solution_eps [OF Suc.prems(1)]
      by (auto simp: near_binary_def abs_le_iff)
  qed (use Suc in simp)
qed simp

lemma contiguous:
  assumes S: "lp_solution eps ts caps hw md sol"
    and assms': "i < length ts" "st_layer_index (ts ! i) = Some l" "lp_tier sol i \<noteq> Nvme"
    and kk: "k < length ts" "st_layer_index (ts ! k) = Some l'" "lp_tier sol k = Nvme"
  shows "l < l'"
proof -
  let ?L = "layer_indices ts"
  have "l \<in> set ?L" "l' \<in> set ?L"
    using assms'(1,2) kk(1,2) by (force simp: layer_indices_def List.map_filter_def image_iff dest: nth_mem)+
  then obtain j j' where j: "index_of ?L l = Some j" "j < length ?L" "?L ! j = l"
    and j': "index_of ?L l' = Some j'" "j' < length ?L" "?L ! j' = l'"
    using index_of_Some by metis
  have low: "v_of sol (LayerNvme j) \<le> eps" by (rule layer_values(2) [OF S assms'(1,2) j(1,2) assms'(3)])
  have high: "1 - eps \<le> v_of sol (LayerNvme j')" by (rule layer_values(1) [OF S kk(1,2) j'(1,2) kk(3)])
  have "\<not> j' \<le> j"
    using once_nvme_stays [OF S _ j(2) high] low lp_solution_eps [OF S] by linarith
  then show ?thesis
    using sorted_wrt_nth_less [of "(<)" ?L j j'] j j'
    by (simp add: layer_indices_def)
qed

lemma capacity:
  assumes S: "lp_solution eps ts caps hw md sol"
    and sizes: "\<And>t. t \<in> set ts \<Longrightarrow> unat (st_size_bytes t) \<le> 2 ^ 53"
    and caps53: "unat (tc_gpu_bytes caps) \<le> 2 ^ 53" "unat (tc_unified_limit caps) \<le> 2 ^ 53"
    and tiers: "\<And>i. i < length ts \<Longrightarrow> hm_get m (st_name (ts ! i)) = Some (lp_tier sol i)"
  shows "of_nat (placed m Gpu ts) \<le> of_nat (unat (tc_gpu_bytes caps)) + eps * (1 + of_nat (bytes ts))"
    and "of_nat (placed m Gpu ts + placed m Ram ts) \<le>
      of_nat (unat (tc_unified_limit caps)) + eps * (1 + 2 * of_nat (bytes ts))"
proof -
  define sz :: "scored_tensor \<Rightarrow> rat" where "sz t = of_nat (unat (st_size_bytes t))" for t
  have szv: "f_val (f_of_word (st_size_bytes t)) = sz t" if "t \<in> set ts" for t
    using sizes [OF that] by (simp add: f_of_word_def f_of_nat_exact sz_def del: of_nat_unat)
  have capv: "f_val (f_of_word (tc_gpu_bytes caps)) = of_nat (unat (tc_gpu_bytes caps))"
    "f_val (f_of_word (tc_unified_limit caps)) = of_nat (unat (tc_unified_limit caps))"
    using caps53 by (simp_all add: f_of_word_def f_of_nat_exact del: of_nat_unat)
  have sums: "of_nat (placed m Gpu (map snd xs)) \<le> (\<Sum>(i, t)\<leftarrow>xs. sz t * v_of sol (XGpu i)) + eps * of_nat (bytes (map snd xs)) \<and>
     of_nat (placed m Gpu (map snd xs)) + of_nat (placed m Ram (map snd xs)) \<le>
       (\<Sum>(i, t)\<leftarrow>xs. sz t * v_of sol (XGpu i) + sz t * v_of sol (XRam i)) + 2 * eps * of_nat (bytes (map snd xs))"
    if "set xs \<subseteq> set (numbered ts)" for xs
    using that
  proof (induction xs)
    case (Cons x xs)
    obtain i t where x: "x = (i, t)" by (cases x)
    with Cons.prems have i: "i < length ts" "t = ts ! i" by (auto simp: numbered_nth)
    note vals = tier_values [OF S i(1)] and tier = tiers [OF i(1), folded i(2)]
    have sz0: "0 \<le> sz t" unfolding sz_def by (rule of_nat_0_le_iff)
    have g: "(if lp_tier sol i = Gpu then sz t else 0) \<le> sz t * v_of sol (XGpu i) + eps * sz t"
    proof (cases "lp_tier sol i = Gpu")
      case True
      then have "sz t * (1 - eps) \<le> sz t * v_of sol (XGpu i)" using vals(1) sz0 by (intro mult_left_mono) auto
      with True show ?thesis by (simp add: algebra_simps)
    next
      case False
      have "sz t * (- eps) \<le> sz t * v_of sol (XGpu i)" using vals(3) sz0 by (intro mult_left_mono) auto
      with False show ?thesis by (simp add: algebra_simps)
    qed
    have r: "(if lp_tier sol i = Ram then sz t else 0) \<le> sz t * v_of sol (XRam i) + eps * sz t"
    proof (cases "lp_tier sol i = Ram")
      case True
      then have "sz t * (1 - eps) \<le> sz t * v_of sol (XRam i)" using vals(5) sz0 by (intro mult_left_mono) auto
      with True show ?thesis by (simp add: algebra_simps)
    next
      case False
      have "sz t * (- eps) \<le> sz t * v_of sol (XRam i)" using vals(4) sz0 by (intro mult_left_mono) auto
      with False show ?thesis by (simp add: algebra_simps)
    qed
    have IH: "of_nat (placed m Gpu (map snd xs)) \<le> (\<Sum>(i, t)\<leftarrow>xs. sz t * v_of sol (XGpu i)) + eps * of_nat (bytes (map snd xs))"
      "of_nat (placed m Gpu (map snd xs)) + of_nat (placed m Ram (map snd xs)) \<le>
       (\<Sum>(i, t)\<leftarrow>xs. sz t * v_of sol (XGpu i) + sz t * v_of sol (XRam i)) + 2 * eps * of_nat (bytes (map snd xs))"
      using Cons by auto
    show ?case
      using g r IH tier by (auto simp: x sz_def algebra_simps simp del: of_nat_unat)
  qed simp
  let ?G = "\<Sum>(i, t)\<leftarrow>numbered ts. sz t * v_of sol (XGpu i)"
  let ?U = "\<Sum>(i, t)\<leftarrow>numbered ts. sz t * v_of sol (XGpu i) + sz t * v_of sol (XRam i)"
  have evg: "e_val (v_of sol) (map (\<lambda>(i, t). (f_of_word (st_size_bytes t), XGpu i)) (numbered ts), Fin 0) = ?G"
    unfolding e_val_def by (auto simp: comp_def case_prod_unfold numbered_nth szv intro!: arg_cong [where f = sum_list])
  have evu: "e_val (v_of sol) (concat (map (\<lambda>(i, t). [(f_of_word (st_size_bytes t), XGpu i), (f_of_word (st_size_bytes t), XRam i)]) xs), Fin 0) =
      (\<Sum>(i, t)\<leftarrow>xs. sz t * v_of sol (XGpu i) + sz t * v_of sol (XRam i))" if "set xs \<subseteq> set (numbered ts)" for xs
    using that by (induction xs) (auto simp: e_val_def numbered_nth szv)
  have "?G \<le> of_nat (unat (tc_gpu_bytes caps)) + eps"
    using constraint_holds [OF S, of "((map (\<lambda>(i, t). (f_of_word (st_size_bytes t), XGpu i)) (numbered ts), Fin 0), Leq,
        e_const (f_of_word (tc_gpu_bytes caps)))"] evg capv(1)
    by (simp add: lp_problem_of_def Let_def capacity_constraints_def) (simp add: e_val_def e_const_def)
  moreover have "?U \<le> of_nat (unat (tc_unified_limit caps)) + eps"
    using constraint_holds [OF S, of "((concat (map (\<lambda>(i, t). [(f_of_word (st_size_bytes t), XGpu i), (f_of_word (st_size_bytes t), XRam i)])
          (numbered ts)), Fin 0), Leq, e_const (f_of_word (tc_unified_limit caps)))"] evu [OF order.refl] capv(2)
    by (simp add: lp_problem_of_def Let_def capacity_constraints_def) (simp add: e_val_def e_const_def)
  ultimately show "of_nat (placed m Gpu ts) \<le> of_nat (unat (tc_gpu_bytes caps)) + eps * (1 + of_nat (bytes ts))"
    "of_nat (placed m Gpu ts + placed m Ram ts) \<le>
      of_nat (unat (tc_unified_limit caps)) + eps * (1 + 2 * of_nat (bytes ts))"
    using sums [OF order.refl] by (simp_all add: algebra_simps)
qed


text \<open>C11. The solver's placement is read back safely: from any solver whose answers satisfy the
  program up to a tolerance of at most a tenth, every tensor gets exactly one tier, resident
  layers strictly precede NVMe layers, and the GPU bytes and the unified limit are respected
  up to the tolerance (exactly, when the tolerance is zero).\<close>

theorem lp_placement:
  assumes solver: "sound_solver eps solve" and eps: "0 \<le> eps" "eps \<le> 1 / 10"
    and ok: "lp_assign solve ts caps hw md = Some m" and dist: "distinct (names ts)"
    and sizes: "\<forall>t \<in> set ts. unat (st_size_bytes t) \<le> 2 ^ 53"
    and caps53: "unat (tc_gpu_bytes caps) \<le> 2 ^ 53" "unat (tc_unified_limit caps) \<le> 2 ^ 53"
  shows "set (hm_keys m) = set (names ts) \<and>
    (\<forall>t \<in> set ts. \<forall>u \<in> set ts. \<forall>l k. st_layer_index t = Some l \<and> st_layer_index u = Some k \<and>
        hm_get m (st_name t) \<noteq> Some Nvme \<and> hm_get m (st_name u) = Some Nvme \<longrightarrow> l < k) \<and>
    of_nat (placed m Gpu ts) \<le> of_nat (unat (tc_gpu_bytes caps)) + eps * (1 + of_nat (bytes ts)) \<and>
    of_nat (placed m Gpu ts + placed m Ram ts) \<le>
      of_nat (unat (tc_unified_limit caps)) + eps * (1 + 2 * of_nat (bytes ts))"
proof (cases "ts = []")
  case True
  have "0 \<le> (of_nat (unat w) :: rat) + eps" for w :: u64
    using eps(1) by (intro add_nonneg_nonneg of_nat_0_le_iff)
  with True ok show ?thesis by (auto simp: lp_assign_def hm_keys_def)
next
  case False
  then have "0 < length ts" by simp
  from lp_assign_get [OF ok dist this] obtain sol where sol: "solve (lp_problem_of ts caps hw md) = Some sol"
    and get: "\<And>i. i < length ts \<Longrightarrow> hm_get m (st_name (ts ! i)) = Some (lp_tier sol i)"
    and other: "\<And>k. k \<notin> set (names ts) \<Longrightarrow> hm_get m k = None"
    by blast
  have S: "lp_solution eps ts caps hw md sol"
    using solver sol eps by (simp add: sound_solver_def lp_solution_def)
  have keys: "set (hm_keys m) = set (names ts)"
  proof -
    have "hm_get m k \<noteq> None" if k: "k \<in> set (names ts)" for k
    proof -
      obtain i where "i < length ts" "k = st_name (ts ! i)"
        using k by (auto simp: names_def in_set_conv_nth)
      then show ?thesis by (simp add: get)
    qed
    with other have "k \<in> set (hm_keys m) \<longleftrightarrow> k \<in> set (names ts)" for k
      by (cases "k \<in> set (names ts)") (simp_all add: set_hm_keys domIff)
    then show ?thesis by (intro set_eqI)
  qed
  have contig: "\<forall>t \<in> set ts. \<forall>u \<in> set ts. \<forall>l k. st_layer_index t = Some l \<and> st_layer_index u = Some k \<and>
      hm_get m (st_name t) \<noteq> Some Nvme \<and> hm_get m (st_name u) = Some Nvme \<longrightarrow> l < k"
  proof (intro ballI allI impI)
    fix t u l k
    assume tu: "t \<in> set ts" "u \<in> set ts" and h: "st_layer_index t = Some l \<and> st_layer_index u = Some k \<and>
      hm_get m (st_name t) \<noteq> Some Nvme \<and> hm_get m (st_name u) = Some Nvme"
    obtain i j where i: "i < length ts" "t = ts ! i" and j: "j < length ts" "u = ts ! j"
      using tu unfolding in_set_conv_nth by blast
    then have "lp_tier sol i \<noteq> Nvme" "lp_tier sol j = Nvme" using h get by auto
    with h i j show "l < k" using contiguous [OF S, of i l j k] by simp
  qed
  note cap = capacity [OF S _ caps53 get]
  from keys contig cap sizes show ?thesis by blast
qed

text \<open>A solver with one answer: everything on NVMe.\<close>

definition nvme_solution :: "lp_var \<Rightarrow> f64" where
  "nvme_solution x = (case x of XNvme _ \<Rightarrow> Fin 1 | LayerNvme _ \<Rightarrow> Fin 1 | LayerCost _ \<Rightarrow> Fin (2 ^ 20) | _ \<Rightarrow> Fin 0)"

definition checking_solver :: "solver" where
  "checking_solver p = (if feasible_upto 0 p nvme_solution then Some nvme_solution else None)"

lemma sound_checking_solver: "sound_solver 0 checking_solver"
  by (auto simp: sound_solver_def checking_solver_def nvme_solution_def split: lp_var.splits)


definition lp_hw :: hardware_profile where
  "lp_hw = hw_32g\<lparr>hw_memory := \<lparr>mp_total_bytes = 34359738368, mp_available_bytes = 30064771072,
       mp_bandwidth_bytes_per_sec = 137438953472, mp_is_unified = True\<rparr>,
     hw_gpu := Some \<lparr>gp_name = ''Test GPU'', gp_vram_bytes = 17179869184,
       gp_bandwidth_bytes_per_sec = 137438953472, gp_fp16_tflops = Fin 0, gp_backend = Metal\<rparr>\<rparr>"

definition lp_caps :: tier_capacities where
  "lp_caps = caps_2g\<lparr>tc_nvme_peak_bw := 4294967296\<rparr>"

definition one_layer :: "scored_tensor list" where
  "one_layer = [\<lparr>st_name = ''blk.0.attn_q.weight'', st_size_bytes = 1073741824, st_score = Fin 1,
     st_access_freq = Fin 1, st_layer_index = Some 0, st_role = AttentionQuery\<rparr>]"

lemma one_layer_feasible: "feasible_upto 0 (lp_problem_of one_layer lp_caps lp_hw dense_md) nvme_solution"
proof -
  have indices: "layer_indices one_layer = [0]" by (simp add: layer_indices_def one_layer_def List.map_filter_def)
  note indices' = indices [unfolded one_layer_def]
  have w: "f_of_word (1073741824 :: u64) = Fin 1073741824" "f_of_word (4294967296 :: u64) = Fin 4294967296"
    "f_of_word (2147483648 :: u64) = Fin 2147483648"
    by (simp_all add: f_of_word_def f_of_nat_exact)
  have q: "rnd (1 / 4) = Fin (1 / 4)" "rnd 1073741824 = Fin 1073741824"
    using rnd_pow [of "- 2"] rnd_pow [of 30] by simp_all
  show ?thesis
    unfolding one_layer_def
    by (simp add: feasible_upto_def lp_problem_of_def Let_def indices' numbered_def
        cost_constraints_def one_tier_constraints_def capacity_constraints_def monotone_constraints_def
        link_constraints_def compute_expr_def io_expr_def in_layer_def e_var_def e_const_def e_val_def
        nvme_solution_def near_binary_def lp_caps_def caps_2g_def dense_md_def moe_md_def eff_weight_def
        effective_io_freq_def w q List.map_filter_def)
qed
theorem lp_placement_witness:
  "\<exists>m. lp_assign checking_solver one_layer lp_caps lp_hw dense_md = Some m \<and>
     of_nat (placed m Gpu one_layer) \<le> (1073741824 :: rat)"
proof -
  let ?ts = one_layer
  have dist: "distinct (names ?ts)" by (simp add: one_layer_def)
  have "0 < length ?ts" by (simp add: one_layer_def)
  then obtain m where m: "lp_assign checking_solver ?ts lp_caps lp_hw dense_md = Some m"
    using one_layer_feasible by (simp add: lp_assign_def checking_solver_def)
  have sizes: "\<forall>t \<in> set ?ts. unat (st_size_bytes t) \<le> 2 ^ 53"
    by (simp add: one_layer_def)
  have caps: "unat (tc_gpu_bytes lp_caps) \<le> 2 ^ 53" "unat (tc_unified_limit lp_caps) \<le> 2 ^ 53"
    by (simp_all add: lp_caps_def caps_2g_def)
  show ?thesis
    using lp_placement [OF sound_checking_solver _ _ m dist sizes caps] m
    by (auto simp: lp_caps_def caps_2g_def)
qed

end
