(* ===== verification/Plan.thy ===== *)
theory Plan
  imports Lp
begin

unbundle bit_operations_syntax

text \<open>
  Model of \<open>src/scheduler/prefetch.rs\<close> and of the end of \<open>src/scheduler/placement.rs\<close>: the
  prefetch schedule, the latency estimate, the placement summary, and
  \<open>compute_placement_with_context\<close>, which tries the streaming placements, the solver and the
  greedy placement in turn.  The solver and the JSON text of the hardware profile are
  parameters.
\<close>

definition tier_of :: "tier_map \<Rightarrow> string \<Rightarrow> storage_tier" where
  "tier_of m name = unwrap_or (hm_get m name) Nvme"

definition gpu_bandwidth :: "hardware_profile \<Rightarrow> f64" where
  "gpu_bandwidth hw = (case hw_gpu hw of None \<Rightarrow> Fin 1000000000 | Some g \<Rightarrow> f_of_word (gp_bandwidth_bytes_per_sec g))"

definition nvme_bandwidth :: "hardware_profile \<Rightarrow> f64" where
  "nvme_bandwidth hw = unwrap_or (map_option (\<lambda>s. f_of_word (bc_peak_sequential (sp_sequential_read s)))
     (first (hw_storage hw))) (Fin 3000000000)"

section \<open>Prefetch schedule\<close>

definition layer_tensors :: "tensor_info list \<Rightarrow> nat \<Rightarrow> tensor_info list" where
  "layer_tensors tensors idx = filter (\<lambda>t. ti_layer_index t = Some (of_nat idx)) tensors"

definition compute_time :: "tier_map \<Rightarrow> f64 \<Rightarrow> tensor_info list \<Rightarrow> f64" where
  "compute_time m gpu_bw layer =
     f_div (f_of_word (sum_list (map ti_size_bytes (filter (\<lambda>t. hm_get m (ti_name t) = Some Gpu) layer)))) gpu_bw"

definition lead_time :: "nat \<Rightarrow> f64 \<Rightarrow> f64 \<Rightarrow> u32" where
  "lead_time layer_idx prev_compute load_time =
     (if 0 < layer_idx then
        (if f_le load_time prev_compute then 1
         else if f_lt (Fin 0) prev_compute then f_to_word (f_ceil (f_div load_time prev_compute))
         else 1)
      else 0)"

definition layer_prefetch :: "tier_map \<Rightarrow> f64 \<Rightarrow> f64 \<Rightarrow> tensor_info list \<Rightarrow> nat \<Rightarrow> prefetch_op list" where
  "layer_prefetch m gpu_bw nvme_bw tensors layer_idx =
     map (\<lambda>t. \<lparr>po_tensor_name = ti_name t, po_source_tier = Nvme, po_target_tier = Ram,
               po_size_bytes = ti_size_bytes t,
               po_lead_time_layers = lead_time layer_idx
                 (compute_time m gpu_bw (layer_tensors tensors (layer_idx - 1)))
                 (f_div (f_of_word (ti_size_bytes t)) nvme_bw)\<rparr>)
       (filter (\<lambda>t. tier_of m (ti_name t) = Nvme) (layer_tensors tensors layer_idx))"

definition build_prefetch_schedule ::
  "tier_map \<Rightarrow> tensor_info list \<Rightarrow> model_metadata \<Rightarrow> hardware_profile \<Rightarrow> prefetch_schedule" where
  "build_prefetch_schedule m tensors md hw =
     (let num_layers = unat (mm_num_layers md)
      in \<lparr>ps_layer_prefetches =
           map (layer_prefetch m (gpu_bandwidth hw) (nvme_bandwidth hw) tensors) [0..<num_layers]\<rparr>)"

section \<open>Latency estimate\<close>

definition role_freq :: "model_metadata \<Rightarrow> tensor_info \<Rightarrow> f64" where
  "role_freq md t = access_frequency (role_from_name (ti_name t))
     (unwrap_or (mm_num_experts_used md) 1) (unwrap_or (mm_num_experts md) 1)"

definition transfer :: "tensor_info \<Rightarrow> f64 \<Rightarrow> f64 \<Rightarrow> f64" where
  "transfer t freq bw = f_div (f_mul (f_of_word (ti_size_bytes t)) freq) bw"

definition layer_step :: "tier_map \<Rightarrow> model_metadata \<Rightarrow> f64 \<Rightarrow> f64 \<Rightarrow> f64 \<Rightarrow> tensor_info \<Rightarrow> f64 \<times> f64 \<Rightarrow> f64 \<times> f64" where
  "layer_step m md gpu_bw ram_bw nvme_bw t acc =
     (let freq = role_freq md t; (layer_compute, layer_io) = acc in
      case tier_of m (ti_name t) of
        Gpu \<Rightarrow> (f_add layer_compute (transfer t freq gpu_bw), layer_io)
      | Ram \<Rightarrow> (f_add layer_compute (transfer t freq ram_bw), layer_io)
      | Nvme \<Rightarrow> (layer_compute, f_add layer_io
          (transfer t (effective_io_freq (role_from_name (ti_name t)) freq (mm_is_moe md)) nvme_bw)))"

fun estimate_layers ::
  "tier_map \<Rightarrow> tensor_info list \<Rightarrow> model_metadata \<Rightarrow> f64 \<Rightarrow> f64 \<Rightarrow> f64 \<Rightarrow> nat list \<Rightarrow> f64 \<Rightarrow> f64 \<Rightarrow> f64" where
  "estimate_layers m tensors md gpu_bw ram_bw nvme_bw [] total_latency prev_compute = total_latency"
| "estimate_layers m tensors md gpu_bw ram_bw nvme_bw (idx # idxs) total_latency prev_compute =
     (let (layer_compute, layer_io) =
            fold (layer_step m md gpu_bw ram_bw nvme_bw) (layer_tensors tensors idx) (Fin 0, Fin 0);
          effective_io = f_max (f_sub layer_io prev_compute) (Fin 0);
          layer_latency = f_add (f_max layer_compute effective_io) sync_secs
      in estimate_layers m tensors md gpu_bw ram_bw nvme_bw idxs (f_add total_latency layer_latency) layer_compute)"

definition non_layer_transfer :: "tier_map \<Rightarrow> model_metadata \<Rightarrow> f64 \<Rightarrow> f64 \<Rightarrow> f64 \<Rightarrow> tensor_info \<Rightarrow> f64" where
  "non_layer_transfer m md gpu_bw ram_bw nvme_bw t =
     transfer t (role_freq md t)
       (case tier_of m (ti_name t) of Gpu \<Rightarrow> gpu_bw | Ram \<Rightarrow> ram_bw | Nvme \<Rightarrow> nvme_bw)"

definition quick_estimate :: "tier_map \<Rightarrow> tensor_info list \<Rightarrow> model_metadata \<Rightarrow> hardware_profile \<Rightarrow> f64" where
  "quick_estimate m tensors md hw =
     (let gpu_bw = gpu_bandwidth hw;
          ram_bw = f_of_word (mp_bandwidth_bytes_per_sec (hw_memory hw));
          nvme_bw = nvme_bandwidth hw;
          layers = estimate_layers m tensors md gpu_bw ram_bw nvme_bw [0..<unat (mm_num_layers md)] (Fin 0) (Fin 0);
          total = foldl (\<lambda>acc t. f_add acc (non_layer_transfer m md gpu_bw ram_bw nvme_bw t)) layers
            (filter (\<lambda>t. ti_layer_index t = None) tensors)
      in if f_lt (Fin 0) total then f_div (Fin 1) total else Fin 0)"

section \<open>Summary\<close>

definition count_layers :: "tier_map \<Rightarrow> storage_tier \<Rightarrow> tensor_info list \<Rightarrow> u32" where
  "count_layers m tier tensors =
     of_nat (length (remdups (List.map_filter ti_layer_index (filter (\<lambda>t. tier_of m (ti_name t) = tier) tensors))))"

definition tier_total :: "tier_map \<Rightarrow> storage_tier \<Rightarrow> tensor_info list \<Rightarrow> u64" where
  "tier_total m tier tensors = sum_list (map ti_size_bytes (filter (\<lambda>t. tier_of m (ti_name t) = tier) tensors))"

definition summarize_placement :: "tier_map \<Rightarrow> tensor_info list \<Rightarrow> placement_summary" where
  "summarize_placement m tensors =
     \<lparr>sm_layers_on_gpu = count_layers m Gpu tensors, sm_layers_in_ram = count_layers m Ram tensors,
      sm_layers_on_nvme = count_layers m Nvme tensors, sm_total_gpu_bytes = tier_total m Gpu tensors,
      sm_total_ram_bytes = tier_total m Ram tensors, sm_total_nvme_bytes = tier_total m Nvme tensors\<rparr>"

section \<open>The plan\<close>

definition plan_context :: "u32 \<Rightarrow> model_metadata \<Rightarrow> u32" where
  "plan_context context_length md =
     (if 0 < context_length then min context_length (max (mm_context_length md) 2048)
      else min (max (mm_context_length md) 2048) 8192)"

definition choose_placement ::
  "solver \<Rightarrow> scored_tensor list \<Rightarrow> tier_capacities \<Rightarrow> hardware_profile \<Rightarrow> model_metadata \<Rightarrow>
   (tier_map \<times> inference_mode) outcome" where
  "choose_placement solve scored caps hw md =
     (case try_sparse_moe_mmap scored caps md of
        Some m \<Rightarrow> Ret (m, SparseMoeMmap)
      | None \<Rightarrow>
          obind (try_expert_streaming_assign scored caps md) (\<lambda>es. case es of
            Some m \<Rightarrow> Ret (m, ExpertStreaming)
          | None \<Rightarrow>
              obind (try_dense_ffn_streaming_assign scored caps md) (\<lambda>ds. case ds of
                Some m \<Rightarrow> Ret (m, DenseFfnStreaming)
              | None \<Rightarrow>
                  omap (\<lambda>m. (m, if list_ex (\<lambda>e. snd e = Nvme) m then FullStreaming else FullResident))
                    (case lp_assign solve scored caps hw md of
                       Some m \<Rightarrow> Ret m
                     | None \<Rightarrow> greedy_assign scored caps hw md))))"

definition fnv1a :: "string \<Rightarrow> u64" where
  "fnv1a json = foldl (\<lambda>h b. (h XOR of_nat (of_char b)) * 0x100000001b3) 0xcbf29ce484222325 json"

definition hex_char :: "nat \<Rightarrow> char" where
  "hex_char d = (if d < 10 then char_of (48 + d) else char_of (87 + d))"

fun hex :: "nat \<Rightarrow> string" where
  "hex n = (if n < 16 then [hex_char n] else hex (n div 16) @ [hex_char (n mod 16)])"

definition compute_placement_with_context ::
  "solver \<Rightarrow> ((string \<times> u32) list \<Rightarrow> (string \<times> u32) list) \<Rightarrow> string \<Rightarrow> gguf_file \<Rightarrow> hardware_profile \<Rightarrow> u32 \<Rightarrow>
   placement_plan outcome" where
  "compute_placement_with_context solve ord json model hw context_length =
     (let md = from_gguf ord model;
          ctx = plan_context context_length md;
          caps = compute_tier_capacities hw md ctx;
          scored = score_tensors (gf_tensors model) md
      in omap (\<lambda>(m, mode).
           let schedule = build_prefetch_schedule m (gf_tensors model) md hw;
               kv = compute_kv_cache_plan md ctx m caps;
               tps = quick_estimate m (gf_tensors model) md hw
           in \<lparr>pp_model_id = unwrap_or (get_string model ''general.name'') ''unknown'',
               pp_hardware_profile_hash = hex (unat (fnv1a json)),
               pp_tier_assignments = m, pp_prefetch_schedule = schedule,
               pp_estimated_tok_per_sec = tps, pp_estimated_time_to_first_token = Fin (1/2),
               pp_kv_cache_plan = kv, pp_experience_tier = from_tok_per_sec tps,
               pp_inference_mode = mode\<rparr>)
         (choose_placement solve scored caps hw md))"

definition compute_placement ::
  "solver \<Rightarrow> ((string \<times> u32) list \<Rightarrow> (string \<times> u32) list) \<Rightarrow> string \<Rightarrow> gguf_file \<Rightarrow> hardware_profile \<Rightarrow>
   placement_plan outcome" where
  "compute_placement solve ord json model hw = compute_placement_with_context solve ord json model hw 0"


section \<open>Schedule: properties\<close>

lemma lead_time_first: "lead_time 0 c l = 0"
  by (simp add: lead_time_def)

lemma lead_time_later:
  assumes "0 < idx" "f_in k load_time"
  shows "1 \<le> lead_time idx prev load_time"
proof (cases "\<not> f_le load_time prev \<and> f_lt (Fin 0) prev")
  case True
  obtain l where l: "load_time = Fin l" "0 \<le> l" using assms(2) by (auto simp: f_in_def)
  with True obtain p where p: "prev = Fin p" "0 < p" "p < l" by (cases prev) auto
  have "f_le (Fin 1) (rnd (l / p))"
  proof (cases "rnd (l / p)")
    case (Fin q)
    have "1 \<le> l / p" using p by simp
    moreover have "rnd 1 = Fin 1" using rnd_int [of 1] by simp
    ultimately show ?thesis using rnd_mono [of 1 "l / p" q] Fin by auto
  next
    case NegInf
    moreover have "\<not> l / p < 0" using p by (simp add: not_less)
    ultimately show ?thesis by (simp add: rnd_def Let_def split: if_splits)
  qed (simp_all add: rnd_def Let_def split: if_splits)
  then have "1 \<le> (f_to_word (f_ceil (rnd (l / p))) :: u32)"
  proof (cases "rnd (l / p)")
    case (Fin q)
    with \<open>f_le (Fin 1) (rnd (l / p))\<close> have q: "1 \<le> \<lceil>q\<rceil>" by simp
    show ?thesis
    proof (cases "(2 :: rat) ^ 32 \<le> of_int \<lceil>q\<rceil>")
      case True
      with Fin q show ?thesis by simp
    next
      case False
      then have "of_int \<lceil>q\<rceil> < (of_int (2 ^ 32) :: rat)" by simp
      then have "\<lceil>q\<rceil> < 2 ^ 32" by (simp only: of_int_less_iff)
      then have "uint (of_int \<lceil>q\<rceil> :: u32) = \<lceil>q\<rceil>"
        using q by (simp only: uint_word_of_int mod_pos_pos_trivial) simp
      with False Fin q show ?thesis by (simp add: word_le_def)
    qed
  qed auto
  with True l p assms(1) show ?thesis by (simp add: lead_time_def)
qed (use assms(1) in \<open>auto simp: lead_time_def\<close>)

text \<open>C35. The prefetch schedule is complete and timely: it has an entry for every layer; the
  entry of a layer names exactly the tensors of the layer that are not in memory, in model
  order, each read from NVMe into RAM with its own size; and with a working NVMe rate every
  load of a layer after the first starts at least one layer ahead.\<close>

theorem prefetch_schedule_complete:
  assumes "idx < unat (mm_num_layers md)" "\<exists>b :: u64. 0 < b \<and> nvme_bandwidth hw = f_of_word b"
  shows "let sched = ps_layer_prefetches (build_prefetch_schedule m tensors md hw) in
    length sched = unat (mm_num_layers md) \<and>
    map po_tensor_name (sched ! idx) =
      map ti_name (filter (\<lambda>t. tier_of m (ti_name t) = Nvme) (layer_tensors tensors idx)) \<and>
    map po_size_bytes (sched ! idx) =
      map ti_size_bytes (filter (\<lambda>t. tier_of m (ti_name t) = Nvme) (layer_tensors tensors idx)) \<and>
    (\<forall>op \<in> set (sched ! idx). po_source_tier op = Nvme \<and> po_target_tier op = Ram \<and>
       (0 < idx \<longrightarrow> 1 \<le> po_lead_time_layers op) \<and> (idx = 0 \<longrightarrow> po_lead_time_layers op = 0))"
proof -
  obtain b :: u64 where b: "0 < b" "nvme_bandwidth hw = f_of_word b" using assms(2) by blast
  obtain r where r: "f_of_word b = Fin r" "1 \<le> r" using f_of_word_pos [OF b(1)] by auto
  have load: "f_in 64 (f_div (f_of_word (ti_size_bytes t)) (nvme_bandwidth hw))" for t
    using f_in_of_word [of "ti_size_bytes t"] r b(2) by (intro f_in_div) auto
  show ?thesis
    using assms(1)
    by (auto simp: build_prefetch_schedule_def Let_def layer_prefetch_def comp_def
        lead_time_first intro: lead_time_later [OF _ load])
qed

theorem prefetch_schedule_complete_witness:
  "length (ps_layer_prefetches (build_prefetch_schedule [] [mk_tensor_info ''blk.1.ffn_up.weight'' [4096] 0 0] moe_md hw_32g)) = 32 \<and>
   map po_tensor_name (ps_layer_prefetches (build_prefetch_schedule [] [mk_tensor_info ''blk.1.ffn_up.weight'' [4096] 0 0] moe_md hw_32g) ! 1)
     = [''blk.1.ffn_up.weight'']"
proof -
  let ?t = "mk_tensor_info ''blk.1.ffn_up.weight'' [4096] 0 0"
  have t: "ti_layer_index ?t = Some 1" "ti_name ?t = ''blk.1.ffn_up.weight''" by code_simp+
  have "\<exists>b :: u64. 0 < b \<and> nvme_bandwidth hw_32g = f_of_word b"
    by (rule exI [of _ 5000000000]) (simp add: nvme_bandwidth_def hw_32g_def)
  then show ?thesis
    using prefetch_schedule_complete [of 1 moe_md hw_32g "[]" "[?t]"]
    by (simp add: moe_md_def layer_tensors_def t tier_of_def Let_def)
qed

section \<open>Summary: properties\<close>

text \<open>The placement summary accounts for every byte: the three tier totals add up to the
  bytes of all tensors, whatever the assignment, tensors without one counting as NVMe.\<close>

theorem summary_accounts_for_all:
  "sm_total_gpu_bytes (summarize_placement m ts) + sm_total_ram_bytes (summarize_placement m ts) +
   sm_total_nvme_bytes (summarize_placement m ts) = sum_list (map ti_size_bytes ts)"
proof -
  have "tier_total m Gpu ts + tier_total m Ram ts + tier_total m Nvme ts = sum_list (map ti_size_bytes ts)"
  proof (induction ts)
    case (Cons t ts)
    then show ?case
      by (cases "tier_of m (ti_name t)") (simp_all add: tier_total_def algebra_simps)
  qed (simp add: tier_total_def)
  then show ?thesis by (simp add: summarize_placement_def)
qed

section \<open>The plan: properties\<close>

lemma names_score_tensors: "names (score_tensors ts md) = map ti_name ts"
  by (simp add: names_def score_tensors_def score_tensor_def Let_def)

lemma role_score_tensors: "st_role (score_tensor u n t) = role_from_name (ti_name t)"
  by (simp add: score_tensor_def Let_def)

lemma bytes_score_tensors: "bytes (score_tensors ts md) = sum_list (map (\<lambda>t. unat (ti_size_bytes t)) ts)"
  by (simp add: bytes_def score_tensors_def comp_def score_tensor_def Let_def)

lemma lp_assign_keys:
  assumes "lp_assign solve ts caps hw md = Some m" "distinct (names ts)"
  shows "set (hm_keys m) = set (names ts)"
proof (cases "ts = []")
  case True
  with assms show ?thesis by (auto simp: lp_assign_def hm_keys_def)
next
  case False
  then have "0 < length ts" by simp
  from lp_assign_get [OF assms this] obtain sol where
    get: "\<And>i. i < length ts \<Longrightarrow> hm_get m (st_name (ts ! i)) = Some (lp_tier sol i)"
    and other: "\<And>k. k \<notin> set (names ts) \<Longrightarrow> hm_get m k = None" by metis
  have "k \<in> set (hm_keys m) \<longleftrightarrow> k \<in> set (names ts)" for k
  proof (cases "k \<in> set (names ts)")
    case True
    then obtain i where "i < length ts" "k = st_name (ts ! i)" by (auto simp: names_def in_set_conv_nth)
    with get True show ?thesis by (simp add: set_hm_keys domIff)
  next
    case False
    with other show ?thesis by (simp add: set_hm_keys domIff)
  qed
  then show ?thesis by blast
qed


lemma wf_insert_all: "hm_wf m \<Longrightarrow> hm_wf (insert_all tier ts m)"
  unfolding insert_all_def by (induction ts arbitrary: m) auto

lemma wf_fill_gpu: "hm_wf m \<Longrightarrow> hm_wf (snd (fill_gpu ts r m))"
  by (induction ts r m rule: fill_gpu.induct) auto

lemma wf_assign_non_layer: "hm_wf m \<Longrightarrow> hm_wf (snd (snd (assign_non_layer ts g u m)))"
  by (induction ts g u m rule: assign_non_layer.induct) auto

lemma wf_apply_layers: "apply_layers kcut i layers g m = Ret m' \<Longrightarrow> hm_wf m \<Longrightarrow> hm_wf m'"
proof (induction kcut i layers g m rule: apply_layers.induct)
  case (2 kcut i l ts layers g m)
  show ?case
  proof (cases "i < kcut")
    case True
    with 2(3) obtain sl where "sort_by_score ts = Ret sl"
      "apply_layers kcut (Suc i) layers (fst (fill_gpu sl g m)) (snd (fill_gpu sl g m)) = Ret m'"
      by (rule apply_layers_resident)
    with 2(1) [OF True _ prod.collapse [symmetric] this(2)] 2(4) show ?thesis by (simp add: wf_fill_gpu)
  next
    case False
    with 2 show ?thesis by (simp add: wf_insert_all)
  qed
qed simp

lemma wf_greedy: "greedy_assign ts caps hw md = Ret m \<Longrightarrow> hm_wf m"
  using wf_assign_non_layer [of "[]"]
  by (fastforce simp: greedy_assign_def Let_def obind_Ret case_prod_unfold dest: wf_apply_layers)

lemma wf_lp: "lp_assign solve ts caps hw md = Some m \<Longrightarrow> hm_wf m"
proof -
  have "hm_wf m0 \<Longrightarrow> hm_wf (foldl (\<lambda>m (i, t). hm_insert (st_name t) (f i) m) m0 xs)"
    for f :: "nat \<Rightarrow> storage_tier" and m0 :: tier_map and xs :: "(nat \<times> scored_tensor) list"
    by (induction xs arbitrary: m0) auto
  then show "lp_assign solve ts caps hw md = Some m \<Longrightarrow> hm_wf m"
    by (auto simp: lp_assign_def split: option.splits if_splits)
qed

lemma sparse_placement:
  assumes "try_sparse_moe_mmap ts caps md = Some m"
  shows "mm_is_moe md \<and> (\<forall>t \<in> set ts. hm_get m (st_name t) = Some Gpu) \<and> set (hm_keys m) = set (names ts)"
proof -
  have "mm_is_moe md" "m = insert_all Gpu ts []"
    using assms by (auto simp: try_sparse_moe_mmap_def Let_def split: if_splits)
  then show ?thesis by (auto simp: insert_all_get names_in set_hm_keys domIff split: if_splits)
qed

text \<open>What each mode promises of the placement.\<close>

definition mode_ok :: "inference_mode \<Rightarrow> tier_map \<Rightarrow> tensor_info list \<Rightarrow> bool" where
  "mode_ok mode m ts = (case mode of
      SparseMoeMmap \<Rightarrow> \<forall>t \<in> set ts. hm_get m (ti_name t) = Some Gpu
    | ExpertStreaming \<Rightarrow> \<forall>t \<in> set ts. hm_get m (ti_name t) = Some Nvme \<longleftrightarrow> role_from_name (ti_name t) = MoeFusedExperts
    | DenseFfnStreaming \<Rightarrow> \<forall>t \<in> set ts. hm_get m (ti_name t) = Some Nvme \<longleftrightarrow> is_ffn (role_from_name (ti_name t))
    | FullResident \<Rightarrow> \<forall>t \<in> set ts. hm_get m (ti_name t) \<noteq> Some Nvme
    | FullStreaming \<Rightarrow> \<exists>t \<in> set ts. hm_get m (ti_name t) = Some Nvme
    | KeepResident \<Rightarrow> False)"

lemma mode_ok_by_tiers:
  assumes "hm_wf m" "set (hm_keys m) = set (map ti_name ts)"
  shows "mode_ok (if list_ex (\<lambda>e. snd e = Nvme) m then FullStreaming else FullResident) m ts"
proof (cases "list_ex (\<lambda>e. snd e = Nvme) m")
  case True
  then obtain k where k: "(k, Nvme) \<in> set m" by (auto simp: list_ex_iff)
  then have "hm_get m k = Some Nvme" using assms(1) by (simp add: hm_wf_def map_of_eq_Some_iff)
  moreover have "k \<in> set (hm_keys m)" using k by (force simp: hm_keys_def)
  ultimately show ?thesis using True assms(2) by (auto simp: mode_ok_def)
next
  case False
  then show ?thesis by (auto simp: mode_ok_def list_ex_iff dest!: map_of_SomeD)
qed

lemma choose_placement_ok:
  assumes dist: "distinct (map ti_name ts)" and fits: "sum_list (map (\<lambda>t. unat (ti_size_bytes t)) ts) < 2 ^ 64"
  shows "\<exists>m mode. choose_placement solve (score_tensors ts md) caps hw md = Ret (m, mode) \<and>
    set (hm_keys m) = set (map ti_name ts) \<and> mode_ok mode m ts"
proof -
  let ?S = "score_tensors ts md"
  have d: "distinct (names ?S)" using dist by (simp add: names_score_tensors)
  have b: "bytes ?S < 2 ^ 64" using fits by (simp add: bytes_score_tensors)
  have mem: "t \<in> set ts \<Longrightarrow> \<exists>u \<in> set ?S. st_name u = ti_name t \<and> st_role u = role_from_name (ti_name t)" for t
    by (force simp: score_tensors_def score_tensor_def Let_def)
  show ?thesis
  proof (cases "try_sparse_moe_mmap ?S caps md")
    case (Some m)
    note p = sparse_placement [OF Some]
    have "mode_ok SparseMoeMmap m ts" using p mem by (fastforce simp: mode_ok_def)
    with p Some show ?thesis by (simp add: choose_placement_def names_score_tensors)
  next
    case no_sparse: None
    obtain es where es: "try_expert_streaming_assign ?S caps md = Ret es"
      using expert.attempt_no_panic [OF scores_finite] by (cases "try_expert_streaming_assign ?S caps md") auto
    obtain ds where ds: "try_dense_ffn_streaming_assign ?S caps md = Ret ds"
      using dense.attempt_no_panic [OF scores_finite] by (cases "try_dense_ffn_streaming_assign ?S caps md") auto
    show ?thesis
    proof (cases es)
      case (Some m)
      note p = expert.placement [OF es [unfolded Some] d b]
      have "mode_ok ExpertStreaming m ts"
        using p mem by (fastforce simp: mode_ok_def split: if_splits)
      with p show ?thesis
        by (simp add: choose_placement_def no_sparse es Some names_score_tensors)
    next
      case no_expert: None
      show ?thesis
      proof (cases ds)
        case (Some m)
        note p = dense.placement [OF ds [unfolded Some] d b]
        have "mode_ok DenseFfnStreaming m ts"
          using p mem by (fastforce simp: mode_ok_def split: if_splits)
        with p show ?thesis
          by (simp add: choose_placement_def no_sparse es no_expert ds Some names_score_tensors)
      next
        case None
        obtain m where m: "(case lp_assign solve ?S caps hw md of Some m \<Rightarrow> Ret m | None \<Rightarrow> greedy_assign ?S caps hw md) = Ret m"
          using greedy_never_panics [OF scores_finite, of ts md caps hw md]
          by (cases "lp_assign solve ?S caps hw md"; cases "greedy_assign ?S caps hw md") auto
        have "hm_wf m" "set (hm_keys m) = set (names ?S)"
          using m wf_lp lp_assign_keys [OF _ d] wf_greedy greedy_keys [OF _ d b]
          by (auto split: option.splits)
        then have "mode_ok (if list_ex (\<lambda>e. snd e = Nvme) m then FullStreaming else FullResident) m ts"
          by (intro mode_ok_by_tiers) (simp_all add: names_score_tensors)
        with \<open>set (hm_keys m) = set (names ?S)\<close> show ?thesis
          by (simp add: choose_placement_def no_sparse es no_expert ds None m names_score_tensors)
      qed
    qed
  qed
qed

text \<open>C20. Planning always succeeds and the plan is complete and truthful: for every model with
  distinct tensor names, every machine, every context length and whatever the solver answers,
  a plan is returned, it assigns a tier to exactly the tensors of the model, and its mode
  describes the assignment (which tensors are on NVMe in the streaming modes, none when it
  says resident, some when it says streaming).\<close>

theorem plan_complete:
  assumes "distinct (map ti_name (gf_tensors model))"
    "sum_list (map (\<lambda>t. unat (ti_size_bytes t)) (gf_tensors model)) < 2 ^ 64"
  shows "\<exists>p. compute_placement_with_context solve ord json model hw ctx = Ret p \<and>
    set (hm_keys (pp_tier_assignments p)) = set (map ti_name (gf_tensors model)) \<and>
    mode_ok (pp_inference_mode p) (pp_tier_assignments p) (gf_tensors model)"
proof -
  let ?md = "from_gguf ord model"
  obtain m mode where "choose_placement solve (score_tensors (gf_tensors model) ?md)
      (compute_tier_capacities hw ?md (plan_context ctx ?md)) hw ?md = Ret (m, mode)"
    "set (hm_keys m) = set (map ti_name (gf_tensors model))" "mode_ok mode m (gf_tensors model)"
    using choose_placement_ok [OF assms] by blast
  then show ?thesis by (simp add: compute_placement_with_context_def Let_def)
qed

theorem plan_complete_witness:
  "\<exists>p. compute_placement checking_solver rev ''{}'' \<lparr>gf_version = 3, gf_metadata = [], gf_tensors =
      [mk_tensor_info ''blk.0.ffn_up.weight'' [4096, 4096] 12 0, mk_tensor_info ''output.weight'' [4096, 32000] 14 0],
      gf_data_offset = 64\<rparr> hw_32g = Ret p \<and>
     set (hm_keys (pp_tier_assignments p)) = {''blk.0.ffn_up.weight'', ''output.weight''}"
proof -
  let ?ts = "[mk_tensor_info ''blk.0.ffn_up.weight'' [4096, 4096] 12 0, mk_tensor_info ''output.weight'' [4096, 32000] 14 0]"
  let ?g = "\<lparr>gf_version = 3, gf_metadata = [], gf_tensors = ?ts, gf_data_offset = 64\<rparr>"
  have names: "map ti_name ?ts = [''blk.0.ffn_up.weight'', ''output.weight'']" by code_simp
  have "sum_list (map (\<lambda>t. unat (ti_size_bytes t)) ?ts) < 2 ^ 64" by code_simp
  then show ?thesis
    using plan_complete [of ?g checking_solver rev "''{}''" hw_32g 0] names
    unfolding compute_placement_def by auto
qed

end
