(* ===== verification/Io_Pool.thy ===== *)
theory Io_Pool
  imports F64
begin

text \<open>
  Model of the I/O pool of \<open>src/compute/nvme_backend.rs\<close>: the read requests, the memory they
  fill, and the loop a worker runs for one of them.  \<open>pread\<close> is a system call, so it is an
  argument of the definitions; what it does on a readable file is the hypothesis \<open>reads_file\<close>.
\<close>

section \<open>Memory and requests\<close>

text \<open>A pointer is null or an offset into an allocation; a byte is unspecified (\<open>None\<close>) until
  it is written, and again after its page was given back with \<open>MADV_FREE\<close>.\<close>

datatype ptr = Null | Ptr nat nat

fun ptr_add :: "ptr \<Rightarrow> usize \<Rightarrow> ptr" where
  "ptr_add Null off = Null"
| "ptr_add (Ptr b a) off = Ptr b (a + unat off)"

type_synonym mem = "nat \<times> nat \<Rightarrow> u8 option"

fun write_bytes :: "ptr \<Rightarrow> nat \<Rightarrow> u8 list \<Rightarrow> mem \<Rightarrow> mem" where
  "write_bytes Null off bs m = m"
| "write_bytes (Ptr b a) off bs m =
     (\<lambda>(b', x). if b' = b \<and> a + off \<le> x \<and> x < a + off + length bs then Some (bs ! (x - (a + off))) else m (b', x))"

fun free_bytes :: "ptr \<Rightarrow> nat \<Rightarrow> mem \<Rightarrow> mem" where
  "free_bytes Null n m = m"
| "free_bytes (Ptr b a) n m = (\<lambda>(b', x). if b' = b \<and> a \<le> x \<and> x < a + n then None else m (b', x))"

text \<open>A region is a buffer offset, a size and a file offset.\<close>

type_synonym region = "usize \<times> usize \<times> u64"

record io_task =
  it_regions :: "region list"
  it_base :: ptr
  it_completion :: nat

record io_completion =
  ic_remaining :: nat
  ic_layer_idx :: u32
  ic_update_status :: bool

section \<open>Reading one region\<close>

text \<open>One call of \<open>pread\<close> for \<open>n\<close> bytes at an offset returns the bytes it read, or \<open>None\<close> for
  an error.  The loop stops at an error and at the end of the file.\<close>

type_synonym pread = "nat \<Rightarrow> nat \<Rightarrow> u8 list option"

function pread_loop :: "pread \<Rightarrow> ptr \<Rightarrow> nat \<Rightarrow> u64 \<Rightarrow> nat \<Rightarrow> mem \<Rightarrow> mem" where
  "pread_loop pread dst size_n file_offset rd m =
     (if rd < size_n
      then case pread (size_n - rd) (unat (file_offset + of_nat rd)) of
             None \<Rightarrow> m
           | Some bs \<Rightarrow> if bs = [] then m
                        else pread_loop pread dst size_n file_offset (rd + length bs) (write_bytes dst rd bs m)
      else m)"
  by pat_completeness auto

lemma read_progress: "rd < n \<Longrightarrow> bs \<noteq> [] \<Longrightarrow> n - (rd + length bs) < n - (rd :: nat)"
  by (cases bs) auto

termination pread_loop
proof (relation "measure (\<lambda>(_, _, n, _, rd, _). n - rd)", goal_cases)
  case (2 pread dst n fo rd m bs)
  from read_progress [OF 2(1) 2(3)] show ?case by (simp only: in_measure prod.case)
qed simp

declare pread_loop.simps [simp del]

definition pread_region :: "pread \<Rightarrow> ptr \<Rightarrow> region \<Rightarrow> mem \<Rightarrow> mem" where
  "pread_region pread base r m = (case r of (off, size_w, file_offset) \<Rightarrow>
     pread_loop pread (ptr_add base off) (unat size_w) file_offset 0 m)"

text \<open>What \<open>pread\<close> does on a regular file that can be read: it returns at most the bytes asked
  for, those of the file at the offset, and at least one byte before the end of the file.\<close>

definition reads_file :: "u8 list \<Rightarrow> pread \<Rightarrow> bool" where
  "reads_file file pread \<longleftrightarrow>
     (\<forall>n off bs. pread n off = Some bs \<longrightarrow> length bs \<le> n \<and> bs = take (length bs) (drop off file)) \<and>
     (\<forall>n off. 0 < n \<and> off < length file \<longrightarrow> (\<exists>bs. pread n off = Some bs \<and> bs \<noteq> []))"

lemma reads_fileD:
  assumes "reads_file file pread"
  shows "pread n off = Some bs \<Longrightarrow> length bs \<le> n \<and> bs = take (length bs) (drop off file)"
    "0 < n \<Longrightarrow> off < length file \<Longrightarrow> \<exists>bs. pread n off = Some bs \<and> bs \<noteq> []"
  using assms unfolding reads_file_def by blast+

text \<open>A conforming \<open>pread\<close>: at most four bytes at a time.\<close>

definition pread4 :: "u8 list \<Rightarrow> pread" where
  "pread4 file n off = Some (take (min n 4) (drop off file))"

lemma reads_file_pread4 [simp]: "reads_file file (pread4 file)"
  by (auto simp: reads_file_def pread4_def min_def)

text \<open>The bytes of a region in memory are those of the file.\<close>

definition holds :: "u8 list \<Rightarrow> mem \<Rightarrow> ptr \<Rightarrow> region \<Rightarrow> bool" where
  "holds file m base r = (case r of (off, size_w, file_offset) \<Rightarrow>
     case base of Null \<Rightarrow> False
     | Ptr b a \<Rightarrow> list_all (\<lambda>i. m (b, a + unat off + i) = Some (file ! (unat file_offset + i))) [0..<unat size_w])"

definition in_file :: "u8 list \<Rightarrow> region \<Rightarrow> bool" where
  "in_file file r = (case r of (off, size_w, file_offset) \<Rightarrow>
     unat file_offset + unat size_w \<le> length file \<and> unat file_offset + unat size_w < 2 ^ 64)"

fun covers :: "ptr \<Rightarrow> region \<Rightarrow> nat \<times> nat \<Rightarrow> bool" where
  "covers Null r x = False"
| "covers (Ptr b a) (off, size_w, fo) (b', x) \<longleftrightarrow> b' = b \<and> a + unat off \<le> x \<and> x < a + unat off + unat size_w"

lemma pread_loop_exact:
  assumes "reads_file file pread" "unat fo + n \<le> length file" "unat fo + n < 2 ^ 64" "rd \<le> n"
    "\<forall>i < rd. m (b, a + i) = Some (file ! (unat fo + i))"
  shows "(\<forall>i < n. pread_loop pread (Ptr b a) n fo rd m (b, a + i) = Some (file ! (unat fo + i))) \<and>
    (\<forall>b' x. b' \<noteq> b \<or> x < a \<or> a + n \<le> x \<longrightarrow> pread_loop pread (Ptr b a) n fo rd m (b', x) = m (b', x))"
  using assms(4,5)
proof (induction "n - rd" arbitrary: rd m rule: less_induct)
  case less
  show ?case
  proof (cases "rd < n")
    case True
    have off: "unat (fo + of_nat rd) = unat fo + rd"
      using True assms(3) by (subst unat_plus_no_wrap) (simp_all add: unat_of_nat)
    have "unat fo + rd < length file" using True assms(2) by simp
    then obtain bs where bs: "pread (n - rd) (unat fo + rd) = Some bs" "bs \<noteq> []"
      using True reads_fileD(2) [OF assms(1), of "n - rd" "unat fo + rd"] by auto
    then have len: "length bs \<le> n - rd" and cont: "bs = take (length bs) (drop (unat fo + rd) file)"
      using reads_fileD(1) [OF assms(1)] by blast+
    let ?m = "write_bytes (Ptr b a) rd bs m"
    have w: "?m (b, a + i) = Some (file ! (unat fo + i))" if "i < rd + length bs" for i
    proof (cases "i < rd")
      case False
      then have k: "i - rd < length bs" and e: "unat fo + rd + (i - rd) = unat fo + i" using that by auto
      have "bs ! (i - rd) = take (length bs) (drop (unat fo + rd) file) ! (i - rd)"
        using cont by (rule arg_cong)
      also have "\<dots> = drop (unat fo + rd) file ! (i - rd)" using k by (rule nth_take)
      also have "\<dots> = file ! (unat fo + i)"
        using \<open>unat fo + rd < length file\<close> unfolding e [symmetric] by (intro nth_drop) simp
      finally have "bs ! (i - rd) = file ! (unat fo + i)" .
      with that False show ?thesis by simp
    qed (use less.prems(2) in simp)
    have step: "pread_loop pread (Ptr b a) n fo rd m = pread_loop pread (Ptr b a) n fo (rd + length bs) ?m"
      using True bs by (subst pread_loop.simps) (simp add: off)
    have "n - (rd + length bs) < n - rd" "rd + length bs \<le> n" using bs(2) len True by (auto intro: read_progress)
    from less.hyps [OF this] w have IH:
      "(\<forall>i < n. pread_loop pread (Ptr b a) n fo (rd + length bs) ?m (b, a + i) = Some (file ! (unat fo + i)))"
      "\<forall>b' x. b' \<noteq> b \<or> x < a \<or> a + n \<le> x \<longrightarrow> pread_loop pread (Ptr b a) n fo (rd + length bs) ?m (b', x) = ?m (b', x)"
      by blast+
    have "?m (b', x) = m (b', x)" if "b' \<noteq> b \<or> x < a \<or> a + n \<le> x" for b' x
      using that \<open>rd + length bs \<le> n\<close> by auto
    with IH show ?thesis unfolding step by metis
  next
    case False
    with less.prems show ?thesis by (subst (1 2) pread_loop.simps) auto
  qed
qed

lemma pread_region_holds:
  assumes "reads_file file pread" "in_file file r" "base \<noteq> Null"
  shows "holds file (pread_region pread base r m) base r"
proof -
  obtain off n fo where r: "r = (off, n, fo)" by (cases r) auto
  obtain b a where b: "base = Ptr b a" using assms(3) by (cases base) auto
  from assms(2) r have "unat fo + unat n \<le> length file" "unat fo + unat n < 2 ^ 64" by (simp_all add: in_file_def)
  from pread_loop_exact [OF assms(1) this, of 0 m b "a + unat off"]
  show ?thesis by (simp add: r b pread_region_def holds_def list_all_iff)
qed

lemma pread_region_frame:
  assumes "reads_file file pread" "in_file file r" "\<not> covers base r x"
  shows "pread_region pread base r m x = m x"
proof -
  obtain off n fo where r: "r = (off, n, fo)" by (cases r) auto
  obtain b' y where x: "x = (b', y)" by (cases x)
  show ?thesis
  proof (cases base)
    case Null
    have "pread_loop pread Null k fo rd m = m" for k rd
    proof (induction "k - rd" arbitrary: rd rule: less_induct)
      case less
      then show ?case
        by (subst pread_loop.simps) (auto split: option.splits simp: read_progress)
    qed
    then show ?thesis by (simp add: Null r pread_region_def)
  next
    case (Ptr b a)
    from assms(2) r have "unat fo + unat n \<le> length file" "unat fo + unat n < 2 ^ 64" by (simp_all add: in_file_def)
    from pread_loop_exact [OF assms(1) this, of 0 m b "a + unat off"] assms(3)
    have "pread_loop pread (Ptr b (a + unat off)) (unat n) fo 0 m (b', y) = m (b', y)"
      by (auto simp: r x Ptr)
    then show ?thesis by (simp add: r x Ptr pread_region_def)
  qed
qed

section \<open>Throughput\<close>

definition throughput_bps :: "u64 \<Rightarrow> u64 \<Rightarrow> f64" where
  "throughput_bps bytes_loaded load_time_ns =
     (let bytes = f_of_word bytes_loaded; ns = f_of_word load_time_ns
      in if f_lt (Fin 0) ns then f_div bytes (f_div ns (Fin 1000000000)) else Fin 0)"

section \<open>Properties\<close>

text \<open>C33. Reading a region is exact however the system splits the transfer: if \<open>pread\<close> reads the
  model file and the region lies inside it, then after \<open>pread_region\<close> every byte of the
  region holds the byte of the file, and no other byte of memory has changed.\<close>

theorem pread_region_exact:
  assumes "reads_file file pread" "in_file file r" "base \<noteq> Null"
  shows "holds file (pread_region pread base r m) base r \<and>
    (\<forall>x. covers base r x \<or> pread_region pread base r m x = m x)"
  using pread_region_holds [OF assms] pread_region_frame [OF assms(1,2)] by blast

theorem pread_region_exact_witness:
  "holds [1, 2, 3, 4, 5, 6, 7, 8] (pread_region (pread4 [1, 2, 3, 4, 5, 6, 7, 8]) (Ptr 0 100) (8, 6, 1) (\<lambda>_. None))
     (Ptr 0 100) (8, 6, 1)"
  using pread_region_exact [OF reads_file_pread4, of "[1, 2, 3, 4, 5, 6, 7, 8]" "(8, 6, 1)" "Ptr 0 100" "\<lambda>_. None"]
  by (simp add: in_file_def)

end
