(* ===== verification/Coactivation.thy ===== *)
theory Coactivation
  imports Prelude
begin

text \<open>
  Model of \<open>CoActivationMatrix\<close> (\<open>src/cache/coactivation.rs\<close>): counts of which experts fire
  together in a layer and in consecutive layers, and the predictions drawn from them.
  Indexing is checked, as in the code, because a matrix may come from a file.  Saving and
  loading the file are left out.
\<close>

section \<open>State and operations\<close>

type_synonym counts = "u32 list list list"

record coactivation =
  ca_layer_counts :: counts
  ca_cross_layer_counts :: counts
  ca_observation_counts :: "u32 list"
  ca_num_layers :: nat
  ca_num_experts :: nat

definition ca_new :: "u32 \<Rightarrow> u32 \<Rightarrow> coactivation" where
  "ca_new num_layers num_experts =
     (let nl = unat num_layers; ne = unat num_experts
      in \<lparr>ca_layer_counts = replicate nl (replicate ne (replicate ne 0)),
          ca_cross_layer_counts = replicate nl (replicate ne (replicate ne 0)),
          ca_observation_counts = replicate nl 0, ca_num_layers = nl, ca_num_experts = ne\<rparr>)"

definition bump :: "nat \<Rightarrow> nat \<Rightarrow> nat \<Rightarrow> counts \<Rightarrow> counts outcome" where
  "bump l a b m = obind (at_index m l) (\<lambda>plane. obind (at_index plane a) (\<lambda>row.
     omap (\<lambda>v. m[l := plane[a := row[b := v + 1]]]) (at_index row b)))"

fun record_pairs :: "nat \<Rightarrow> nat \<Rightarrow> nat \<Rightarrow> u32 list \<Rightarrow> counts \<Rightarrow> counts outcome" where
  "record_pairs l ne a [] m = Ret m"
| "record_pairs l ne a (b # bs) m =
     (if ne \<le> unat b then record_pairs l ne a bs m
      else obind (bump l a (unat b) m) (\<lambda>m. obind (bump l (unat b) a m) (record_pairs l ne a bs)))"

fun record_experts :: "nat \<Rightarrow> nat \<Rightarrow> u32 list \<Rightarrow> counts \<Rightarrow> counts outcome" where
  "record_experts l ne [] m = Ret m"
| "record_experts l ne (a # bs) m =
     (if ne \<le> unat a then record_experts l ne bs m
      else obind (bump l (unat a) (unat a) m) (\<lambda>m.
        obind (record_pairs l ne (unat a) bs m) (record_experts l ne bs)))"

definition ca_record :: "u32 \<Rightarrow> u32 list \<Rightarrow> coactivation \<Rightarrow> coactivation outcome" where
  "ca_record layer selected c =
     (let l = unat layer
      in if ca_num_layers c \<le> l then Ret c
         else obind (at_index (ca_observation_counts c) l) (\<lambda>v.
           omap (\<lambda>m. c\<lparr>ca_observation_counts := (ca_observation_counts c)[l := v + 1], ca_layer_counts := m\<rparr>)
             (record_experts l (ca_num_experts c) selected (ca_layer_counts c))))"

fun record_row :: "nat \<Rightarrow> nat \<Rightarrow> nat \<Rightarrow> u32 list \<Rightarrow> counts \<Rightarrow> counts outcome" where
  "record_row l ne a [] m = Ret m"
| "record_row l ne a (b # bs) m =
     (if ne \<le> unat b then record_row l ne a bs m
      else obind (bump l a (unat b) m) (record_row l ne a bs))"

fun record_cross :: "nat \<Rightarrow> nat \<Rightarrow> u32 list \<Rightarrow> u32 list \<Rightarrow> counts \<Rightarrow> counts outcome" where
  "record_cross l ne [] bs m = Ret m"
| "record_cross l ne (a # as) bs m =
     (if ne \<le> unat a then record_cross l ne as bs m
      else obind (record_row l ne (unat a) bs m) (record_cross l ne as bs))"

definition record_cross_layer :: "u32 \<Rightarrow> u32 list \<Rightarrow> u32 list \<Rightarrow> coactivation \<Rightarrow> coactivation outcome" where
  "record_cross_layer layer experts_n experts_n1 c =
     (let l = unat layer
      in if ca_num_layers c \<le> l then Ret c
         else omap (\<lambda>m. c\<lparr>ca_cross_layer_counts := m\<rparr>)
           (record_cross l (ca_num_experts c) experts_n experts_n1 (ca_cross_layer_counts c)))"

definition add_row :: "u32 list \<Rightarrow> u32 list \<Rightarrow> u32 list outcome" where
  "add_row row scores =
     (if length row \<le> length scores
      then Ret (map2 (+) (take (length row) scores) row @ drop (length row) scores) else Panic)"

fun sum_rows :: "nat \<Rightarrow> nat \<Rightarrow> counts \<Rightarrow> u32 list \<Rightarrow> u32 list \<Rightarrow> u32 list outcome" where
  "sum_rows l ne m [] scores = Ret scores"
| "sum_rows l ne m (e # es) scores =
     (if ne \<le> unat e then sum_rows l ne m es scores
      else obind (at_index m l) (\<lambda>plane. obind (at_index plane (unat e)) (\<lambda>row.
        obind (add_row row scores) (sum_rows l ne m es))))"

text \<open>The experts with a positive score, best first, ties in index order, at most \<open>top_k\<close>.\<close>

definition rank :: "nat \<Rightarrow> u32 list \<Rightarrow> u32 list" where
  "rank top_k scores =
     map fst (take top_k (sort_by (\<lambda>a b. snd b \<le> snd a)
       (filter (\<lambda>(_, s). 0 < s) (map2 (\<lambda>i s. (of_nat i, s)) [0..<length scores] scores))))"

definition clear_scores :: "nat \<Rightarrow> u32 list \<Rightarrow> u32 list \<Rightarrow> u32 list" where
  "clear_scores ne observed scores = foldl (\<lambda>sc e. if unat e < ne then sc[unat e := 0] else sc) scores observed"

definition no_observations :: "coactivation \<Rightarrow> nat \<Rightarrow> bool outcome" where
  "no_observations c l = (if ca_num_layers c \<le> l then Ret True
     else omap (\<lambda>v. v = 0) (at_index (ca_observation_counts c) l))"

definition predict_same_layer :: "u32 \<Rightarrow> u32 list \<Rightarrow> nat \<Rightarrow> coactivation \<Rightarrow> u32 list outcome" where
  "predict_same_layer layer observed top_k c =
     (let l = unat layer; ne = ca_num_experts c
      in obind (no_observations c l) (\<lambda>none. if none then Ret []
         else omap (\<lambda>scores. rank top_k (clear_scores ne observed scores))
           (sum_rows l ne (ca_layer_counts c) observed (replicate ne 0))))"

definition predict_next_layer :: "u32 \<Rightarrow> u32 list \<Rightarrow> nat \<Rightarrow> coactivation \<Rightarrow> u32 list outcome" where
  "predict_next_layer layer observed top_k c =
     (let l = unat layer; ne = ca_num_experts c
      in obind (no_observations c l) (\<lambda>none. if none then Ret []
         else omap (rank top_k) (sum_rows l ne (ca_cross_layer_counts c) observed (replicate ne 0))))"

definition has_data :: "coactivation \<Rightarrow> bool" where
  "has_data c \<longleftrightarrow> list_ex (\<lambda>v. 10 < v) (ca_observation_counts c)"

section \<open>Shape\<close>

definition cube :: "nat \<Rightarrow> nat \<Rightarrow> counts \<Rightarrow> bool" where
  "cube nl ne m \<longleftrightarrow> length m = nl \<and> (\<forall>plane \<in> set m. length plane = ne \<and> (\<forall>row \<in> set plane. length row = ne))"

definition ca_wf :: "coactivation \<Rightarrow> bool" where
  "ca_wf c \<longleftrightarrow> cube (ca_num_layers c) (ca_num_experts c) (ca_layer_counts c) \<and>
     cube (ca_num_layers c) (ca_num_experts c) (ca_cross_layer_counts c) \<and>
     length (ca_observation_counts c) = ca_num_layers c"

lemma cube_nth: "cube nl ne m \<Longrightarrow> l < nl \<Longrightarrow> length (m ! l) = ne \<and> (\<forall>a < ne. length (m ! l ! a) = ne)"
  unfolding cube_def by (metis nth_mem)

lemma ca_wf_new [simp]: "ca_wf (ca_new nl ne)"
  by (auto simp: ca_wf_def cube_def ca_new_def Let_def)

text \<open>A cell of the cube after one is added to the cell \<open>(l, a, b)\<close>.\<close>

lemma bump_cell:
  assumes "cube nl ne m" "l < nl" "a < ne" "b < ne"
  obtains m' where "bump l a b m = Ret m'" "cube nl ne m'"
    "\<And>i x y. i < nl \<Longrightarrow> x < ne \<Longrightarrow> y < ne \<Longrightarrow>
       m' ! i ! x ! y = m ! i ! x ! y + (if i = l \<and> x = a \<and> y = b then 1 else 0)"
proof -
  let ?m' = "m[l := (m ! l)[a := (m ! l ! a)[b := m ! l ! a ! b + 1]]]"
  have n: "length m = nl" using assms(1) by (simp add: cube_def)
  note c = cube_nth [OF assms(1,2)]
  have "bump l a b m = Ret ?m'" using n c assms by (simp add: bump_def)
  moreover have "cube nl ne ?m'"
  proof -
    have "length plane = ne \<and> (\<forall>row \<in> set plane. length row = ne)" if "plane \<in> set ?m'" for plane
    proof -
      from that have "plane = (m ! l)[a := (m ! l ! a)[b := m ! l ! a ! b + 1]] \<or> plane \<in> set m"
        using set_update_subset_insert by fastforce
      then show ?thesis
      proof
        assume p: "plane = (m ! l)[a := (m ! l ! a)[b := m ! l ! a ! b + 1]]"
        have "length row = ne" if "row \<in> set plane" for row
        proof -
          from that p have "row = (m ! l ! a)[b := m ! l ! a ! b + 1] \<or> row \<in> set (m ! l)"
            using set_update_subset_insert by fastforce
          then show ?thesis using c assms by (auto simp: in_set_conv_nth)
        qed
        with p c show ?thesis by simp
      qed (use assms(1) in \<open>auto simp: cube_def\<close>)
    qed
    with n show ?thesis by (simp add: cube_def)
  qed
  moreover have "?m' ! i ! x ! y = m ! i ! x ! y + (if i = l \<and> x = a \<and> y = b then 1 else 0)"
    if "i < nl" "x < ne" "y < ne" for i x y
  proof (cases "i = l")
    case True
    with that n c assms show ?thesis by (cases "x = a") (simp_all add: nth_list_update)
  qed (use that in simp)
  ultimately show thesis using that by blast
qed

lemma bump_cube: "cube nl ne m \<Longrightarrow> l < nl \<Longrightarrow> a < ne \<Longrightarrow> b < ne \<Longrightarrow> \<exists>m'. bump l a b m = Ret m' \<and> cube nl ne m'"
  by (metis bump_cell)

text \<open>Symmetry is kept by adding one to a cell and one to its mirror image.\<close>

definition sym_at :: "nat \<Rightarrow> nat \<Rightarrow> counts \<Rightarrow> bool" where
  "sym_at nl ne m \<longleftrightarrow> (\<forall>i < nl. \<forall>x < ne. \<forall>y < ne. m ! i ! x ! y = m ! i ! y ! x)"

lemma record_pairs_ok:
  "cube nl ne m \<Longrightarrow> sym_at nl ne m \<Longrightarrow> l < nl \<Longrightarrow> a < ne \<Longrightarrow>
   \<exists>m'. record_pairs l ne a bs m = Ret m' \<and> cube nl ne m' \<and> sym_at nl ne m'"
proof (induction bs arbitrary: m)
  case (Cons b bs)
  show ?case
  proof (cases "ne \<le> unat b")
    case False
    then have b: "unat b < ne" by simp
    obtain m1 where m1: "bump l a (unat b) m = Ret m1" "cube nl ne m1"
      "\<And>i x y. i < nl \<Longrightarrow> x < ne \<Longrightarrow> y < ne \<Longrightarrow>
         m1 ! i ! x ! y = m ! i ! x ! y + (if i = l \<and> x = a \<and> y = unat b then 1 else 0)"
      using bump_cell [OF Cons.prems(1,3,4) b] by metis
    obtain m2 where m2: "bump l (unat b) a m1 = Ret m2" "cube nl ne m2"
      "\<And>i x y. i < nl \<Longrightarrow> x < ne \<Longrightarrow> y < ne \<Longrightarrow>
         m2 ! i ! x ! y = m1 ! i ! x ! y + (if i = l \<and> x = unat b \<and> y = a then 1 else 0)"
      using bump_cell [OF m1(2) Cons.prems(3) b Cons.prems(4)] by metis
    have "m2 ! i ! x ! y = m2 ! i ! y ! x" if i: "i < nl" "x < ne" "y < ne" for i x y
    proof -
      have "m ! i ! x ! y = m ! i ! y ! x" using Cons.prems(2) i by (simp add: sym_at_def)
      then show ?thesis
        by (simp only: m2(3) [OF i] m1(3) [OF i] m2(3) [OF i(1,3,2)] m1(3) [OF i(1,3,2)] conj_commute [of "x = _"] add.assoc)
          (simp add: add.commute)
    qed
    then have "sym_at nl ne m2" by (simp add: sym_at_def)
    from Cons.IH [OF m2(2) this Cons.prems(3,4)] False m1 m2 show ?thesis by simp
  qed (use Cons in simp)
qed simp

lemma record_experts_ok:
  "cube nl ne m \<Longrightarrow> sym_at nl ne m \<Longrightarrow> l < nl \<Longrightarrow>
   \<exists>m'. record_experts l ne es m = Ret m' \<and> cube nl ne m' \<and> sym_at nl ne m'"
proof (induction es arbitrary: m)
  case (Cons a es)
  show ?case
  proof (cases "ne \<le> unat a")
    case False
    then have a: "unat a < ne" by simp
    obtain m1 where m1: "bump l (unat a) (unat a) m = Ret m1" "cube nl ne m1"
      "\<And>i x y. i < nl \<Longrightarrow> x < ne \<Longrightarrow> y < ne \<Longrightarrow>
         m1 ! i ! x ! y = m ! i ! x ! y + (if i = l \<and> x = unat a \<and> y = unat a then 1 else 0)"
      using bump_cell [OF Cons.prems(1,3) a a] by metis
    have "m1 ! i ! x ! y = m1 ! i ! y ! x" if i: "i < nl" "x < ne" "y < ne" for i x y
      using Cons.prems(2) i by (simp add: sym_at_def m1(3) conj_commute)
    then have "sym_at nl ne m1" by (simp add: sym_at_def)
    from record_pairs_ok [OF m1(2) this Cons.prems(3) a, of es] obtain m2 where
      m2: "record_pairs l ne (unat a) es m1 = Ret m2" "cube nl ne m2" "sym_at nl ne m2" by blast
    from Cons.IH [OF m2(2,3) Cons.prems(3)] False m1 m2 show ?thesis by simp
  qed (use Cons in simp)
qed simp

lemma record_row_ok:
  "cube nl ne m \<Longrightarrow> l < nl \<Longrightarrow> a < ne \<Longrightarrow> \<exists>m'. record_row l ne a bs m = Ret m' \<and> cube nl ne m'"
proof (induction bs arbitrary: m)
  case (Cons b bs)
  show ?case
  proof (cases "ne \<le> unat b")
    case False
    then obtain m1 where m1: "bump l a (unat b) m = Ret m1" "cube nl ne m1"
      using bump_cube [of nl ne m l a "unat b"] Cons.prems by auto
    with Cons.IH [OF m1(2)] Cons.prems False show ?thesis by simp
  qed (use Cons in simp)
qed simp

lemma record_cross_ok:
  "cube nl ne m \<Longrightarrow> l < nl \<Longrightarrow> \<exists>m'. record_cross l ne as bs m = Ret m' \<and> cube nl ne m'"
proof (induction as arbitrary: m)
  case (Cons a as)
  show ?case
  proof (cases "ne \<le> unat a")
    case False
    then obtain m1 where m1: "record_row l ne (unat a) bs m = Ret m1" "cube nl ne m1"
      using record_row_ok [of nl ne m l "unat a" bs] Cons.prems by auto
    with Cons.IH [OF m1(2)] Cons.prems False show ?thesis by simp
  qed (use Cons in simp)
qed simp

definition ca_inv :: "coactivation \<Rightarrow> bool" where
  "ca_inv c \<longleftrightarrow> ca_wf c \<and> sym_at (ca_num_layers c) (ca_num_experts c) (ca_layer_counts c)"

lemma ca_inv_new [simp]: "ca_inv (ca_new nl ne)"
  by (simp add: ca_inv_def sym_at_def) (simp add: ca_new_def Let_def)

lemma ca_record_ok:
  assumes "ca_inv c"
  shows "\<exists>c'. ca_record l es c = Ret c' \<and> ca_inv c' \<and>
    ca_num_layers c' = ca_num_layers c \<and> ca_num_experts c' = ca_num_experts c"
proof (cases "ca_num_layers c \<le> unat l")
  case False
  then have "unat l < ca_num_layers c" by simp
  with assms record_experts_ok [of "ca_num_layers c" "ca_num_experts c" "ca_layer_counts c" "unat l" es]
  show ?thesis by (auto simp: ca_inv_def ca_wf_def ca_record_def Let_def)
qed (use assms in \<open>simp add: ca_record_def Let_def\<close>)

lemma record_cross_layer_ok:
  assumes "ca_inv c"
  shows "\<exists>c'. record_cross_layer l es es' c = Ret c' \<and> ca_inv c' \<and>
    ca_num_layers c' = ca_num_layers c \<and> ca_num_experts c' = ca_num_experts c"
proof (cases "ca_num_layers c \<le> unat l")
  case False
  then have "unat l < ca_num_layers c" by simp
  with assms record_cross_ok [of "ca_num_layers c" "ca_num_experts c" "ca_cross_layer_counts c" "unat l" es es']
  show ?thesis by (auto simp: ca_inv_def ca_wf_def record_cross_layer_def Let_def)
qed (use assms in \<open>simp add: record_cross_layer_def Let_def\<close>)

section \<open>Predictions\<close>

lemma sum_rows_ok:
  "cube nl ne m \<Longrightarrow> l < nl \<Longrightarrow> length scores = ne \<Longrightarrow> \<exists>sc. sum_rows l ne m es scores = Ret sc \<and> length sc = ne"
proof (induction es arbitrary: scores)
  case (Cons e es)
  show ?case
  proof (cases "ne \<le> unat e")
    case False
    note c = cube_nth [OF Cons.prems(1,2)]
    let ?sc = "map2 (+) (take ne scores) (m ! l ! unat e)"
    have "length m = nl" using Cons.prems(1) by (simp add: cube_def)
    then have "sum_rows l ne m (e # es) scores = sum_rows l ne m es ?sc"
      using False c Cons.prems by (simp add: add_row_def)
    moreover have "length ?sc = ne" using c False Cons.prems(3) by simp
    ultimately show ?thesis using Cons.IH [OF Cons.prems(1,2)] by simp
  qed (use Cons in simp)
qed simp

lemma rank_props:
  assumes "length scores \<le> 2 ^ 32"
  shows "length (rank k scores) \<le> k" "distinct (rank k scores)"
    "\<And>e. e \<in> set (rank k scores) \<Longrightarrow> unat e < length scores \<and> 0 < scores ! unat e"
    "sorted_wrt (\<lambda>a b. scores ! unat b \<le> scores ! unat a) (rank k scores)"
proof -
  define ix where "ix = map2 (\<lambda>i s. (of_nat i :: u32, s)) [0..<length scores] scores"
  define srt where "srt = sort_by (\<lambda>a b. snd b \<le> snd a) (filter (\<lambda>(_, s). 0 < s) ix)"
  have r: "rank k scores = map fst (take k srt)" by (simp add: rank_def srt_def ix_def)
  have of_nat: "unat (of_nat i :: u32) = i" if "i < length scores" for i
    using that assms by (simp add: unat_of_nat)
  have ix_mem: "unat (fst e) < length scores \<and> scores ! unat (fst e) = snd e" if "e \<in> set ix" for e
    using that by (auto simp: ix_def set_zip of_nat)
  have len: "length ix = length scores" by (simp add: ix_def)
  have nth_ix: "fst (ix ! i) = of_nat i" if "i < length scores" for i using that by (simp add: ix_def)
  have inj: "fst (ix ! i) = fst (ix ! j) \<longrightarrow> i = j" if "i < length scores" "j < length scores" for i j
    unfolding nth_ix [OF that(1)] nth_ix [OF that(2)] using of_nat [OF that(1)] of_nat [OF that(2)] by metis
  have "distinct (map fst ix)"
    unfolding distinct_conv_nth using inj by (simp add: len) blast
  then have "distinct (map fst (filter (\<lambda>(_, s). 0 < s) ix))"
    by (simp add: distinct_map_filter)
  moreover have "mset (map fst srt) = mset (map fst (filter (\<lambda>(_, s). 0 < s) ix))"
    by (simp only: srt_def mset_map mset_sort_by)
  ultimately have d: "distinct (map fst srt)" using mset_eq_imp_distinct_iff by blast
  have srt_mem: "e \<in> set ix \<and> 0 < snd e" if "e \<in> set srt" for e using that by (auto simp: srt_def)
  show "length (rank k scores) \<le> k" by (simp add: r)
  show "distinct (rank k scores)" using d by (simp add: r flip: take_map)
  show "unat e < length scores \<and> 0 < scores ! unat e" if "e \<in> set (rank k scores)" for e
    using that srt_mem ix_mem by (fastforce simp: r dest: in_set_takeD)
  have "sorted_wrt (\<lambda>a b. snd b \<le> snd a) srt" unfolding srt_def by (rule sorted_sort_by) auto
  then have "sorted_wrt (\<lambda>a b. snd b \<le> snd a) (take k srt)" by (rule sorted_wrt_take)
  then have "sorted_wrt (\<lambda>a b. scores ! unat (fst b) \<le> scores ! unat (fst a)) (take k srt)"
    by (rule sorted_wrt_mono_rel [rotated]) (metis srt_mem ix_mem in_set_takeD)
  then show "sorted_wrt (\<lambda>a b. scores ! unat b \<le> scores ! unat a) (rank k scores)"
    by (simp add: r sorted_wrt_map)
qed

lemma no_observations_ok: "ca_wf c \<Longrightarrow> \<exists>b. no_observations c l = Ret b"
  by (auto simp: no_observations_def ca_wf_def)

text \<open>With nothing observed every score is zero, so nothing is predicted.\<close>

lemma rank_zero: "rank k (replicate n 0) = []"
proof -
  have "filter (\<lambda>(_, s). 0 < s) (map2 (\<lambda>i s. (of_nat i :: u32, s :: u32)) [0..<n] (replicate n 0)) = []"
    by (auto simp: filter_empty_conv set_zip)
  then show ?thesis by (simp add: rank_def)
qed

text \<open>The scores of the experts already observed are cleared.\<close>

lemma clear_observed:
  "length scores = ne \<Longrightarrow> length (clear_scores ne observed scores) = ne \<and>
    (\<forall>i < ne. clear_scores ne observed scores ! i = 0 \<or>
      (clear_scores ne observed scores ! i = scores ! i \<and> i \<notin> unat ` set observed))"
proof (induction observed arbitrary: scores)
  case (Cons e es)
  let ?s = "if unat e < ne then scores[unat e := 0] else scores"
  have "length ?s = ne" using Cons.prems by simp
  from Cons.IH [OF this] show ?case
    using Cons.prems by (auto simp: clear_scores_def nth_list_update split: if_splits)
qed (simp add: clear_scores_def)

text \<open>One prediction from a matrix of the right shape.\<close>

definition good_ranking :: "u32 \<Rightarrow> nat \<Rightarrow> u32 list \<Rightarrow> bool" where
  "good_ranking ne k p \<longleftrightarrow> length p \<le> k \<and> distinct p \<and> (\<forall>e \<in> set p. e < ne)"

lemma rank_good: "length sc = unat ne \<Longrightarrow> good_ranking ne k (rank k sc)"
  using rank_props [where scores = sc and k = k] unsigned_less [of ne, where ?'a = nat]
  by (auto simp: good_ranking_def word_less_nat_alt)

lemma predict_next_ok:
  assumes "ca_wf c" "ca_num_experts c = unat ne"
  shows "\<exists>p. predict_next_layer l observed k c = Ret p \<and> good_ranking ne k p"
proof -
  obtain b where b: "no_observations c (unat l) = Ret b" using no_observations_ok assms by blast
  show ?thesis
  proof (cases b)
    case False
    with b have l: "unat l < ca_num_layers c" by (auto simp: no_observations_def split: if_splits)
    have "cube (ca_num_layers c) (unat ne) (ca_cross_layer_counts c)" using assms by (metis ca_wf_def)
    from sum_rows_ok [OF this l, of "replicate (unat ne) 0" observed] obtain sc where
      "sum_rows (unat l) (unat ne) (ca_cross_layer_counts c) observed (replicate (unat ne) 0) = Ret sc"
        "length sc = unat ne" by auto
    then show ?thesis using b False assms(2) by (simp add: predict_next_layer_def Let_def rank_good)
  qed (use b in \<open>simp add: predict_next_layer_def Let_def good_ranking_def\<close>)
qed

lemma predict_same_ok:
  assumes "ca_wf c" "ca_num_experts c = unat ne"
  shows "\<exists>p. predict_same_layer l observed k c = Ret p \<and> good_ranking ne k p \<and> set p \<inter> set observed = {}"
proof -
  obtain b where b: "no_observations c (unat l) = Ret b" using no_observations_ok assms by blast
  show ?thesis
  proof (cases b)
    case False
    with b have l: "unat l < ca_num_layers c" by (auto simp: no_observations_def split: if_splits)
    have "cube (ca_num_layers c) (unat ne) (ca_layer_counts c)" using assms by (metis ca_wf_def)
    from sum_rows_ok [OF this l, of "replicate (unat ne) 0" observed] obtain sc where
      sc: "sum_rows (unat l) (unat ne) (ca_layer_counts c) observed (replicate (unat ne) 0) = Ret sc"
        "length sc = unat ne" by auto
    let ?sc = "clear_scores (unat ne) observed sc"
    have p: "predict_same_layer l observed k c = Ret (rank k ?sc)"
      using sc b False assms(2) by (simp add: predict_same_layer_def Let_def)
    note cl = clear_observed [OF sc(2), of observed]
    have len: "length ?sc \<le> 2 ^ 32" using cl unsigned_less [of ne, where ?'a = nat] by simp
    have "e \<notin> set observed" if "e \<in> set (rank k ?sc)" for e
      using rank_props(3) [OF len that] cl by (metis image_eqI less_irrefl)
    with p rank_good [of ?sc ne k] cl show ?thesis by blast
  qed (use b in \<open>simp add: predict_same_layer_def Let_def good_ranking_def\<close>)
qed

section \<open>Runs\<close>

datatype ca_op = Record u32 "u32 list" | RecordCross u32 "u32 list" "u32 list"

fun ca_step :: "ca_op \<Rightarrow> coactivation \<Rightarrow> coactivation outcome" where
  "ca_step (Record l es) c = ca_record l es c"
| "ca_step (RecordCross l es es') c = record_cross_layer l es es' c"

fun ca_run :: "ca_op list \<Rightarrow> coactivation \<Rightarrow> coactivation outcome" where
  "ca_run [] c = Ret c"
| "ca_run (x # xs) c = obind (ca_step x c) (ca_run xs)"

lemma ca_run_ok:
  "ca_inv c \<Longrightarrow> \<exists>c'. ca_run ops c = Ret c' \<and> ca_inv c' \<and>
     ca_num_layers c' = ca_num_layers c \<and> ca_num_experts c' = ca_num_experts c"
proof (induction ops arbitrary: c)
  case (Cons x ops)
  obtain c1 where "ca_step x c = Ret c1" "ca_inv c1" "ca_num_layers c1 = ca_num_layers c"
      "ca_num_experts c1 = ca_num_experts c"
    using ca_record_ok [OF Cons.prems] record_cross_layer_ok [OF Cons.prems] by (cases x) (auto, metis+)
  with Cons.IH [of c1] show ?case by auto
qed auto

section \<open>Properties\<close>

text \<open>Recording never indexes out of bounds, whatever layer and expert numbers the router
  reports: every sequence of \<open>record\<close> and \<open>record_cross_layer\<close> calls on a new matrix
  returns, the two count cubes keep their dimensions, and the same-layer counts stay
  symmetric in the two experts.\<close>

theorem coactivation_consistent:
  "\<exists>c. ca_run ops (ca_new nl ne) = Ret c \<and> ca_wf c \<and>
     sym_at (unat nl) (unat ne) (ca_layer_counts c)"
proof -
  from ca_run_ok [OF ca_inv_new, of ops nl ne] obtain c where
    "ca_run ops (ca_new nl ne) = Ret c" "ca_inv c" "ca_num_layers c = unat nl" "ca_num_experts c = unat ne"
    by (auto simp: ca_new_def Let_def)
  then show ?thesis by (auto simp: ca_inv_def)
qed

lemma num_experts_bound:
  assumes "ca_run ops (ca_new nl ne) = Ret c"
  shows "ca_wf c \<and> ca_num_experts c = unat ne \<and> unat ne \<le> 2 ^ 32"
proof -
  from ca_run_ok [OF ca_inv_new, of ops nl ne] assms have "ca_inv c" "ca_num_experts c = unat ne"
    by (auto simp: ca_new_def Let_def)
  then show ?thesis using unsigned_less [of ne, where ?'a = nat] by (simp add: ca_inv_def)
qed

text \<open>C34. Predicting from a recorded matrix never panics and returns at most \<open>top_k\<close> distinct
  expert numbers that exist in the model.  The same-layer prediction never repeats an
  observed expert.  With no observed expert the next-layer prediction is empty, so the
  prediction that the expert-streaming callback makes from an empty selection always is.\<close>

theorem prediction_well_formed:
  assumes "ca_run ops (ca_new nl ne) = Ret c"
  shows "(\<exists>p. predict_next_layer l observed k c = Ret p \<and> good_ranking ne k p) \<and>
    (\<exists>q. predict_same_layer l observed k c = Ret q \<and> good_ranking ne k q \<and> set q \<inter> set observed = {}) \<and>
    predict_next_layer l [] k c = Ret []"
proof -
  have wf: "ca_wf c" "ca_num_experts c = unat ne" using num_experts_bound [OF assms] by auto
  obtain b where "no_observations c (unat l) = Ret b" using no_observations_ok wf by blast
  then have e: "predict_next_layer l [] k c = Ret []"
    by (simp add: predict_next_layer_def Let_def rank_zero)
  with predict_next_ok [OF wf] predict_same_ok [OF wf] show ?thesis by blast
qed

theorem prediction_well_formed_witness:
  "\<exists>c p. ca_run [Record 0 [0, 1], RecordCross 0 [0, 1] [2, 3], Record 0 [9]] (ca_new 2 4) = Ret c \<and>
     predict_next_layer 0 [1] 1 c = Ret p \<and> good_ranking 4 1 p"
proof -
  obtain c where c: "ca_run [Record 0 [0, 1], RecordCross 0 [0, 1] [2, 3], Record 0 [9]] (ca_new 2 4) = Ret c"
    using ca_run_ok [OF ca_inv_new] by blast
  from prediction_well_formed [OF c, of 0 "[1]" 1] c show ?thesis by blast
qed

end
