(* ===== verification/Expert_Pool.thy ===== *)
theory Expert_Pool
  imports Metadata
begin

text \<open>
  Model of \<open>ExpertPool\<close> of \<open>src/compute/nvme_backend.rs\<close>: the fixed buffer that streamed
  tensors are read into, cut into equal slots.  Slots are handed out last in, first out;
  when none is free the resident layer of least index gives its slots back.  The base
  pointer and the page advice given on release are left out: offsets are relative to the
  base, and what a free slot contains is never relied on.
\<close>

section \<open>State and operations\<close>

record expert_pool =
  ep_pool_size :: usize
  ep_slot_size :: usize
  ep_num_slots :: nat
  ep_layer_slots :: "(u32, nat list) hmap"
  ep_free_slots :: "nat list"

text \<open>The constructor divides by the slot size, which panics when it is zero.\<close>

definition pool_new :: "usize \<Rightarrow> usize \<Rightarrow> expert_pool outcome" where
  "pool_new pool_size slot_size =
     (if slot_size = 0 then Panic
      else let num_slots = unat (pool_size div slot_size)
           in Ret \<lparr>ep_pool_size = pool_size, ep_slot_size = slot_size, ep_num_slots = num_slots,
                   ep_layer_slots = [], ep_free_slots = rev [0..<num_slots]\<rparr>)"

definition slot_offset :: "expert_pool \<Rightarrow> nat \<Rightarrow> usize" where
  "slot_offset p slot_idx = of_nat slot_idx * ep_slot_size p"

definition pool_release_layer :: "u32 \<Rightarrow> expert_pool \<Rightarrow> expert_pool" where
  "pool_release_layer layer_idx p = (case hm_get (ep_layer_slots p) layer_idx of
      None \<Rightarrow> p
    | Some slots \<Rightarrow> p\<lparr>ep_layer_slots := hm_remove layer_idx (ep_layer_slots p),
                      ep_free_slots := ep_free_slots p @ slots\<rparr>)"

definition pop_free :: "expert_pool \<Rightarrow> (nat \<times> expert_pool) option" where
  "pop_free p = (if ep_free_slots p = [] then None
     else Some (last (ep_free_slots p), p\<lparr>ep_free_slots := butlast (ep_free_slots p)\<rparr>))"

fun min_opt :: "'a::linorder list \<Rightarrow> 'a option" where
  "min_opt [] = None"
| "min_opt (x # xs) = Some (foldl min x xs)"

definition evict_candidate :: "u32 \<Rightarrow> expert_pool \<Rightarrow> u32" where
  "evict_candidate layer_idx p = unwrap_or (min_opt (filter (\<lambda>l. l \<noteq> layer_idx) (hm_keys (ep_layer_slots p)))) 0"

fun alloc_slots :: "nat \<Rightarrow> u32 \<Rightarrow> expert_pool \<Rightarrow> nat list \<Rightarrow> (expert_pool \<times> nat list) outcome" where
  "alloc_slots 0 layer_idx p slots = Ret (p, slots)"
| "alloc_slots (Suc n) layer_idx p slots = (case pop_free p of
      Some (slot, p') \<Rightarrow> alloc_slots n layer_idx p' (slots @ [slot])
    | None \<Rightarrow>
        (let p1 = pool_release_layer (evict_candidate layer_idx p) p
         in case pop_free p1 of
              Some (slot, p') \<Rightarrow> alloc_slots n layer_idx p' (slots @ [slot])
            | None \<Rightarrow> Panic))"

definition allocate_layer :: "u32 \<Rightarrow> nat \<Rightarrow> expert_pool \<Rightarrow> (expert_pool \<times> usize list) outcome" where
  "allocate_layer layer_idx num_tensors p = (case hm_get (ep_layer_slots p) layer_idx of
      Some existing \<Rightarrow> Ret (p, map (\<lambda>s. of_nat s * ep_slot_size p) existing)
    | None \<Rightarrow> omap (\<lambda>(p', slots).
        (p'\<lparr>ep_layer_slots := hm_insert layer_idx slots (ep_layer_slots p')\<rparr>,
         map (\<lambda>s. of_nat s * ep_slot_size p) slots)) (alloc_slots num_tensors layer_idx p []))"

section \<open>Partition invariant\<close>

text \<open>The slots in hand, the free slots and the slots of the layers are the slots of the
  pool, each exactly once.\<close>

definition pool_part :: "expert_pool \<Rightarrow> nat list \<Rightarrow> bool" where
  "pool_part p slots \<longleftrightarrow>
     mset (ep_free_slots p @ slots @ concat (map snd (ep_layer_slots p))) = mset [0..<ep_num_slots p]"

definition pool_inv :: "expert_pool \<Rightarrow> bool" where
  "pool_inv p \<longleftrightarrow> 0 < ep_slot_size p \<and> ep_num_slots p = unat (ep_pool_size p div ep_slot_size p) \<and>
     hm_wf (ep_layer_slots p) \<and> pool_part p []"

definition same_shape :: "expert_pool \<Rightarrow> expert_pool \<Rightarrow> bool" where
  "same_shape p q \<longleftrightarrow> ep_pool_size q = ep_pool_size p \<and> ep_slot_size q = ep_slot_size p \<and> ep_num_slots q = ep_num_slots p"

lemma mset_concat_remove:
  "hm_wf m \<Longrightarrow> hm_get m k = Some v \<Longrightarrow>
   mset (concat (map snd m)) = mset v + mset (concat (map snd (hm_remove k m)))"
proof (induction m)
  case (Cons e m)
  obtain k' v' where e: "e = (k', v')" by (cases e)
  show ?case
  proof (cases "k' = k")
    case True
    then have "k \<notin> set (map fst m)" using Cons.prems(1) e by (simp add: hm_wf_def)
    then have "hm_remove k m = m" by (simp add: delete_id)
    with True Cons.prems e show ?thesis by (simp add: AList.delete_eq)
  next
    case False
    with Cons e show ?thesis by (simp add: hm_wf_def AList.delete_eq)
  qed
qed simp

lemma hm_insert_new: "hm_get m k = None \<Longrightarrow> hm_insert k v m = m @ [(k, v)]"
  by (induction m) (auto split: if_splits)

lemma release_part: "hm_wf (ep_layer_slots p) \<Longrightarrow> pool_part (pool_release_layer l p) slots = pool_part p slots"
  by (auto simp: pool_part_def pool_release_layer_def mset_concat_remove ac_simps split: option.splits)

lemma release_wf: "hm_wf (ep_layer_slots p) \<Longrightarrow> hm_wf (ep_layer_slots (pool_release_layer l p))"
  by (auto simp: pool_release_layer_def split: option.splits)

lemma release_shape: "same_shape p (pool_release_layer l p)"
  by (auto simp: same_shape_def pool_release_layer_def split: option.splits)

lemma release_get:
  "hm_get (ep_layer_slots (pool_release_layer l p)) k = (if k = l then None else hm_get (ep_layer_slots p) k)"
  by (auto simp: pool_release_layer_def split: option.splits)

lemma pop_free_Some:
  assumes "pop_free p = Some (s, p')"
  shows "ep_free_slots p = ep_free_slots p' @ [s] \<and> ep_layer_slots p' = ep_layer_slots p \<and> same_shape p p'"
  using assms by (auto simp: pop_free_def same_shape_def split: if_splits)

lemma pop_part: "pop_free p = Some (s, p') \<Longrightarrow> pool_part p' (slots @ [s]) = pool_part p slots"
  using pop_free_Some [of p s p'] by (auto simp: pool_part_def same_shape_def)

lemma same_shape_trans: "same_shape p q \<Longrightarrow> same_shape q r \<Longrightarrow> same_shape p r"
  by (simp add: same_shape_def)

lemma alloc_slots_inv:
  "alloc_slots n l p slots = Ret (p', slots') \<Longrightarrow> hm_wf (ep_layer_slots p) \<Longrightarrow>
   hm_wf (ep_layer_slots p') \<and> pool_part p' slots' = pool_part p slots \<and> same_shape p p' \<and>
   length slots' = length slots + n \<and>
   (\<forall>k v. hm_get (ep_layer_slots p') k = Some v \<longrightarrow> hm_get (ep_layer_slots p) k = Some v)"
proof (induction n l p slots rule: alloc_slots.induct)
  case (2 n l p slots)
  show ?case
  proof (cases "pop_free p")
    case (Some e)
    obtain s q where e: "e = (s, q)" by (cases e)
    with 2 Some pop_free_Some [of p s q] pop_part [of p s q slots] show ?thesis
      by (auto intro: same_shape_trans)
  next
    case None
    let ?p1 = "pool_release_layer (evict_candidate l p) p"
    obtain s q where q: "pop_free ?p1 = Some (s, q)" "alloc_slots n l q (slots @ [s]) = Ret (p', slots')"
      using 2(3) None by (auto simp: Let_def split: option.splits)
    note pf = pop_free_Some [OF q(1)]
    have IH: "hm_wf (ep_layer_slots p') \<and> pool_part p' slots' = pool_part q (slots @ [s]) \<and> same_shape q p' \<and>
        length slots' = length (slots @ [s]) + n \<and>
        (\<forall>k v. hm_get (ep_layer_slots p') k = Some v \<longrightarrow> hm_get (ep_layer_slots q) k = Some v)"
      using 2(1) [OF None refl q(1) refl q(2)] pf release_wf [OF 2(4)] by simp
    have sh: "same_shape p p'"
      using release_shape [of p] pf IH by (blast intro: same_shape_trans)
    have pp: "pool_part p' slots' = pool_part p slots"
      using IH pop_part [OF q(1), of slots] release_part [OF 2(4)] by simp
    have "hm_get (ep_layer_slots p) k = Some v" if "hm_get (ep_layer_slots p') k = Some v" for k v
    proof -
      have "hm_get (ep_layer_slots q) k = Some v" using IH that by blast
      then show ?thesis using pf by (simp add: release_get split: if_splits)
    qed
    with IH sh pp show ?thesis by simp
  qed
qed (simp add: same_shape_def)

lemma pool_new_inv: "pool_new bytes slot = Ret p \<Longrightarrow> pool_inv p"
  by (auto simp: pool_new_def pool_inv_def pool_part_def Let_def word_neq_0_conv split: if_splits)

lemma pool_release_inv: "pool_inv p \<Longrightarrow> pool_inv (pool_release_layer l p)"
  using release_shape [of p l] by (simp add: pool_inv_def release_part release_wf same_shape_def)

lemma alloc_layer_inv: "allocate_layer l n p = Ret (p', offs) \<Longrightarrow> pool_inv p \<Longrightarrow> pool_inv p'"
proof (cases "hm_get (ep_layer_slots p) l")
  case None
  assume "allocate_layer l n p = Ret (p', offs)" and inv: "pool_inv p"
  with None obtain q slots where q: "alloc_slots n l p [] = Ret (q, slots)"
    and p': "p' = q\<lparr>ep_layer_slots := hm_insert l slots (ep_layer_slots q)\<rparr>"
    by (auto simp: allocate_layer_def omap_Ret)
  note a = alloc_slots_inv [OF q]
  have "hm_get (ep_layer_slots q) l = None" using a inv None by (cases "hm_get (ep_layer_slots q) l") (auto simp: pool_inv_def)
  then show ?thesis
    using a inv by (auto simp: p' pool_inv_def same_shape_def pool_part_def hm_insert_new ac_simps hm_wf_def map_of_eq_None_iff)
qed (auto simp: allocate_layer_def)

section \<open>When allocation succeeds\<close>

definition no_empty_layers :: "expert_pool \<Rightarrow> bool" where
  "no_empty_layers p \<longleftrightarrow> (\<forall>l slots. hm_get (ep_layer_slots p) l = Some slots \<longrightarrow> slots \<noteq> [])"

lemma foldl_min_in:
  fixes xs :: "'a::linorder list"
  shows "foldl min x xs \<in> insert x (set xs)"
proof (induction xs arbitrary: x)
  case (Cons y ys)
  show ?case using Cons [of "min x y"] by (auto simp: min_def split: if_splits)
qed simp

lemma min_opt_in: "min_opt xs = Some x \<Longrightarrow> x \<in> set xs"
  using foldl_min_in by (cases xs) force+

lemma min_opt_None: "min_opt xs = None \<longleftrightarrow> xs = []"
  by (cases xs) auto

lemma pool_part_size:
  assumes "pool_part p slots"
  shows "length (ep_free_slots p) + length slots + length (concat (map snd (ep_layer_slots p))) = ep_num_slots p"
  using arg_cong [OF assms [unfolded pool_part_def], of size] by simp

lemma evict_frees:
  assumes "pool_part p slots" "no_empty_layers p" "hm_get (ep_layer_slots p) l = None"
    "ep_free_slots p = []" "length slots < ep_num_slots p"
  shows "ep_free_slots (pool_release_layer (evict_candidate l p) p) \<noteq> []"
proof -
  have "concat (map snd (ep_layer_slots p)) \<noteq> []"
  proof
    assume "concat (map snd (ep_layer_slots p)) = []"
    then show False using pool_part_size [OF assms(1)] assms(4,5) by (simp only: list.size)
  qed
  then obtain k where "k \<in> set (hm_keys (ep_layer_slots p))"
    by (cases "ep_layer_slots p") (auto simp: hm_keys_def)
  moreover have "l \<notin> set (hm_keys (ep_layer_slots p))" using assms(3) by (simp add: hm_get_None_iff)
  ultimately have ne: "filter (\<lambda>k. k \<noteq> l) (hm_keys (ep_layer_slots p)) \<noteq> []" by (auto simp: filter_empty_conv)
  then obtain v where v: "min_opt (filter (\<lambda>k. k \<noteq> l) (hm_keys (ep_layer_slots p))) = Some v"
    using min_opt_None by blast
  then have "v \<in> set (hm_keys (ep_layer_slots p))" using min_opt_in by fastforce
  then obtain ss where ss: "hm_get (ep_layer_slots p) v = Some ss" by (auto simp: set_hm_keys)
  moreover from this assms(2) have "ss \<noteq> []" by (auto simp: no_empty_layers_def)
  ultimately show ?thesis by (simp add: evict_candidate_def v pool_release_layer_def)
qed

lemma alloc_slots_total:
  assumes "pool_part p slots" "no_empty_layers p" "hm_wf (ep_layer_slots p)" "hm_get (ep_layer_slots p) l = None"
    "length slots + n \<le> ep_num_slots p"
  shows "alloc_slots n l p slots \<noteq> Panic"
  using assms
proof (induction n l p slots rule: alloc_slots.induct)
  case (2 n l p slots)
  show ?case
  proof (cases "pop_free p")
    case (Some e)
    obtain s q where e: "e = (s, q)" by (cases e)
    note pf = pop_free_Some [OF Some [unfolded e]]
    have "alloc_slots n l q (slots @ [s]) \<noteq> Panic"
      using 2(2) [OF Some [unfolded e] refl] pf pop_part [OF Some [unfolded e]] "2.prems"
      by (simp add: no_empty_layers_def same_shape_def)
    then show ?thesis by (simp add: Some e)
  next
    case None
    let ?p1 = "pool_release_layer (evict_candidate l p) p"
    have "ep_free_slots p = []" using None by (simp add: pop_free_def split: if_splits)
    then have "ep_free_slots ?p1 \<noteq> []" using evict_frees "2.prems" by simp
    then obtain s q where q: "pop_free ?p1 = Some (s, q)" by (auto simp: pop_free_def)
    note pf = pop_free_Some [OF q]
    have "alloc_slots n l q (slots @ [s]) \<noteq> Panic"
      using 2(1) [OF None refl q refl] pf pop_part [OF q] "2.prems" release_part [OF "2.prems"(3)]
        release_wf [OF "2.prems"(3)] release_shape [of p]
      by (auto simp: no_empty_layers_def same_shape_def release_get split: if_splits)
    then show ?thesis by (simp add: None q Let_def)
  qed
qed simp

lemma alloc_slots_too_many:
  assumes "alloc_slots n l p slots = Ret (p', slots')" "hm_wf (ep_layer_slots p)" "pool_part p slots"
  shows "length slots + n \<le> ep_num_slots p"
proof -
  note a = alloc_slots_inv [OF assms(1,2)]
  with assms(3) have "pool_part p' slots'" by simp
  from pool_part_size [OF this] a show ?thesis by (simp add: same_shape_def)
qed

section \<open>The contract of a slot store\<close>

text \<open>
  What the loading code relies on: a layer that was given slots owns as many as it asked
  for, no two layers share one, and every slot lies in the store.  Giving slots to a layer
  keeps the slots of any other layer or takes all of them away.
\<close>

datatype 'l slot_op = Alloc 'l nat | Release 'l

fun run_slots :: "('l \<Rightarrow> nat \<Rightarrow> 's \<Rightarrow> ('s \<times> 'o list) outcome) \<Rightarrow> ('l \<Rightarrow> 's \<Rightarrow> 's) \<Rightarrow> 'l slot_op list \<Rightarrow> 's \<Rightarrow> 's outcome" where
  "run_slots alloc release [] s = Ret s"
| "run_slots alloc release (Alloc l n # ops) s = obind (alloc l n s) (\<lambda>(s', _). run_slots alloc release ops s')"
| "run_slots alloc release (Release l # ops) s = run_slots alloc release ops (release l s)"

locale slot_store =
  fixes inv :: "'s \<Rightarrow> bool" and owned :: "'s \<Rightarrow> 'l \<Rightarrow> nat list option" and cap :: "'s \<Rightarrow> nat"
    and alloc :: "'l \<Rightarrow> nat \<Rightarrow> 's \<Rightarrow> ('s \<times> 'o list) outcome" and release :: "'l \<Rightarrow> 's \<Rightarrow> 's"
  assumes alloc_inv: "inv s \<Longrightarrow> alloc l n s = Ret (s', offs) \<Longrightarrow> inv s' \<and> cap s' = cap s"
    and release_inv: "inv s \<Longrightarrow> inv (release l s) \<and> cap (release l s) = cap s"
    and alloc_owned: "inv s \<Longrightarrow> alloc l n s = Ret (s', offs) \<Longrightarrow>
      (\<exists>a. owned s' l = Some a \<and> length offs = length a \<and> (owned s l = None \<longrightarrow> length a = n) \<and> (owned s l \<noteq> None \<longrightarrow> s' = s))"
    and alloc_other: "inv s \<Longrightarrow> alloc l n s = Ret (s', offs) \<Longrightarrow> l' \<noteq> l \<Longrightarrow> owned s' l' = Some a \<Longrightarrow> owned s l' = Some a"
    and release_owned: "owned (release l s) l' = (if l' = l then None else owned s l')"
    and in_store: "inv s \<Longrightarrow> owned s l = Some a \<Longrightarrow> distinct a \<and> set a \<subseteq> {..<cap s}"
    and exclusive: "inv s \<Longrightarrow> owned s l = Some a \<Longrightarrow> owned s l' = Some b \<Longrightarrow> l \<noteq> l' \<Longrightarrow> set a \<inter> set b = {}"

context slot_store begin

lemma run_inv: "run_slots alloc release ops s = Ret s' \<Longrightarrow> inv s \<Longrightarrow> inv s' \<and> cap s' = cap s"
proof (induction ops arbitrary: s)
  case (Cons x ops)
  show ?case
  proof (cases x)
    case (Alloc l n)
    with Cons.prems(1) obtain t offs where t: "alloc l n s = Ret (t, offs)" "run_slots alloc release ops t = Ret s'"
      by (auto simp: obind_Ret)
    with Cons.IH [OF t(2)] alloc_inv [OF Cons.prems(2) t(1)] show ?thesis by simp
  next
    case (Release l)
    with Cons release_inv [OF Cons.prems(2), of l] show ?thesis by auto
  qed
qed simp

lemma slots_apart:
  assumes "inv s" "owned s l = Some a" "owned s l' = Some b" "i < length a" "j < length b" "(l, i) \<noteq> (l', j)"
  shows "a ! i \<noteq> b ! j \<and> a ! i < cap s \<and> b ! j < cap s"
proof (cases "l = l'")
  case True
  with assms in_store [OF assms(1,2)] show ?thesis by (auto simp: nth_eq_iff_index_eq subset_iff)
next
  case False
  with exclusive [OF assms(1-3)] assms(4,5) have "a ! i \<noteq> b ! j" by (metis IntI emptyE nth_mem)
  with assms in_store [OF assms(1,2)] in_store [OF assms(1,3)] show ?thesis by (auto simp: subset_iff)
qed

lemma nonempty_run:
  assumes "run_slots alloc release ops s = Ret s'" "inv s" "\<forall>l. Alloc l 0 \<notin> set ops" "\<forall>l. owned s l \<noteq> Some []"
  shows "owned s' l \<noteq> Some []"
  using assms
proof (induction ops arbitrary: s)
  case (Cons x ops)
  show ?case
  proof (cases x)
    case (Alloc k n)
    with Cons.prems(1) obtain t offs where t: "alloc k n s = Ret (t, offs)" "run_slots alloc release ops t = Ret s'"
      by (auto simp: obind_Ret)
    have n: "n \<noteq> 0" using Alloc Cons.prems(3) by auto
    have "owned t l \<noteq> Some []" for l
    proof
      assume o: "owned t l = Some []"
      show False
      proof (cases "l = k")
        case True
        then show False using alloc_owned [OF Cons.prems(2) t(1)] o n Cons.prems(4)
          by (cases "owned s k") auto
      next
        case False
        then show False using alloc_other [OF Cons.prems(2) t(1) _ o] Cons.prems(4) by blast
      qed
    qed
    then show ?thesis using Cons.IH [OF t(2)] alloc_inv [OF Cons.prems(2) t(1)] Cons.prems(3) by auto
  next
    case (Release k)
    then show ?thesis
      using Cons.IH [of "release k s"] Cons.prems release_inv [OF Cons.prems(2), of k] by (auto simp: release_owned)
  qed
qed auto

end

section \<open>The pool is a slot store\<close>

abbreviation pool_owned :: "expert_pool \<Rightarrow> u32 \<Rightarrow> nat list option" where
  "pool_owned p l \<equiv> hm_get (ep_layer_slots p) l"

abbreviation pool_run :: "u32 slot_op list \<Rightarrow> expert_pool \<Rightarrow> expert_pool outcome" where
  "pool_run \<equiv> run_slots allocate_layer pool_release_layer"

lemma concat_get: "hm_wf m \<Longrightarrow> hm_get m k = Some v \<Longrightarrow> \<exists>rest. mset (concat (map snd m)) = mset v + rest"
  by (intro exI, rule mset_concat_remove)

lemma pool_inv_distinct: "pool_inv p \<Longrightarrow> distinct (concat (map snd (ep_layer_slots p)))
    \<and> set (concat (map snd (ep_layer_slots p))) \<subseteq> {..<ep_num_slots p}"
proof -
  assume "pool_inv p"
  then have m: "mset (ep_free_slots p @ concat (map snd (ep_layer_slots p))) = mset [0..<ep_num_slots p]"
    by (simp add: pool_inv_def pool_part_def)
  from mset_eq_imp_distinct_iff [OF m] mset_eq_setD [OF m] show ?thesis by auto
qed

lemma pool_in_store:
  assumes "pool_inv p" "pool_owned p l = Some a"
  shows "distinct a \<and> set a \<subseteq> {..<ep_num_slots p}"
proof -
  have "(l, a) \<in> set (ep_layer_slots p)" using assms(2) by (rule map_of_SomeD)
  with pool_inv_distinct [OF assms(1)] show ?thesis by (force simp: distinct_concat_iff subset_iff)
qed

lemma pool_exclusive:
  assumes i: "pool_inv p" and a: "pool_owned p l = Some a" and b: "pool_owned p l' = Some b" and ne: "l \<noteq> l'"
  shows "set a \<inter> set b = {}"
proof -
  have wf: "hm_wf (ep_layer_slots p)" using i by (simp add: pool_inv_def)
  have "hm_get (hm_remove l (ep_layer_slots p)) l' = Some b" using b ne by simp
  from concat_get [OF hm_wf_remove [OF wf] this] mset_concat_remove [OF wf a]
  obtain rest where m: "mset (concat (map snd (ep_layer_slots p))) = mset (a @ b) + rest" by auto
  obtain r where "mset r = rest" by (metis ex_mset)
  with m have "mset (concat (map snd (ep_layer_slots p))) = mset (a @ b @ r)" by simp
  with pool_inv_distinct [OF i] have "distinct (a @ b @ r)" using mset_eq_imp_distinct_iff by blast
  then show ?thesis by auto
qed

lemma alloc_layer_new:
  assumes "allocate_layer l n p = Ret (p', offs)" "pool_inv p" "pool_owned p l = None"
  obtains slots where "pool_owned p' l = Some slots" "length slots = n"
    "offs = map (slot_offset p') slots" "same_shape p p'"
    "\<And>k a. k \<noteq> l \<Longrightarrow> pool_owned p' k = Some a \<Longrightarrow> pool_owned p k = Some a"
proof -
  from assms(1,3) obtain q slots where q: "alloc_slots n l p [] = Ret (q, slots)"
    and p': "p' = q\<lparr>ep_layer_slots := hm_insert l slots (ep_layer_slots q)\<rparr>"
    and o: "offs = map (\<lambda>s. of_nat s * ep_slot_size p) slots"
    by (auto simp: allocate_layer_def omap_Ret)
  have wf: "hm_wf (ep_layer_slots p)" using assms(2) by (simp add: pool_inv_def)
  note a = alloc_slots_inv [OF q wf]
  show thesis
    using that [of slots] a by (simp add: p' o same_shape_def slot_offset_def)
qed

interpretation pool: slot_store pool_inv pool_owned ep_num_slots allocate_layer pool_release_layer
proof unfold_locales
  fix p p' :: expert_pool and l l' :: u32 and n offs a b
  assume i: "pool_inv p"
  show "pool_inv (pool_release_layer l p) \<and> ep_num_slots (pool_release_layer l p) = ep_num_slots p"
    using pool_release_inv [OF i] release_shape [of p l] by (simp add: same_shape_def)
  show "distinct a \<and> set a \<subseteq> {..<ep_num_slots p}" if "pool_owned p l = Some a"
    using pool_in_store [OF i that] .
  show "set a \<inter> set b = {}" if "pool_owned p l = Some a" "pool_owned p l' = Some b" "l \<noteq> l'"
    using pool_exclusive [OF i that] .
  assume al: "allocate_layer l n p = Ret (p', offs)"
  show "pool_inv p' \<and> ep_num_slots p' = ep_num_slots p"
  proof (cases "pool_owned p l")
    case None
    from alloc_layer_new [OF al i None] alloc_layer_inv [OF al i] show ?thesis by (auto simp: same_shape_def)
  next
    case Some
    with al i show ?thesis by (auto simp: allocate_layer_def)
  qed
  show "\<exists>a. pool_owned p' l = Some a \<and> length offs = length a \<and>
      (pool_owned p l = None \<longrightarrow> length a = n) \<and> (pool_owned p l \<noteq> None \<longrightarrow> p' = p)"
  proof (cases "pool_owned p l")
    case None
    from alloc_layer_new [OF al i None] None show ?thesis by (metis length_map)
  next
    case Some
    with al show ?thesis by (auto simp: allocate_layer_def)
  qed
  show "pool_owned p l' = Some a" if "l' \<noteq> l" "pool_owned p' l' = Some a"
  proof (cases "pool_owned p l")
    case None
    from alloc_layer_new [OF al i None] that show ?thesis by metis
  next
    case Some
    with al that show ?thesis by (auto simp: allocate_layer_def)
  qed
qed (simp add: release_get)

section \<open>Properties\<close>

lemma pool_new_shape:
  "pool_new bytes slot = Ret p \<Longrightarrow> slot \<noteq> 0 \<and> ep_slot_size p = slot \<and> ep_num_slots p = unat bytes div unat slot \<and>
     ep_layer_slots p = []"
  by (auto simp: pool_new_def Let_def unat_div split: if_splits)

lemma run_shape: "pool_run ops p = Ret q \<Longrightarrow> pool_inv p \<Longrightarrow> same_shape p q"
proof (induction ops arbitrary: p)
  case (Cons x ops)
  show ?case
  proof (cases x)
    case (Alloc l n)
    with Cons.prems obtain t offs where t: "allocate_layer l n p = Ret (t, offs)" "pool_run ops t = Ret q"
      by (auto simp: obind_Ret)
    have "same_shape p t"
    proof (cases "pool_owned p l")
      case None
      from alloc_layer_new [OF t(1) Cons.prems(2) None] show ?thesis by metis
    next
      case Some
      with t(1) show ?thesis by (auto simp: allocate_layer_def same_shape_def)
    qed
    with Cons.IH [OF t(2)] alloc_layer_inv [OF t(1) Cons.prems(2)] show ?thesis by (blast intro: same_shape_trans)
  next
    case (Release l)
    with Cons pool_release_inv [OF Cons.prems(2), of l] release_shape [of p l] show ?thesis
      by (auto intro: same_shape_trans)
  qed
qed (simp add: same_shape_def)

text \<open>The byte offset of a slot does not wrap, and its bytes end inside the pool.\<close>

lemma slot_in_pool:
  assumes "pool_new bytes slot = Ret p0" "same_shape p0 p" "s < ep_num_slots p"
  shows "unat (slot_offset p s) = s * unat slot \<and> s * unat slot + unat slot \<le> unat bytes"
proof -
  from pool_new_shape [OF assms(1)] assms(2,3) have s: "s < unat bytes div unat slot" "ep_slot_size p = slot"
    by (auto simp: same_shape_def)
  from s(1) have "Suc s * unat slot \<le> unat bytes div unat slot * unat slot" by (intro mult_le_mono1) simp
  then have le: "s * unat slot + unat slot \<le> unat bytes"
    by (metis add.commute div_times_less_eq_dividend le_trans mult_Suc)
  have pos: "0 < unat slot" using pool_new_shape [OF assms(1)] by (simp add: unat_gt_0)
  have b: "unat bytes < 2 ^ 64" using unsigned_less [of bytes, where ?'a = nat] by simp
  have "s \<le> s * unat slot" using pos by simp
  with le b have "s < 2 ^ 64" by linarith
  then have us: "unat (of_nat s :: usize) = s" by (simp add: unat_of_nat)
  with le b s(2) have "unat (slot_offset p s) = s * unat slot"
    by (simp add: slot_offset_def unat_mult_no_wrap)
  with le show ?thesis by simp
qed

text \<open>C8. Start from a new pool and perform any sequence of allocations and releases that does
  not panic.  Then the byte ranges of any two slots held by resident layers (of one layer or
  of two) lie inside the pool and do not overlap, so a read into one tensor's slot never
  touches another tensor's data.\<close>

theorem pool_ranges_disjoint:
  assumes "pool_new bytes slot = Ret p0" "pool_run ops p0 = Ret p"
    "pool_owned p l = Some a" "pool_owned p l' = Some b" "i < length a" "j < length b" "(l, i) \<noteq> (l', j)"
  shows "unat (slot_offset p (a ! i)) + unat slot \<le> unat bytes \<and>
    (unat (slot_offset p (a ! i)) + unat slot \<le> unat (slot_offset p (b ! j)) \<or>
     unat (slot_offset p (b ! j)) + unat slot \<le> unat (slot_offset p (a ! i)))"
proof -
  have i: "pool_inv p" using pool.run_inv [OF assms(2)] pool_new_inv [OF assms(1)] by blast
  have sh: "same_shape p0 p" using run_shape [OF assms(2) pool_new_inv [OF assms(1)]] .
  note ap = pool.slots_apart [OF i assms(3-7)]
  have le: "x * unat slot + unat slot \<le> y * unat slot" if "x < y" for x y :: nat
    using that mult_le_mono1 [of "Suc x" y "unat slot"] by simp
  from ap consider "a ! i < b ! j" | "b ! j < a ! i" by linarith
  then show ?thesis
    using slot_in_pool [OF assms(1) sh, of "a ! i"] slot_in_pool [OF assms(1) sh, of "b ! j"] ap le
    by cases auto
qed

definition demo_ops :: "u32 slot_op list" where
  "demo_ops = [Alloc 0 2, Alloc 1 2, Alloc 2 1]"

definition demo_pool :: expert_pool where
  "demo_pool = \<lparr>ep_pool_size = 64, ep_slot_size = 16, ep_num_slots = 4,
     ep_layer_slots = [(1, [2, 3]), (2, [1])], ep_free_slots = [0]\<rparr>"

lemma demo_run: "\<exists>p0. pool_new 64 16 = Ret p0 \<and> pool_run demo_ops p0 = Ret demo_pool"
proof -
  have "obind (pool_new 64 16) (pool_run demo_ops) = Ret demo_pool"
    unfolding demo_ops_def demo_pool_def by code_simp
  then show ?thesis by (simp add: obind_Ret)
qed

theorem pool_ranges_disjoint_witness:
  "\<exists>p0 p. pool_new 64 16 = Ret p0 \<and> pool_run [Alloc 0 2, Alloc 1 2, Alloc 2 1] p0 = Ret p \<and>
    pool_owned p 1 = Some [2, 3] \<and> pool_owned p 2 = Some [1] \<and>
    (unat (slot_offset p 3) + unat (16 :: usize) \<le> unat (slot_offset p 1) \<or>
     unat (slot_offset p 1) + unat (16 :: usize) \<le> unat (slot_offset p 3))"
proof -
  obtain p0 where p: "pool_new 64 16 = Ret p0" "pool_run demo_ops p0 = Ret demo_pool" using demo_run by blast
  have o: "pool_owned demo_pool 1 = Some [2, 3]" "pool_owned demo_pool 2 = Some [1]" by (simp_all add: demo_pool_def)
  from pool_ranges_disjoint [OF p o, of 1 0] p o show ?thesis by (auto simp: demo_ops_def)
qed

text \<open>C31. In a pool reached from a new one by any sequence of allocations (each of at least one
  tensor) and releases, allocating for a layer that is not resident succeeds exactly when the
  layer's tensors fit in the pool: other layers are evicted as needed, and the
  \<open>expect("pool exhausted after eviction")\<close> fires only for a layer larger than the pool.\<close>

theorem allocation_succeeds_iff_fits:
  assumes "pool_new bytes slot = Ret p0" "pool_run ops p0 = Ret p" "\<forall>l. Alloc l 0 \<notin> set ops"
    "pool_owned p l = None"
  shows "(\<exists>p' offs. allocate_layer l n p = Ret (p', offs)) \<longleftrightarrow> n \<le> unat bytes div unat slot"
proof -
  note i0 = pool_new_inv [OF assms(1)] and s0 = pool_new_shape [OF assms(1)]
  have i: "pool_inv p" and c: "ep_num_slots p = unat bytes div unat slot"
    using pool.run_inv [OF assms(2) i0] s0 by auto
  have ne: "no_empty_layers p"
    using pool.nonempty_run [OF assms(2) i0 assms(3)] s0 by (auto simp: no_empty_layers_def)
  have part: "pool_part p []" and wf: "hm_wf (ep_layer_slots p)" using i by (auto simp: pool_inv_def)
  show ?thesis
  proof
    assume "\<exists>p' offs. allocate_layer l n p = Ret (p', offs)"
    then obtain q slots where "alloc_slots n l p [] = Ret (q, slots)"
      using assms(4) by (auto simp: allocate_layer_def omap_Ret)
    from alloc_slots_too_many [OF this wf part] c show "n \<le> unat bytes div unat slot" by simp
  next
    assume "n \<le> unat bytes div unat slot"
    then have "alloc_slots n l p [] \<noteq> Panic" using alloc_slots_total [OF part ne wf assms(4)] c by simp
    then show "\<exists>p' offs. allocate_layer l n p = Ret (p', offs)"
      using assms(4) by (cases "alloc_slots n l p []") (auto simp: allocate_layer_def omap_Ret)
  qed
qed

theorem allocation_succeeds_iff_fits_witness:
  "\<exists>p0 p. pool_new 64 16 = Ret p0 \<and> pool_run [Alloc 0 2, Alloc 1 2, Alloc 2 1] p0 = Ret p \<and>
    (\<exists>p' offs. allocate_layer 7 4 p = Ret (p', offs)) \<and> \<not> (\<exists>p' offs. allocate_layer 7 5 p = Ret (p', offs))"
proof -
  obtain p0 where p: "pool_new 64 16 = Ret p0" "pool_run demo_ops p0 = Ret demo_pool" using demo_run by blast
  have "\<forall>l. Alloc l 0 \<notin> set demo_ops" "pool_owned demo_pool 7 = None" by (simp_all add: demo_ops_def demo_pool_def)
  from allocation_succeeds_iff_fits [OF p this, of 4] allocation_succeeds_iff_fits [OF p this, of 5] p
  show ?thesis by (auto simp: demo_ops_def)
qed

end
