(* ===== verification/Prefetch_State.thy ===== *)
theory Prefetch_State
  imports Io_Pool Neuron_Cache Coactivation Expert_Pool
begin

text \<open>
  Model of \<open>PrefetchState\<close> of \<open>src/compute/nvme_backend.rs\<close>: its fields, the I/O workers that
  act on it, and the loading, releasing and prefetching of whole layers.  The fields that do
  not change after \<open>build_prefetch_state\<close> and the pool activation form \<open>prefetch_config\<close>; the
  fields behind a mutex or an atomic form \<open>prefetch_state\<close>, together with what the code
  reaches through pointers: memory, the \<open>data\<close> fields of the tensors, the completion
  counters shared by \<open>Arc\<close>, and the clock.  Every operation of the inference thread is a
  function on the state; what the workers do between its steps enters through the step
  functions of the workers and, at a wait on the condition variable, through the argument
  \<open>env\<close>, which stands for one return of \<open>Condvar::wait\<close>.
\<close>

section \<open>Data\<close>

datatype layer_status = NotLoaded | Loading | Loaded

datatype prefetch_request = LayerRequest u32 | ExpertSlices u32 "u32 list"

datatype trace_event =
    LayerHit u32
  | LayerStall u32 f64
  | LoadComplete u32 u64 f64
  | Released u32
  | DecodeComplete f64

record tensor_location =
  tl_offset_in_buffer :: usize
  tl_size :: usize
  tl_file_offset :: u64
  tl_layer_index :: "u32 option"

record dense_ffn_layout =
  df_tensor_name :: string
  df_layer_index :: u32
  df_file_offset :: u64
  df_size :: usize

text \<open>A worker waits for a task, reads its regions, or is about to publish a finished layer.\<close>

datatype worker = Idle | Reading io_task "region list" u64 nat | Notify u32

record io_pool =
  iop_queue :: "io_task list"
  iop_workers :: "worker list"
  iop_bytes_loaded :: u64
  iop_load_time_ns :: u64

record prefetch_config =
  pc_tensor_map :: "(string, tensor_location) hmap"
  pc_layer_regions :: "(u32, region list) hmap"
  pc_num_layers :: u32
  pc_nvme_layers :: "u32 list"
  pc_sorted_nvme_layers :: "u32 list"
  pc_expert_layouts :: "(u32, expert_layout list) hmap"
  pc_non_expert_regions :: "(u32, region list) hmap"
  pc_num_experts_used :: u32
  pc_num_experts_total :: u32
  pc_dense_ffn_layouts :: "(u32, dense_ffn_layout list) hmap"
  pc_dense_ffn_lookahead :: u32
  pc_fused_tensor_ptrs :: "(string, nat option) hmap"
  pc_resident_ffn_layers :: "u32 list"
  pc_resident_ffn_base :: ptr
  pc_resident_ffn_offsets :: "(string, usize) hmap"

record prefetch_state =
  ps_current_layer :: i32
  ps_buffer_base :: ptr
  ps_layer_status :: "(u32, layer_status) hmap"
  ps_prefetch_enabled :: bool
  ps_io_pool :: "io_pool option"
  ps_keep_nvme_resident :: bool
  ps_selected_experts :: "(u32, u32 list) hmap"
  ps_neuron_cache :: neuron_cache
  ps_co_activation :: coactivation
  ps_prev_layer_experts :: "(u32 \<times> u32 list) option"
  ps_expert_streaming :: bool
  ps_dense_ffn_streaming :: bool
  ps_expert_pool :: "expert_pool option"
  ps_pool_base :: ptr
  ps_trace_enabled :: bool
  ps_trace :: "(f64 \<times> trace_event) list"
  ps_completions :: "io_completion list"
  ps_tensor_data :: "(nat, ptr) hmap"
  ps_mem :: mem
  ps_now :: nat

type_synonym env = "prefetch_state \<Rightarrow> prefetch_state"

abbreviation status_of :: "prefetch_state \<Rightarrow> u32 \<Rightarrow> layer_status option" where
  "status_of s l \<equiv> hm_get (ps_layer_status s) l"

definition set_status :: "u32 \<Rightarrow> layer_status \<Rightarrow> prefetch_state \<Rightarrow> prefetch_state" where
  "set_status l st s = s\<lparr>ps_layer_status := hm_insert l st (ps_layer_status s)\<rparr>"

section \<open>Trace\<close>

text \<open>The clock counts nanoseconds since the trace was created.\<close>

definition elapsed_ms :: "nat \<Rightarrow> prefetch_state \<Rightarrow> f64" where
  "elapsed_ms start s = f_mul (as_secs_f64 (ps_now s - start)) (Fin 1000)"

definition trace_record :: "trace_event \<Rightarrow> prefetch_state \<Rightarrow> prefetch_state" where
  "trace_record ev s = s\<lparr>ps_trace := ps_trace s @ [(elapsed_ms 0 s, ev)]\<rparr>"

definition trace_if :: "bool \<Rightarrow> trace_event \<Rightarrow> prefetch_state \<Rightarrow> prefetch_state" where
  "trace_if b ev s = (if b then trace_record ev s else s)"

definition enable_trace :: "prefetch_state \<Rightarrow> prefetch_state" where
  "enable_trace s = s\<lparr>ps_trace_enabled := True\<rparr>"

definition record_decode :: "f64 \<Rightarrow> prefetch_state \<Rightarrow> prefetch_state" where
  "record_decode decode_ms s = trace_if (ps_trace_enabled s) (DecodeComplete decode_ms) s"

section \<open>Workers\<close>

text \<open>One worker: take the next task of the channel, read a region, account for a finished
  task, publish the layer.  Each is \<open>None\<close> when the worker is not at that point.\<close>

definition update_worker :: "nat \<Rightarrow> worker \<Rightarrow> io_pool \<Rightarrow> io_pool" where
  "update_worker i w p = p\<lparr>iop_workers := (iop_workers p)[i := w]\<rparr>"

definition worker_take :: "nat \<Rightarrow> prefetch_state \<Rightarrow> prefetch_state option" where
  "worker_take i s = (case ps_io_pool s of
      None \<Rightarrow> None
    | Some p \<Rightarrow> (if i < length (iop_workers p) \<and> iop_workers p ! i = Idle
        then (case iop_queue p of
                [] \<Rightarrow> None
              | t # ts \<Rightarrow> Some (s\<lparr>ps_io_pool := Some (update_worker i (Reading t (it_regions t) 0 (ps_now s)) (p\<lparr>iop_queue := ts\<rparr>))\<rparr>))
        else None))"

definition worker_read :: "pread \<Rightarrow> nat \<Rightarrow> prefetch_state \<Rightarrow> prefetch_state option" where
  "worker_read pread i s = (case ps_io_pool s of
      None \<Rightarrow> None
    | Some p \<Rightarrow> (if i < length (iop_workers p)
        then (case iop_workers p ! i of
                Reading t (r # rs) tot st \<Rightarrow> Some (s\<lparr>
                  ps_io_pool := Some (update_worker i (Reading t rs (tot + fst (snd r)) st) p),
                  ps_mem := pread_region pread (it_base t) r (ps_mem s)\<rparr>)
              | _ \<Rightarrow> None)
        else None))"

definition worker_done :: "nat \<Rightarrow> prefetch_state \<Rightarrow> prefetch_state option" where
  "worker_done i s = (case ps_io_pool s of
      None \<Rightarrow> None
    | Some p \<Rightarrow> (if i < length (iop_workers p)
        then (case iop_workers p ! i of
                Reading t [] tot st \<Rightarrow>
                  (let ns = of_nat (ps_now s - st);
                       k = it_completion t; c = ps_completions s ! k; prev = ic_remaining c;
                       w = (if prev = 1 \<and> ic_update_status c then Notify (ic_layer_idx c) else Idle);
                       p1 = update_worker i w p;
                       s1 = s\<lparr>ps_io_pool := Some (p1\<lparr>iop_bytes_loaded := iop_bytes_loaded p + tot,
                                                  iop_load_time_ns := iop_load_time_ns p + ns\<rparr>),
                              ps_completions := (ps_completions s)[k := c\<lparr>ic_remaining := prev - 1\<rparr>]\<rparr>
                   in Some (trace_if (prev = 1 \<and> ps_trace_enabled s)
                        (LoadComplete (ic_layer_idx c) tot (f_div (f_of_word ns) (Fin 1000000))) s1))
              | _ \<Rightarrow> None)
        else None))"

definition worker_notify :: "nat \<Rightarrow> prefetch_state \<Rightarrow> prefetch_state option" where
  "worker_notify i s = (case ps_io_pool s of
      None \<Rightarrow> None
    | Some p \<Rightarrow> (if i < length (iop_workers p)
        then (case iop_workers p ! i of
                Notify l \<Rightarrow> Some (set_status l Loaded (s\<lparr>ps_io_pool := Some (update_worker i Idle p)\<rparr>))
              | _ \<Rightarrow> None)
        else None))"

definition start_io_pool :: "bool \<Rightarrow> nat \<Rightarrow> prefetch_state \<Rightarrow> prefetch_state option" where
  "start_io_pool file_opens num_workers s =
     (if 0 < num_workers \<and> \<not> file_opens then None
      else Some (s\<lparr>ps_io_pool := Some \<lparr>iop_queue = [], iop_workers = replicate num_workers Idle,
                                      iop_bytes_loaded = 0, iop_load_time_ns = 0\<rparr>\<rparr>))"

text \<open>Dropping the pool closes the channel and joins the workers: \<open>join\<close> is what they do.\<close>

definition stop_io_pool :: "env \<Rightarrow> prefetch_state \<Rightarrow> prefetch_state" where
  "stop_io_pool join s = (join s)\<lparr>ps_io_pool := None\<rparr>"

section \<open>Submitting reads\<close>

function chunks :: "nat \<Rightarrow> 'a list \<Rightarrow> 'a list list" where
  "chunks n xs = (if n = 0 \<or> xs = [] then [] else take n xs # chunks n (drop n xs))"
  by pat_completeness auto

termination chunks by (relation "measure (length \<circ> snd)") auto

declare chunks.simps [simp del]

lemma concat_chunks: "0 < n \<Longrightarrow> concat (chunks n xs) = xs"
proof (induction n xs rule: chunks.induct)
  case (1 n xs)
  then show ?case by (subst chunks.simps) auto
qed

definition layout_type :: "expert_layout \<Rightarrow> expert_tensor_type" where
  "layout_type el = unwrap_or (expert_tensor_type_from_name (el_tensor_name el)) Gate"

definition layout_region :: "expert_layout \<Rightarrow> u32 \<Rightarrow> region" where
  "layout_region el eid = (expert_buffer_offset el eid, el_expert_stride el, expert_file_offset el eid)"

text \<open>The experts of one fused tensor that are not cached; they are marked as loaded.\<close>

definition missing_experts :: "u32 \<Rightarrow> u32 list \<Rightarrow> expert_layout \<Rightarrow> neuron_cache \<Rightarrow> u32 list \<times> neuron_cache" where
  "missing_experts l experts el c =
     (case miss_loop is_loaded mark_loaded c
             (map (\<lambda>e. (l, e, layout_type el)) (filter (\<lambda>e. e < el_num_experts el) experts)) of
        (keys, c') \<Rightarrow> (map (\<lambda>(_, e, _). e) keys, c'))"

fun expert_tasks :: "u32 \<Rightarrow> u32 list \<Rightarrow> expert_layout list \<Rightarrow> neuron_cache \<Rightarrow> region list list \<times> neuron_cache" where
  "expert_tasks l experts [] c = ([], c)"
| "expert_tasks l experts (el # els) c = (case missing_experts l experts el c of (es, c1) \<Rightarrow>
     case expert_tasks l experts els c1 of (ts, c2) \<Rightarrow>
       (if es = [] then ts else map (layout_region el) es # ts, c2))"

definition nonempty :: "'a list option \<Rightarrow> 'a list list" where
  "nonempty r = (case r of None \<Rightarrow> [] | Some xs \<Rightarrow> if xs = [] then [] else [xs])"

definition num_workers :: "prefetch_state \<Rightarrow> nat" where
  "num_workers s = (case ps_io_pool s of None \<Rightarrow> 1 | Some p \<Rightarrow> max 1 (length (iop_workers p)))"

definition full_layer_tasks :: "prefetch_config \<Rightarrow> prefetch_state \<Rightarrow> u32 \<Rightarrow> region list list" where
  "full_layer_tasks cfg s l = (case hm_get (pc_layer_regions cfg) l of
      None \<Rightarrow> []
    | Some regions \<Rightarrow> if regions = [] then []
        else chunks ((length regions + num_workers s - 1) div num_workers s) regions)"

text \<open>A completion counter is allocated and the tasks are put on the channel.\<close>

definition send_tasks :: "bool \<Rightarrow> u32 \<Rightarrow> ptr \<Rightarrow> region list list \<Rightarrow> io_pool \<Rightarrow> prefetch_state \<Rightarrow> prefetch_state" where
  "send_tasks update l base tasks p s =
     (let k = length (ps_completions s)
      in s\<lparr>ps_completions := ps_completions s @ [\<lparr>ic_remaining = length tasks, ic_layer_idx = l, ic_update_status = update\<rparr>],
           ps_io_pool := Some (p\<lparr>iop_queue := iop_queue p @
             map (\<lambda>rs. \<lparr>it_regions = rs, it_base = base, it_completion = k\<rparr>) tasks\<rparr>)\<rparr>)"

definition submit_layer_load :: "prefetch_config \<Rightarrow> u32 \<Rightarrow> prefetch_state \<Rightarrow> prefetch_state" where
  "submit_layer_load cfg l s =
     (if ps_buffer_base s = Null then s
      else let (tasks, cache) =
             (case (hm_get (ps_selected_experts s) l, hm_get (pc_expert_layouts cfg) l) of
                (Some experts, Some layouts) \<Rightarrow>
                  (case expert_tasks l experts layouts (ps_neuron_cache s) of (ts, c) \<Rightarrow>
                     (nonempty (hm_get (pc_non_expert_regions cfg) l) @ ts, c))
              | _ \<Rightarrow> (full_layer_tasks cfg s l, ps_neuron_cache s));
             s1 = s\<lparr>ps_neuron_cache := cache\<rparr>
           in if tasks = [] then set_status l Loaded s1
              else (case ps_io_pool s of
                      Some p \<Rightarrow> send_tasks True l (ps_buffer_base s) tasks p s1
                    | None \<Rightarrow> set_status l Loaded s1))"

definition submit_expert_load :: "prefetch_config \<Rightarrow> u32 \<Rightarrow> u32 list \<Rightarrow> prefetch_state \<Rightarrow> prefetch_state" where
  "submit_expert_load cfg l experts s = (case hm_get (pc_expert_layouts cfg) l of
      None \<Rightarrow> s
    | Some layouts \<Rightarrow>
        (if ps_buffer_base s = Null then s
         else case expert_tasks l experts layouts (ps_neuron_cache s) of (ts, c) \<Rightarrow>
           (let tasks = nonempty (hm_get (pc_non_expert_regions cfg) l) @ ts;
                s1 = s\<lparr>ps_neuron_cache := c\<rparr>
            in if tasks = [] then s1
               else (case ps_io_pool s of
                       Some p \<Rightarrow> send_tasks False l (ps_buffer_base s) tasks p s1
                     | None \<Rightarrow> s1))))"

definition request_prefetch :: "prefetch_config \<Rightarrow> prefetch_request \<Rightarrow> prefetch_state \<Rightarrow> prefetch_state" where
  "request_prefetch cfg r s = (case r of
      LayerRequest l \<Rightarrow>
        (if status_of s l = Some Loaded \<or> status_of s l = Some Loading then s
         else submit_layer_load cfg l (set_status l Loading s))
    | ExpertSlices l experts \<Rightarrow> submit_expert_load cfg l experts s)"

definition prefetch_all_nvme :: "prefetch_config \<Rightarrow> prefetch_state \<Rightarrow> prefetch_state" where
  "prefetch_all_nvme cfg s = fold (\<lambda>l. request_prefetch cfg (LayerRequest l)) (pc_sorted_nvme_layers cfg) s"

section \<open>Waiting for a layer\<close>

text \<open>\<open>None\<close>: the thread waits forever.\<close>

partial_function (option) wait_loaded :: "env \<Rightarrow> u32 \<Rightarrow> prefetch_state \<Rightarrow> prefetch_state option" where
  "wait_loaded env l s = (if status_of s l = Some Loaded then Some s else wait_loaded env l (env s))"

partial_function (option) ensure_layer_loaded ::
    "prefetch_config \<Rightarrow> env \<Rightarrow> u32 \<Rightarrow> prefetch_state \<Rightarrow> prefetch_state option" where
  "ensure_layer_loaded cfg env l s =
     (let tracing = ps_trace_enabled s
      in if status_of s l = Some Loaded then Some (trace_if tracing (LayerHit l) s)
         else if status_of s l = Some Loading
         then (let s' = env s
               in ensure_layer_loaded cfg env l
                    (trace_if (tracing \<and> status_of s' l = Some Loaded) (LayerStall l (elapsed_ms (ps_now s) s')) s'))
         else Option.bind (wait_loaded env l (submit_layer_load cfg l (set_status l Loading s))) (\<lambda>s'.
                Some (trace_if tracing (LayerStall l (elapsed_ms (ps_now s) s')) s')))"

definition ram_layers :: "prefetch_config \<Rightarrow> u32 list" where
  "ram_layers cfg = filter (\<lambda>l. l \<notin> set (pc_nvme_layers cfg)) (hm_keys (pc_layer_regions cfg))"

fun wait_all :: "env \<Rightarrow> u32 list \<Rightarrow> prefetch_state \<Rightarrow> prefetch_state option" where
  "wait_all env [] s = Some s"
| "wait_all env (l # ls) s = Option.bind (wait_loaded env l s) (wait_all env ls)"

definition preload_ram_layers :: "prefetch_config \<Rightarrow> env \<Rightarrow> prefetch_state \<Rightarrow> prefetch_state option" where
  "preload_ram_layers cfg env s =
     wait_all env (ram_layers cfg) (fold (\<lambda>l. request_prefetch cfg (LayerRequest l)) (ram_layers cfg) s)"

section \<open>Releasing a layer\<close>

definition release_regions :: "ptr \<Rightarrow> region list \<Rightarrow> mem \<Rightarrow> mem" where
  "release_regions base regions m = fold (\<lambda>(off, n, _). free_bytes (ptr_add base off) (unat n)) regions m"

definition release_layer :: "prefetch_config \<Rightarrow> u32 \<Rightarrow> prefetch_state \<Rightarrow> prefetch_state" where
  "release_layer cfg l s = (case hm_get (pc_layer_regions cfg) l of
      None \<Rightarrow> s
    | Some regions \<Rightarrow>
        (if ps_buffer_base s = Null then s
         else trace_if (ps_trace_enabled s) (Released l) (set_status l NotLoaded
                (s\<lparr>ps_mem := release_regions (ps_buffer_base s) regions (ps_mem s),
                   ps_neuron_cache := nc_evict_layer (ps_neuron_cache s) l\<rparr>))))"

section \<open>How far to prefetch\<close>

definition pool_throughput :: "prefetch_state \<Rightarrow> f64" where
  "pool_throughput s = (case ps_io_pool s of
      None \<Rightarrow> Fin 3000000000
    | Some p \<Rightarrow> (let t = throughput_bps (iop_bytes_loaded p) (iop_load_time_ns p)
                 in if f_lt (Fin 0) t then t else Fin 3000000000))"

definition avg_layer_bytes :: "prefetch_config \<Rightarrow> u64" where
  "avg_layer_bytes cfg =
     sum_list (map (\<lambda>regions. sum_list (map (\<lambda>r. fst (snd r)) regions))
       (List.map_filter (hm_get (pc_layer_regions cfg)) (pc_sorted_nvme_layers cfg)))
     div of_nat (length (pc_sorted_nvme_layers cfg))"

definition adaptive_lookahead :: "prefetch_config \<Rightarrow> prefetch_state \<Rightarrow> u32" where
  "adaptive_lookahead cfg s =
     (if pc_sorted_nvme_layers cfg = [] then 4
      else if avg_layer_bytes cfg = 0 then 4
      else let loadable_per_compute = f_mul (pool_throughput s) (rnd (1 / 10));
               needed = f_to_word (f_ceil (f_div (f_of_word (avg_layer_bytes cfg)) loadable_per_compute)) :: u32
           in max 2 (min needed 8))"

end
