(* ===== verification/Expert_Loading.thy ===== *)
theory Expert_Loading
  imports Prefetch_State
begin

text \<open>
  Model of the loaders of \<open>PrefetchState\<close> that work below the level of a layer
  (\<open>src/compute/nvme_backend.rs\<close>): single experts into the loading buffer or the slot pool,
  the FFN tensors of dense models into the slot pool, and the resident FFN buffer.  They
  may panic (an \<open>expect\<close>, an index) and may wait forever: the result is \<open>Panic\<close>,
  \<open>Ret None\<close> for an endless wait, or \<open>Ret (Some s)\<close>.
\<close>

type_synonym 'a blocking = "'a option outcome"

definition bbind :: "'a blocking \<Rightarrow> ('a \<Rightarrow> 'b blocking) \<Rightarrow> 'b blocking" where
  "bbind m f = obind m (\<lambda>r. case r of None \<Rightarrow> Ret None | Some x \<Rightarrow> f x)"

lemma bbind_simps [simp]:
  "bbind Panic f = Panic" "bbind (Ret None) f = Ret None" "bbind (Ret (Some x)) f = f x"
  by (simp_all add: bbind_def)

section \<open>Tensor data pointers\<close>

text \<open>\<open>(*tensor_ptr).data = base.add(offset)\<close>, when the tensor's pointer is known.\<close>

definition set_data :: "prefetch_config \<Rightarrow> string \<Rightarrow> ptr \<Rightarrow> (nat, ptr) hmap \<Rightarrow> (nat, ptr) hmap" where
  "set_data cfg name p d = (case hm_get (pc_fused_tensor_ptrs cfg) name of
      Some (Some t) \<Rightarrow> hm_insert t p d
    | _ \<Rightarrow> d)"

text \<open>Pair each name with its slot offset; running out of offsets is an index panic, but only
  for a tensor whose pointer is known.\<close>

fun point_to_slots :: "prefetch_config \<Rightarrow> ptr \<Rightarrow> usize list \<Rightarrow> string list \<Rightarrow> (nat, ptr) hmap \<Rightarrow> (nat, ptr) hmap outcome" where
  "point_to_slots cfg base offs [] d = Ret d"
| "point_to_slots cfg base offs (n # ns) d = (case hm_get (pc_fused_tensor_ptrs cfg) n of
      Some (Some t) \<Rightarrow> (case offs of
          [] \<Rightarrow> Panic
        | off # offs' \<Rightarrow> point_to_slots cfg base offs' ns (hm_insert t (ptr_add base off) d))
    | _ \<Rightarrow> point_to_slots cfg base (tl offs) ns d)"

text \<open>The same walk that stops quietly when the slots run out.\<close>

definition repoint :: "prefetch_config \<Rightarrow> string list \<Rightarrow> u32 \<Rightarrow> prefetch_state \<Rightarrow> prefetch_state" where
  "repoint cfg names l s = (case ps_expert_pool s of
      None \<Rightarrow> s
    | Some p \<Rightarrow> (case hm_get (ep_layer_slots p) l of
        None \<Rightarrow> s
      | Some slots \<Rightarrow> s\<lparr>ps_tensor_data := fold (\<lambda>(n, slot). set_data cfg n (ptr_add (ps_pool_base s) (of_nat slot * ep_slot_size p)))
          (zip names slots) (ps_tensor_data s)\<rparr>))"

definition rewrite_tensor_ptrs_for_layer :: "prefetch_config \<Rightarrow> u32 \<Rightarrow> prefetch_state \<Rightarrow> prefetch_state" where
  "rewrite_tensor_ptrs_for_layer cfg l s = (case hm_get (pc_expert_layouts cfg) l of
      None \<Rightarrow> s | Some layouts \<Rightarrow> repoint cfg (map el_tensor_name layouts) l s)"

definition rewrite_dense_ffn_ptrs :: "prefetch_config \<Rightarrow> u32 \<Rightarrow> prefetch_state \<Rightarrow> prefetch_state" where
  "rewrite_dense_ffn_ptrs cfg l s = (case hm_get (pc_dense_ffn_layouts cfg) l of
      None \<Rightarrow> s | Some layouts \<Rightarrow> repoint cfg (map df_tensor_name layouts) l s)"

definition rewrite_resident_ffn_ptrs :: "prefetch_config \<Rightarrow> u32 \<Rightarrow> prefetch_state \<Rightarrow> prefetch_state" where
  "rewrite_resident_ffn_ptrs cfg l s = (case hm_get (pc_dense_ffn_layouts cfg) l of
      None \<Rightarrow> s
    | Some layouts \<Rightarrow>
        (if pc_resident_ffn_base cfg = Null then s
         else s\<lparr>ps_tensor_data := fold (\<lambda>df d. case hm_get (pc_resident_ffn_offsets cfg) (df_tensor_name df) of
                  None \<Rightarrow> d
                | Some off \<Rightarrow> set_data cfg (df_tensor_name df) (ptr_add (pc_resident_ffn_base cfg) off) d)
              layouts (ps_tensor_data s)\<rparr>))"

section \<open>Experts in the loading buffer\<close>

text \<open>Evicting an expert gives the pages of its slice in each tensor of that type back.\<close>

definition free_evicted :: "prefetch_config \<Rightarrow> ptr \<Rightarrow> cache_key \<Rightarrow> mem \<Rightarrow> mem" where
  "free_evicted cfg base key m = (case key of (l, e, tt) \<Rightarrow>
     (case hm_get (pc_expert_layouts cfg) l of
        None \<Rightarrow> m
      | Some layouts \<Rightarrow> fold (\<lambda>el m. if expert_tensor_type_from_name (el_tensor_name el) = Some tt
            then free_bytes (ptr_add base (expert_buffer_offset el e)) (unat (el_expert_stride el)) m else m) layouts m))"

fun load_missing :: "prefetch_config \<Rightarrow> ptr \<Rightarrow> u32 \<Rightarrow> expert_layout \<Rightarrow> u32 list \<Rightarrow> neuron_cache \<Rightarrow> mem \<Rightarrow>
    region list \<times> neuron_cache \<times> mem" where
  "load_missing cfg base l el [] c m = ([], c, m)"
| "load_missing cfg base l el (e # es) c m =
     (if el_num_experts el \<le> e then load_missing cfg base l el es c m
      else case is_loaded c (l, e, layout_type el) of (hit, c1) \<Rightarrow>
        if hit then load_missing cfg base l el es c1 m
        else case mark_loaded c1 (l, e, layout_type el) of (evicted, c2) \<Rightarrow>
          (let m1 = (case evicted of None \<Rightarrow> m | Some key \<Rightarrow> free_evicted cfg base key m)
           in case load_missing cfg base l el es c2 m1 of (rs, c3, m3) \<Rightarrow> (layout_region el e # rs, c3, m3)))"

fun load_missing_all :: "prefetch_config \<Rightarrow> ptr \<Rightarrow> u32 \<Rightarrow> expert_layout list \<Rightarrow> u32 list \<Rightarrow> neuron_cache \<Rightarrow> mem \<Rightarrow>
    region list list \<times> neuron_cache \<times> mem" where
  "load_missing_all cfg base l [] es c m = ([], c, m)"
| "load_missing_all cfg base l (el # els) es c m = (case load_missing cfg base l el es c m of (rs, c1, m1) \<Rightarrow>
     case load_missing_all cfg base l els es c1 m1 of (ts, c2, m2) \<Rightarrow> (if rs = [] then ts else rs # ts, c2, m2))"

definition submit_expert_load_with_status :: "prefetch_config \<Rightarrow> u32 \<Rightarrow> u32 list \<Rightarrow> prefetch_state \<Rightarrow> prefetch_state" where
  "submit_expert_load_with_status cfg l experts s = (case hm_get (pc_expert_layouts cfg) l of
      None \<Rightarrow> s
    | Some layouts \<Rightarrow>
        (if ps_buffer_base s = Null then s
         else case load_missing_all cfg (ps_buffer_base s) l layouts experts (ps_neuron_cache s) (ps_mem s) of
           (ts, c, m) \<Rightarrow>
             (let tasks = nonempty (hm_get (pc_non_expert_regions cfg) l) @ ts;
                  s1 = s\<lparr>ps_neuron_cache := c, ps_mem := m\<rparr>
              in if tasks = [] then set_status l Loaded s1
                 else (case ps_io_pool s of
                         Some p \<Rightarrow> send_tasks True l (ps_buffer_base s) tasks p s1
                       | None \<Rightarrow> set_status l Loaded s1))))"

section \<open>Experts in the slot pool\<close>

fun pooled_regions :: "u32 \<Rightarrow> u32 list \<Rightarrow> expert_layout list \<Rightarrow> usize list \<Rightarrow> neuron_cache \<Rightarrow>
    (region list list \<times> neuron_cache) outcome" where
  "pooled_regions l experts [] offs c = Ret ([], c)"
| "pooled_regions l experts (el # els) offs c = (case missing_experts l experts el c of (es, c1) \<Rightarrow>
     if es = [] then pooled_regions l experts els (tl offs) c1
     else case offs of
       [] \<Rightarrow> Panic
     | slot # offs' \<Rightarrow> omap (\<lambda>(ts, c2).
         (map (\<lambda>e. (slot + ucast (map_expert_id el e) * el_expert_stride el, el_expert_stride el, expert_file_offset el e)) es # ts, c2))
         (pooled_regions l experts els offs' c1))"

definition pool_evicted :: "expert_pool \<Rightarrow> u32 \<Rightarrow> nat \<Rightarrow> u32 list" where
  "pool_evicted p l n = filter (\<lambda>k. k \<noteq> l \<and> length (ep_free_slots p) < n) (hm_keys (ep_layer_slots p))"

text \<open>Sending without a pool, or with none listening, sends nothing; the wait then never ends.\<close>

definition send_and_wait :: "env \<Rightarrow> u32 \<Rightarrow> ptr \<Rightarrow> region list list \<Rightarrow> prefetch_state \<Rightarrow> prefetch_state option" where
  "send_and_wait env l base tasks s =
     wait_loaded env l (case ps_io_pool s of None \<Rightarrow> s | Some p \<Rightarrow> send_tasks True l base tasks p s)"

definition load_experts_pooled :: "prefetch_config \<Rightarrow> env \<Rightarrow> u32 \<Rightarrow> u32 list \<Rightarrow> prefetch_state \<Rightarrow> prefetch_state blocking" where
  "load_experts_pooled cfg env l experts s = (case hm_get (pc_expert_layouts cfg) l of
      None \<Rightarrow> Ret (Some s)
    | Some layouts \<Rightarrow> obind (expect (ps_expert_pool s)) (\<lambda>pool.
        (let c0 = fold (\<lambda>k c. nc_evict_layer c k) (pool_evicted pool l (length layouts)) (ps_neuron_cache s)
         in obind (allocate_layer l (length layouts) pool) (\<lambda>(pool', offs).
            obind (point_to_slots cfg (ps_pool_base s) offs (map el_tensor_name layouts) (ps_tensor_data s)) (\<lambda>d.
              obind (pooled_regions l experts layouts offs c0) (\<lambda>(tasks, c).
                let s1 = s\<lparr>ps_expert_pool := Some pool', ps_tensor_data := d, ps_neuron_cache := c\<rparr>
                 in if tasks = [] then Ret (Some s1)
                    else Ret (send_and_wait env l (ps_pool_base s) tasks (set_status l Loading s1))))))))"

text \<open>The probe stops at the first expert that is not cached.\<close>

fun any_missing :: "cache_key list \<Rightarrow> neuron_cache \<Rightarrow> bool \<times> neuron_cache" where
  "any_missing [] c = (False, c)"
| "any_missing (k # ks) c = (case is_loaded c k of (hit, c1) \<Rightarrow> if hit then any_missing ks c1 else (True, c1))"

definition wanted_keys :: "u32 \<Rightarrow> u32 list \<Rightarrow> expert_layout list \<Rightarrow> cache_key list" where
  "wanted_keys l experts layouts = concat (map (\<lambda>e. map (\<lambda>el. (l, e, layout_type el)) layouts) experts)"

definition ensure_experts_loaded :: "prefetch_config \<Rightarrow> env \<Rightarrow> u32 \<Rightarrow> u32 list \<Rightarrow> prefetch_state \<Rightarrow> prefetch_state blocking" where
  "ensure_experts_loaded cfg env l experts s =
     (if experts = [] then Ret (Some s)
      else case hm_get (pc_expert_layouts cfg) l of
        None \<Rightarrow> Ret (Some s)
      | Some layouts \<Rightarrow>
          (let tracing = ps_trace_enabled s; use_pool = ps_expert_pool s \<noteq> None
           in case any_missing (wanted_keys l experts layouts) (ps_neuron_cache s) of (needs_load, c) \<Rightarrow>
             (let s1 = s\<lparr>ps_neuron_cache := c\<rparr>
              in if \<not> needs_load
                 then Ret (Some (trace_if tracing (LayerHit l) (if use_pool then rewrite_tensor_ptrs_for_layer cfg l s1 else s1)))
                 else bbind (if use_pool then load_experts_pooled cfg env l experts s1
                             else Ret (wait_loaded env l (submit_expert_load_with_status cfg l experts (set_status l Loading s1))))
                        (\<lambda>s2. Ret (Some (trace_if tracing (LayerStall l (elapsed_ms (ps_now s) s2)) s2))))))"

section \<open>FFN tensors of dense models in the slot pool\<close>

definition dense_tasks :: "dense_ffn_layout list \<Rightarrow> usize list \<Rightarrow> region list list" where
  "dense_tasks layouts offs = map (\<lambda>(df, off). [(off, df_size df, df_file_offset df)]) (zip layouts offs)"

text \<open>Allocate slots, point the tensors at them and list the reads; \<open>slot_offsets[i]\<close> panics
  when a resident layer holds fewer slots than the layer has tensors.\<close>

definition stage_dense_ffn :: "prefetch_config \<Rightarrow> u32 \<Rightarrow> dense_ffn_layout list \<Rightarrow> prefetch_state \<Rightarrow>
    (prefetch_state \<times> region list list) outcome" where
  "stage_dense_ffn cfg l layouts s = obind (expect (ps_expert_pool s)) (\<lambda>pool.
     obind (allocate_layer l (length layouts) pool) (\<lambda>(pool', offs).
       obind (point_to_slots cfg (ps_pool_base s) offs (map df_tensor_name layouts) (ps_tensor_data s)) (\<lambda>d.
         if length offs < length layouts then Panic
         else Ret (s\<lparr>ps_expert_pool := Some pool', ps_tensor_data := d\<rparr>, dense_tasks layouts offs))))"

definition ensure_dense_ffn_loaded :: "prefetch_config \<Rightarrow> env \<Rightarrow> u32 \<Rightarrow> prefetch_state \<Rightarrow> prefetch_state blocking" where
  "ensure_dense_ffn_loaded cfg env l s = (case hm_get (pc_dense_ffn_layouts cfg) l of
      None \<Rightarrow> Ret (Some s)
    | Some layouts \<Rightarrow>
        (if layouts = [] then Ret (Some s)
         else if status_of s l = Some Loaded
         then Ret (Some (trace_if (ps_trace_enabled s) (LayerHit l) (rewrite_dense_ffn_ptrs cfg l s)))
         else obind (stage_dense_ffn cfg l layouts s) (\<lambda>(s1, tasks).
           Ret (Option.bind (send_and_wait env l (ps_pool_base s) tasks (set_status l Loading s1)) (\<lambda>s2.
             Some (trace_if (ps_trace_enabled s) (LayerStall l (elapsed_ms (ps_now s) s2)) s2))))))"

definition prefetch_dense_ffn :: "prefetch_config \<Rightarrow> u32 \<Rightarrow> prefetch_state \<Rightarrow> prefetch_state outcome" where
  "prefetch_dense_ffn cfg l s = (case hm_get (pc_dense_ffn_layouts cfg) l of
      None \<Rightarrow> Ret s
    | Some layouts \<Rightarrow>
        (if layouts = [] then Ret s
         else omap (\<lambda>(s1, tasks). let s2 = set_status l Loading s1
             in case ps_io_pool s of
                  Some p \<Rightarrow> send_tasks True l (ps_pool_base s) tasks p s2
                | None \<Rightarrow> s2) (stage_dense_ffn cfg l layouts s)))"

section \<open>The resident FFN buffer\<close>

definition align_4096 :: "usize \<Rightarrow> usize" where
  "align_4096 n = and (n + 4095) (not 4095)"

fun place_tensors :: "dense_ffn_layout list \<Rightarrow> usize \<Rightarrow> (string, usize) hmap \<Rightarrow> usize \<times> (string, usize) hmap" where
  "place_tensors [] tot offs = (tot, offs)"
| "place_tensors (df # dfs) tot offs =
     place_tensors dfs (align_4096 (tot + df_size df)) (hm_insert (df_tensor_name df) tot offs)"

text \<open>The layers below \<open>num_resident\<close> that have FFN tensors, with their layouts.\<close>

definition resident_layouts :: "prefetch_config \<Rightarrow> u32 \<Rightarrow> (u32 \<times> dense_ffn_layout list) list" where
  "resident_layouts cfg num_resident =
     List.map_filter (\<lambda>l. map_option (Pair l) (hm_get (pc_dense_ffn_layouts cfg) l)) (map of_nat [0..<unat num_resident])"

text \<open>\<open>mmap_base\<close> is what \<open>mmap\<close> returned, null for a failure.  The result is the buffer, its
  size, the layers it holds and the offset of each tensor.\<close>

definition activate_resident_ffn :: "prefetch_config \<Rightarrow> env \<Rightarrow> ptr \<Rightarrow> u32 \<Rightarrow> prefetch_state \<Rightarrow>
    (prefetch_state \<times> (ptr \<times> usize \<times> u32 list \<times> (string, usize) hmap) option) option" where
  "activate_resident_ffn cfg env mmap_base num_resident s =
     (if num_resident = 0 then Some (s, None)
      else let layers = resident_layouts cfg num_resident;
               layouts = concat (map snd layers);
               (tot, offs) = place_tensors layouts 0 []
           in if tot = 0 then Some (s, None)
              else if mmap_base = Null then Some (s, None)
              else let tasks = List.map_filter (\<lambda>df. map_option (\<lambda>off. [(off, df_size df, df_file_offset df)])
                                 (hm_get offs (df_tensor_name df))) layouts;
                       sentinel = pc_num_layers cfg + 1;
                       result = (\<lambda>s. (s\<lparr>ps_tensor_data := fold (\<lambda>(n, off). set_data cfg n (ptr_add mmap_base off)) offs (ps_tensor_data s)\<rparr>,
                                     Some (mmap_base, tot, map fst layers, offs)))
                   in if tasks = [] then Some (result s)
                      else Option.bind (send_and_wait env sentinel mmap_base tasks (set_status sentinel Loading s)) (\<lambda>s1.
                             Some (result (s1\<lparr>ps_layer_status := hm_remove sentinel (ps_layer_status s1)\<rparr>))))"

section \<open>Warming the cache\<close>

fun self_counts :: "counts \<Rightarrow> nat \<Rightarrow> nat list \<Rightarrow> (u32 \<times> u32) list outcome" where
  "self_counts m l [] = Ret []"
| "self_counts m l (e # es) = obind (at_index m l) (\<lambda>plane.
     obind (if e < length plane then obind (at_index plane e) (\<lambda>row. at_index row e) else Ret 0) (\<lambda>v.
       omap (\<lambda>rest. (of_nat e, v) # rest) (self_counts m l es)))"

definition top_experts :: "nat \<Rightarrow> (u32 \<times> u32) list \<Rightarrow> u32 list" where
  "top_experts k freq = map fst (filter (\<lambda>(_, v). 0 < v) (take k (sort_by (\<lambda>a b. snd b \<le> snd a) freq)))"

fun warm_layers :: "prefetch_config \<Rightarrow> env \<Rightarrow> u32 list \<Rightarrow> prefetch_state \<Rightarrow> prefetch_state blocking" where
  "warm_layers cfg env [] s = Ret (Some s)"
| "warm_layers cfg env (l # ls) s =
     (if length (ca_layer_counts (ps_co_activation s)) \<le> unat l then warm_layers cfg env ls s
      else obind (self_counts (ca_layer_counts (ps_co_activation s)) (unat l) [0..<unat (pc_num_experts_total cfg)]) (\<lambda>freq.
        (let top = top_experts (unat (pc_num_experts_used cfg)) freq
         in if top = [] then warm_layers cfg env ls s
            else bbind (ensure_experts_loaded cfg env l top
                   (s\<lparr>ps_selected_experts := hm_insert l top (ps_selected_experts s)\<rparr>)) (warm_layers cfg env ls))))"

definition warm_cache_from_coactivation :: "prefetch_config \<Rightarrow> env \<Rightarrow> prefetch_state \<Rightarrow> prefetch_state blocking" where
  "warm_cache_from_coactivation cfg env s =
     (if has_data (ps_co_activation s) then warm_layers cfg env (hm_keys (pc_expert_layouts cfg)) s else Ret (Some s))"

end
