(* ===== verification/Eval_Callback.thy ===== *)
theory Eval_Callback
  imports Expert_Loading
begin

text \<open>
  Model of the evaluation callback of \<open>src/compute/nvme_backend.rs\<close>: llama.cpp calls it with
  \<open>ask\<close> set before it computes a tensor and with \<open>ask\<close> clear afterwards.  The callback finds
  the layer in the tensor's name, makes the layer's data present before the computation,
  and releases and prefetches after it.
\<close>

section \<open>Layer numbers in names\<close>

definition parse_layer_from_name :: "string \<Rightarrow> u32 option" where
  "parse_layer_from_name name =
     (if take 4 name = ''blk.''
      then let rest = drop 4 name; number = takeWhile (\<lambda>c. c \<noteq> CHR ''.'') rest
           in if number = rest then None else parse_u32 number
      else None)"

definition parse_layer_from_graph_name :: "string \<Rightarrow> u32 option" where
  "parse_layer_from_graph_name name =
     (let suffix = rev (takeWhile (\<lambda>c. c \<noteq> CHR ''-'') (rev name))
      in if suffix = name then None else parse_u32 suffix)"

section \<open>Router output\<close>

text \<open>The tensor \<open>ffn_moe_argsort\<close>: its row length, row count and data, row by row.  The rows are
  sorted so that the first \<open>k\<close> entries are the selected experts.\<close>

record router_tensor =
  rt_ne0 :: nat
  rt_ne1 :: nat
  rt_data :: "i32 list option"

definition router_ids :: "prefetch_config \<Rightarrow> nat \<Rightarrow> nat \<Rightarrow> nat \<Rightarrow> i32 list \<Rightarrow> u32 list" where
  "router_ids cfg n_experts n_tokens k ids =
     filter (\<lambda>e. e < pc_num_experts_total cfg)
       (map ucast (filter (\<lambda>i. 0 \<le> sint i)
         (concat (map (\<lambda>token. map (\<lambda>i. ids ! (token * n_experts + i)) [0..<k]) [0..<n_tokens]))))"

definition intercept_router_output :: "prefetch_config \<Rightarrow> router_tensor \<Rightarrow> u32 \<Rightarrow> prefetch_state \<Rightarrow> prefetch_state" where
  "intercept_router_output cfg t l s = (case rt_data t of
      None \<Rightarrow> s
    | Some ids \<Rightarrow>
        (let n_experts = rt_ne0 t; n_tokens = max 1 (rt_ne1 t); k = min (unat (pc_num_experts_used cfg)) n_experts
         in if n_experts = 0 \<or> 64 < n_experts then s
            else if k = 0 then s
            else let experts = router_ids cfg n_experts n_tokens k ids
                 in if experts = [] then s
                    else s\<lparr>ps_selected_experts := hm_insert l (remdups_adj (sort_by (\<le>) experts)) (ps_selected_experts s)\<rparr>))"

section \<open>After a layer: co-activation and prefetch\<close>

definition swap_layer :: "u32 \<Rightarrow> prefetch_state \<Rightarrow> i32 \<times> prefetch_state" where
  "swap_layer l s = (ps_current_layer s, s\<lparr>ps_current_layer := l\<rparr>)"

definition record_selection :: "u32 \<Rightarrow> u32 list \<Rightarrow> prefetch_state \<Rightarrow> prefetch_state outcome" where
  "record_selection l experts s =
     obind (ca_record l experts (ps_co_activation s)) (\<lambda>ca.
       omap (\<lambda>ca. s\<lparr>ps_co_activation := ca, ps_prev_layer_experts := Some (l, experts)\<rparr>)
         (case ps_prev_layer_experts s of
            None \<Rightarrow> Ret ca
          | Some (prev_l, prev_e) \<Rightarrow> record_cross_layer prev_l prev_e experts ca))"

definition predict_experts :: "u32 \<Rightarrow> u32 list \<Rightarrow> prefetch_state \<Rightarrow> u32 list outcome" where
  "predict_experts l experts s =
     (if has_data (ps_co_activation s) then predict_next_layer l experts 3 (ps_co_activation s) else Ret experts)"

definition union_experts :: "u32 list \<Rightarrow> u32 list \<Rightarrow> u32 list" where
  "union_experts experts predicted =
     take 4 (foldl (\<lambda>acc p. if p \<in> set acc then acc else acc @ [p]) experts predicted)"

text \<open>The first layer of the next three that satisfies the condition.\<close>

definition next_target :: "(u32 \<Rightarrow> bool) \<Rightarrow> prefetch_config \<Rightarrow> u32 \<Rightarrow> u32 option" where
  "next_target ok cfg l = find (\<lambda>t. t < pc_num_layers cfg \<and> ok t \<and> hm_contains (pc_expert_layouts cfg) t) [l + 1, l + 2, l + 3]"

definition speculate :: "(u32 \<Rightarrow> bool) \<Rightarrow> prefetch_config \<Rightarrow> u32 \<Rightarrow> prefetch_state \<Rightarrow> prefetch_state outcome" where
  "speculate ok cfg l s =
     (if hm_contains (pc_expert_layouts cfg) l
      then case hm_get (ps_selected_experts s) l of
        None \<Rightarrow> Ret s
      | Some experts \<Rightarrow> obind (record_selection l experts s) (\<lambda>s1.
          omap (\<lambda>predicted. case next_target ok cfg l of
              None \<Rightarrow> s1
            | Some t \<Rightarrow> request_prefetch cfg (ExpertSlices t (union_experts experts predicted)) s1)
            (predict_experts l experts s1))
      else Ret s)"

section \<open>The three modes\<close>

text \<open>Layers \<open>layer + 2 ..= layer + lookahead\<close>, those on NVMe.\<close>

definition prefetch_ahead :: "prefetch_config \<Rightarrow> u32 \<Rightarrow> prefetch_state \<Rightarrow> prefetch_state" where
  "prefetch_ahead cfg l s =
     fold (\<lambda>i s. let target = l + of_nat i
        in if target < pc_num_layers cfg \<and> target \<in> set (pc_nvme_layers cfg)
           then request_prefetch cfg (LayerRequest target) s else s)
       [2..<Suc (unat (adaptive_lookahead cfg s))] s"

definition advanced :: "i32 \<Rightarrow> u32 \<Rightarrow> bool" where
  "advanced prev l \<longleftrightarrow> 0 \<le> sint prev \<and> prev < l"

definition callback_standard_done :: "prefetch_config \<Rightarrow> u32 \<Rightarrow> prefetch_state \<Rightarrow> prefetch_state outcome" where
  "callback_standard_done cfg l s = (case swap_layer l s of (prev, s1) \<Rightarrow>
     if advanced prev l \<and> \<not> ps_keep_nvme_resident s1
     then speculate (\<lambda>t. t \<in> set (pc_nvme_layers cfg)) cfg l
            (prefetch_ahead cfg l (if prev \<in> set (pc_nvme_layers cfg) then release_layer cfg prev s1 else s1))
     else Ret s1)"

text \<open>The layers a dense-streaming model prefetches after \<open>layer\<close>.\<close>

definition dense_prefetch_targets :: "prefetch_config \<Rightarrow> u32 \<Rightarrow> prefetch_state \<Rightarrow> u32 list" where
  "dense_prefetch_targets cfg l s =
     filter (\<lambda>t. t \<notin> set (pc_resident_ffn_layers cfg) \<and> hm_contains (pc_dense_ffn_layouts cfg) t \<and>
                 status_of s t \<noteq> Some Loaded \<and> status_of s t \<noteq> Some Loading)
       (takeWhile (\<lambda>t. t < pc_num_layers cfg) (map (\<lambda>i. l + of_nat i) [1..<Suc (unat (pc_dense_ffn_lookahead cfg))]))"

definition release_streamed :: "prefetch_config \<Rightarrow> i32 \<Rightarrow> u32 \<Rightarrow> prefetch_state \<Rightarrow> prefetch_state" where
  "release_streamed cfg prev l s =
     (if advanced prev l \<and> prev \<notin> set (pc_resident_ffn_layers cfg) \<and> hm_contains (pc_dense_ffn_layouts cfg) prev
      then set_status prev NotLoaded (s\<lparr>ps_expert_pool := map_option (pool_release_layer prev) (ps_expert_pool s)\<rparr>)
      else s)"

fun prefetch_each :: "prefetch_config \<Rightarrow> u32 list \<Rightarrow> prefetch_state \<Rightarrow> prefetch_state outcome" where
  "prefetch_each cfg [] s = Ret s"
| "prefetch_each cfg (t # ts) s = obind (prefetch_dense_ffn cfg t s) (prefetch_each cfg ts)"

definition eval_callback_dense_ffn_streaming ::
    "prefetch_config \<Rightarrow> env \<Rightarrow> u32 \<Rightarrow> bool \<Rightarrow> prefetch_state \<Rightarrow> prefetch_state blocking" where
  "eval_callback_dense_ffn_streaming cfg env l ask s =
     (if ask
      then (if l \<in> set (pc_resident_ffn_layers cfg) then Ret (Some (rewrite_resident_ffn_ptrs cfg l s))
            else if hm_contains (pc_dense_ffn_layouts cfg) l then ensure_dense_ffn_loaded cfg env l s
            else Ret (Some s))
      else case swap_layer l s of (prev, s1) \<Rightarrow>
        (let s2 = release_streamed cfg prev l s1
         in omap Some (prefetch_each cfg (dense_prefetch_targets cfg l s2) s2)))"

definition reset_previous :: "prefetch_config \<Rightarrow> i32 \<Rightarrow> u32 \<Rightarrow> prefetch_state \<Rightarrow> prefetch_state" where
  "reset_previous cfg prev l s =
     (if hm_contains (pc_expert_layouts cfg) l \<and> advanced prev l then set_status prev NotLoaded s else s)"

definition eval_callback_expert_streaming ::
    "prefetch_config \<Rightarrow> env \<Rightarrow> u32 \<Rightarrow> bool \<Rightarrow> prefetch_state \<Rightarrow> prefetch_state blocking" where
  "eval_callback_expert_streaming cfg env l ask s =
     (if ask
      then (if \<not> hm_contains (pc_expert_layouts cfg) l then Ret (Some s)
            else case hm_get (ps_selected_experts s) l of
              Some experts \<Rightarrow> ensure_experts_loaded cfg env l experts s
            | None \<Rightarrow> obind (if has_data (ps_co_activation s)
                             then predict_next_layer l [] (unat (pc_num_experts_used cfg)) (ps_co_activation s)
                             else Ret []) (\<lambda>predicted.
                if predicted = [] then Ret (ensure_layer_loaded cfg env l s)
                else ensure_experts_loaded cfg env l predicted s))
      else case swap_layer l s of (prev, s1) \<Rightarrow>
        omap (\<lambda>s2. Some (reset_previous cfg prev l s2)) (speculate (\<lambda>_. True) cfg l s1))"

section \<open>The callback\<close>

text \<open>The name is \<open>None\<close> when it is not valid UTF-8; null pointers return at once.\<close>

definition callback_layer :: "prefetch_config \<Rightarrow> string \<Rightarrow> u32 option" where
  "callback_layer cfg name = (case (case parse_layer_from_graph_name name of Some l \<Rightarrow> Some l | None \<Rightarrow> parse_layer_from_name name) of
      None \<Rightarrow> None
    | Some l \<Rightarrow> if hm_contains (pc_layer_regions cfg) l then Some l else None)"

definition eval_callback :: "prefetch_config \<Rightarrow> env \<Rightarrow> string option \<Rightarrow> router_tensor \<Rightarrow> bool \<Rightarrow> prefetch_state \<Rightarrow>
    prefetch_state blocking" where
  "eval_callback cfg env name t ask s =
     (if \<not> ps_prefetch_enabled s then Ret (Some s)
      else case name of None \<Rightarrow> Ret (Some s)
      | Some name \<Rightarrow>
          (if \<not> ask \<and> take 16 name = ''ffn_moe_argsort-''
           then Ret (Some (case parse_layer_from_graph_name name of
                  None \<Rightarrow> s | Some l \<Rightarrow> intercept_router_output cfg t l s))
           else case callback_layer cfg name of
             None \<Rightarrow> Ret (Some s)
           | Some l \<Rightarrow>
               (if ps_expert_streaming s then eval_callback_expert_streaming cfg env l ask s
                else if ps_dense_ffn_streaming s then eval_callback_dense_ffn_streaming cfg env l ask s
                else if ask then Ret (ensure_layer_loaded cfg env l s)
                else omap Some (callback_standard_done cfg l s))))"

end
