(* ===== verification/Layer_Protocol.thy ===== *)
theory Layer_Protocol
  imports Eval_Callback
begin

text \<open>
  The protocol between the inference thread and the I/O workers for a dense model whose
  layers stream through the loading buffer.  A state is the point the inference thread has
  reached and a \<open>prefetch_state\<close>; a step is a step of the thread (the callback's operations)
  or of any worker, in any order.  The invariant ties the status map, the completion
  counters, the channel and the contents of memory together; from it follow safety (the
  thread computes on a layer only when every byte of it is the file's) and progress (a
  waiting thread is always woken).
\<close>

section \<open>Steps\<close>

inductive worker_step :: "u8 list \<Rightarrow> prefetch_state \<Rightarrow> prefetch_state \<Rightarrow> bool" for disk where
  take: "worker_take i s = Some s' \<Longrightarrow> worker_step disk s s'"
| read: "reads_file disk pread \<Longrightarrow> worker_read pread i s = Some s' \<Longrightarrow> worker_step disk s s'"
| finish: "worker_done i s = Some s' \<Longrightarrow> worker_step disk s s'"
| notify: "worker_notify i s = Some s' \<Longrightarrow> worker_step disk s s'"

datatype main = Free | Waiting u32 | Computing u32

text \<open>\<open>observe\<close> lets time pass and the trace grow, which no other step reads.\<close>

inductive sys_step :: "prefetch_config \<Rightarrow> u8 list \<Rightarrow> main \<times> prefetch_state \<Rightarrow> main \<times> prefetch_state \<Rightarrow> bool"
  for cfg disk where
  ask_hit: "status_of s l = Some Loaded \<Longrightarrow> sys_step cfg disk (Free, s) (Computing l, s)"
| ask_wait: "status_of s l = Some Loading \<Longrightarrow> sys_step cfg disk (Free, s) (Waiting l, s)"
| ask_submit: "status_of s l \<noteq> Some Loaded \<Longrightarrow> status_of s l \<noteq> Some Loading \<Longrightarrow>
    sys_step cfg disk (Free, s) (Waiting l, submit_layer_load cfg l (set_status l Loading s))"
| wake: "status_of s l = Some Loaded \<Longrightarrow> sys_step cfg disk (Waiting l, s) (Computing l, s)"
| computed: "callback_standard_done cfg l s = Ret s' \<Longrightarrow> sys_step cfg disk (Computing l, s) (Free, s')"
| request: "sys_step cfg disk (Free, s) (Free, request_prefetch cfg (LayerRequest l) s)"
| work: "worker_step disk s s' \<Longrightarrow> sys_step cfg disk (m, s) (m, s')"
| observe: "sys_step cfg disk (m, s) (m, s\<lparr>ps_trace := tr, ps_now := t\<rparr>)"

text \<open>The state that \<open>build_prefetch_state\<close> and \<open>start_io_pool\<close> leave: nothing loaded, nothing
  queued, the workers idle.\<close>

definition initial :: "ptr \<Rightarrow> prefetch_state \<Rightarrow> bool" where
  "initial base s \<longleftrightarrow> ps_buffer_base s = base \<and> ps_current_layer s = -1 \<and> ps_completions s = [] \<and>
     list_all (\<lambda>(l, st). st = NotLoaded) (ps_layer_status s) \<and>
     (case ps_io_pool s of None \<Rightarrow> False
      | Some p \<Rightarrow> iop_queue p = [] \<and> iop_workers p \<noteq> [] \<and> list_all (\<lambda>w. w = Idle) (iop_workers p))"

definition reachable :: "prefetch_config \<Rightarrow> u8 list \<Rightarrow> ptr \<Rightarrow> main \<times> prefetch_state \<Rightarrow> bool" where
  "reachable cfg file base ms \<longleftrightarrow> (\<exists>s0. initial base s0 \<and> (sys_step cfg file)\<^sup>*\<^sup>* (Free, s0) ms)"

text \<open>A dense model laid out in a buffer: regions inside the file, no two overlapping.\<close>

fun apart :: "region \<Rightarrow> region \<Rightarrow> bool" where
  "apart (a, n, fo) (b, m, fo') \<longleftrightarrow> unat a + unat n \<le> unat b \<or> unat b + unat m \<le> unat a"

definition layer_regs :: "prefetch_config \<Rightarrow> u32 \<Rightarrow> region list" where
  "layer_regs cfg l = (case hm_get (pc_layer_regions cfg) l of None \<Rightarrow> [] | Some rs \<Rightarrow> rs)"

definition dense_layout :: "u8 list \<Rightarrow> prefetch_config \<Rightarrow> bool" where
  "dense_layout file cfg \<longleftrightarrow> pc_expert_layouts cfg = [] \<and>
     sorted_wrt apart (concat (map snd (pc_layer_regions cfg))) \<and>
     list_all (in_file file) (concat (map snd (pc_layer_regions cfg)))"

section \<open>Invariant\<close>

fun worker_pending :: "worker \<Rightarrow> (nat \<times> ptr \<times> region list) list" where
  "worker_pending (Reading t rs tot st) = [(it_completion t, it_base t, rs)]"
| "worker_pending Idle = []"
| "worker_pending (Notify l) = []"

definition task_pending :: "io_task \<Rightarrow> nat \<times> ptr \<times> region list" where
  "task_pending t = (it_completion t, it_base t, it_regions t)"

definition pending :: "io_pool \<Rightarrow> (nat \<times> ptr \<times> region list) multiset" where
  "pending p = mset (map task_pending (iop_queue p)) + mset (concat (map worker_pending (iop_workers p)))"

definition notices :: "io_pool \<Rightarrow> u32 \<Rightarrow> nat" where
  "notices p l = count_list (iop_workers p) (Notify l)"

definition open_loads :: "io_completion list \<Rightarrow> u32 \<Rightarrow> nat" where
  "open_loads comps l = length (filter (\<lambda>c. ic_layer_idx c = l \<and> 0 < ic_remaining c) comps)"

definition tasks_ok :: "prefetch_config \<Rightarrow> ptr \<Rightarrow> (nat \<times> ptr \<times> region list) multiset \<Rightarrow> io_completion list \<Rightarrow> bool" where
  "tasks_ok cfg base pnd comps \<longleftrightarrow>
     (\<forall>k b rs. (k, b, rs) \<in># pnd \<longrightarrow> k < length comps \<and> b = base \<and> set rs \<subseteq> set (layer_regs cfg (ic_layer_idx (comps ! k)))) \<and>
     (\<forall>k < length comps. ic_update_status (comps ! k) \<and> ic_remaining (comps ! k) = size {#x \<in># pnd. fst x = k#})"

definition status_ok :: "(u32 \<Rightarrow> layer_status option) \<Rightarrow> io_completion list \<Rightarrow> (u32 \<Rightarrow> nat) \<Rightarrow> bool" where
  "status_ok st comps nts \<longleftrightarrow> (\<forall>l. open_loads comps l + nts l = (if st l = Some Loading then 1 else 0))"

definition data_ok :: "prefetch_config \<Rightarrow> u8 list \<Rightarrow> ptr \<Rightarrow> (u32 \<Rightarrow> layer_status option) \<Rightarrow>
    (nat \<times> ptr \<times> region list) multiset \<Rightarrow> io_completion list \<Rightarrow> mem \<Rightarrow> bool" where
  "data_ok cfg file base st pnd comps m \<longleftrightarrow> (\<forall>l. \<forall>r \<in> set (layer_regs cfg l).
     (st l = Some Loaded \<longrightarrow> holds file m base r) \<and>
     (st l = Some Loading \<longrightarrow> holds file m base r \<or>
        (\<exists>k b rs. (k, b, rs) \<in># pnd \<and> ic_layer_idx (comps ! k) = l \<and> r \<in> set rs)))"

definition proto_inv :: "prefetch_config \<Rightarrow> u8 list \<Rightarrow> ptr \<Rightarrow> prefetch_state \<Rightarrow> bool" where
  "proto_inv cfg file base s \<longleftrightarrow> base \<noteq> Null \<and> ps_buffer_base s = base \<and>
     (case ps_io_pool s of None \<Rightarrow> False
      | Some p \<Rightarrow> iop_workers p \<noteq> [] \<and>
          tasks_ok cfg base (pending p) (ps_completions s) \<and>
          status_ok (status_of s) (ps_completions s) (notices p) \<and>
          data_ok cfg file base (status_of s) (pending p) (ps_completions s) (ps_mem s))"

lemma proto_invE:
  assumes "proto_inv cfg file base s"
  obtains p where "ps_io_pool s = Some p" "base \<noteq> Null" "ps_buffer_base s = base" "iop_workers p \<noteq> []"
    "tasks_ok cfg base (pending p) (ps_completions s)"
    "status_ok (status_of s) (ps_completions s) (notices p)"
    "data_ok cfg file base (status_of s) (pending p) (ps_completions s) (ps_mem s)"
  using assms by (auto simp: proto_inv_def split: option.splits)

lemma proto_invI:
  "ps_io_pool s = Some p \<Longrightarrow> base \<noteq> Null \<Longrightarrow> ps_buffer_base s = base \<Longrightarrow> iop_workers p \<noteq> [] \<Longrightarrow>
   tasks_ok cfg base (pending p) (ps_completions s) \<Longrightarrow> status_ok (status_of s) (ps_completions s) (notices p) \<Longrightarrow>
   data_ok cfg file base (status_of s) (pending p) (ps_completions s) (ps_mem s) \<Longrightarrow> proto_inv cfg file base s"
  by (simp add: proto_inv_def)

section \<open>Regions\<close>

lemma apart_sym: "apart r r' \<longleftrightarrow> apart r' r"
  by (cases r; cases r') auto

lemma layer_regsE:
  assumes "r \<in> set (layer_regs cfg l)"
  obtains rs where "(l, rs) \<in> set (pc_layer_regions cfg)" "r \<in> set rs"
  using assms by (cases "hm_get (pc_layer_regions cfg) l") (auto simp: layer_regs_def dest: map_of_SomeD)

lemma layer_regs_in: "r \<in> set (layer_regs cfg l) \<Longrightarrow> r \<in> set (concat (map snd (pc_layer_regions cfg)))"
  by (erule layer_regsE) force

lemma sorted_wrt_two:
  assumes "sorted_wrt P xs" "x \<in> set xs" "y \<in> set xs" "x \<noteq> y"
  shows "P x y \<or> P y x"
proof -
  obtain i j where "i < length xs" "j < length xs" "x = xs ! i" "y = xs ! j" using assms(2,3) by (metis in_set_conv_nth)
  with assms(1,4) show ?thesis by (cases i j rule: linorder_cases) (auto simp: sorted_wrt_iff_nth_less)
qed

lemma regs_apart:
  assumes "dense_layout file cfg" "r \<in> set (layer_regs cfg l)" "r' \<in> set (layer_regs cfg l')" "r \<noteq> r'"
  shows "apart r r'"
  using sorted_wrt_two [of apart, OF _ layer_regs_in [OF assms(2)] layer_regs_in [OF assms(3)] assms(4)] assms(1)
  unfolding dense_layout_def by (metis apart_sym)

lemma regs_in_file: "dense_layout file cfg \<Longrightarrow> r \<in> set (layer_regs cfg l) \<Longrightarrow> in_file file r"
  using layer_regs_in by (fastforce simp: dense_layout_def list_all_iff)

text \<open>Changes outside a region do not disturb it.\<close>

lemma holds_cong:
  assumes "\<And>x. covers base r x \<Longrightarrow> m' x = m x"
  shows "holds file m' base r = holds file m base r"
proof (cases base)
  case (Ptr b a)
  obtain off n fo where r: "r = (off, n, fo)" by (cases r) auto
  have "m' (b, a + unat off + i) = m (b, a + unat off + i)" if "i < unat n" for i
    using assms [of "(b, a + unat off + i)"] that by (simp add: Ptr r)
  then show ?thesis by (simp add: holds_def r Ptr list_all_iff)
qed (simp add: holds_def case_prod_unfold)

lemma apart_covers: "apart r r' \<Longrightarrow> covers base r x \<Longrightarrow> \<not> covers base r' x"
  by (cases base; cases r; cases r'; cases x) auto

lemma read_keeps:
  assumes "dense_layout file cfg" "reads_file file pread" "r \<in> set (layer_regs cfg l)" "r' \<in> set (layer_regs cfg l')"
    "base \<noteq> Null" "holds file m base r'"
  shows "holds file (pread_region pread base r m) base r'"
proof (cases "r = r'")
  case True
  with assms regs_in_file show ?thesis by (blast intro: pread_region_holds)
next
  case False
  have "pread_region pread base r m x = m x" if "covers base r' x" for x
    using pread_region_frame [OF assms(2) regs_in_file [OF assms(1,3)]] apart_covers that
      regs_apart [OF assms(1,4,3)] False by blast
  with assms(6) holds_cong [of base r' "pread_region pread base r m" m] show ?thesis by blast
qed

lemma free_bytes_frame: "\<not> covers base r x \<Longrightarrow>
    (case r of (off, n, _) \<Rightarrow> free_bytes (ptr_add base off) (unat n)) m x = m x"
  by (cases base; cases r; cases x) auto

lemma release_frame: "(\<And>r. r \<in> set rs \<Longrightarrow> \<not> covers base r x) \<Longrightarrow> release_regions base rs m x = m x"
proof (induction rs arbitrary: m)
  case (Cons r rs)
  have "\<not> covers base r x" using Cons.prems by simp
  from free_bytes_frame [OF this] Cons.IH Cons.prems show ?case by (simp add: release_regions_def)
qed (simp add: release_regions_def)

text \<open>Two layers share no region, except one of size zero.\<close>

lemma shared_region_empty:
  assumes "dense_layout file cfg" "l \<noteq> l'" "r \<in> set (layer_regs cfg l)" "r \<in> set (layer_regs cfg l')"
  shows "\<not> covers base r x"
proof -
  obtain rs where rs: "(l, rs) \<in> set (pc_layer_regions cfg)" "r \<in> set rs"
    using layer_regsE [OF assms(3)] by metis
  obtain rs' where rs': "(l', rs') \<in> set (pc_layer_regions cfg)" "r \<in> set rs'"
    using layer_regsE [OF assms(4)] by metis
  obtain i j where "i < length (pc_layer_regions cfg)" "j < length (pc_layer_regions cfg)"
      "pc_layer_regions cfg ! i = (l, rs)" "pc_layer_regions cfg ! j = (l', rs')"
    using rs(1) rs'(1) by (metis in_set_conv_nth)
  moreover have "apart r r" if "i < j" "j < length m" "r \<in> set (snd (m ! i))" "r \<in> set (snd (m ! j))"
      "sorted_wrt apart (concat (map snd m))" for i j and m :: "(u32 \<times> region list) list"
    using that
  proof (induction m arbitrary: i j)
    case (Cons e m)
    from Cons.prems(1) obtain j' where j: "j = Suc j'" by (cases j) auto
    show ?case
    proof (cases i)
      case 0
      with j Cons.prems have "r \<in> set (snd e)" "m ! j' \<in> set m" "r \<in> set (snd (m ! j'))" by auto
      with Cons.prems(5) show ?thesis by (auto simp: sorted_wrt_append)
    next
      case (Suc i')
      with j Cons.prems Cons.IH [of i' j'] show ?thesis by (simp add: sorted_wrt_append)
    qed
  qed simp
  ultimately have "apart r r"
    using assms(1,2) rs(2) rs'(2) by (cases i j rule: linorder_cases) (auto simp: dense_layout_def)
  then show ?thesis using apart_covers by blast
qed

lemma release_keeps:
  assumes "dense_layout file cfg" "l \<noteq> l'" "r \<in> set (layer_regs cfg l')" "holds file m base r"
  shows "holds file (release_regions base (layer_regs cfg l) m) base r"
proof -
  have "release_regions base (layer_regs cfg l) m x = m x" if "covers base r x" for x
  proof (rule release_frame)
    fix r' assume r': "r' \<in> set (layer_regs cfg l)"
    show "\<not> covers base r' x"
    proof (cases "r' = r")
      case True
      with shared_region_empty [OF assms(1,2) _ assms(3)] r' that show ?thesis by blast
    next
      case False
      with regs_apart [OF assms(1,3) r'] apart_covers that show ?thesis by blast
    qed
  qed
  with assms(4) holds_cong show ?thesis by blast
qed

section \<open>Workers keep the invariant\<close>

text \<open>Replacing one worker: what was pending with it goes, what is pending with the new one
  comes.\<close>

lemma split_at:
  assumes "i < length xs"
  obtains us x vs where "xs = us @ x # vs" "xs ! i = x" "\<And>y. xs[i := y] = us @ y # vs"
  using that [of "take i xs" "xs ! i" "drop (Suc i) xs"] assms by (simp add: id_take_nth_drop upd_conv_take_nth_drop)

lemma pending_update:
  assumes "i < length (iop_workers p)"
  shows "pending (update_worker i w p) + mset (worker_pending (iop_workers p ! i)) = pending p + mset (worker_pending w)"
proof -
  obtain us x vs where e: "iop_workers p = us @ x # vs" "iop_workers p ! i = x" "(iop_workers p)[i := w] = us @ w # vs"
    using split_at [OF assms] by metis
  show ?thesis unfolding pending_def update_worker_def e(2) by (simp add: e(3)) (simp add: e(1))
qed

lemma notices_update:
  assumes "i < length (iop_workers p)"
  shows "notices (update_worker i w p) l + (if iop_workers p ! i = Notify l then 1 else 0) =
    notices p l + (if w = Notify l then 1 else 0)"
proof -
  obtain us x vs where e: "iop_workers p = us @ x # vs" "iop_workers p ! i = x" "(iop_workers p)[i := w] = us @ w # vs"
    using split_at [OF assms] by metis
  show ?thesis unfolding notices_def update_worker_def e(2) by (simp add: e(3)) (simp add: e(1))
qed

lemma update_worker_simps [simp]:
  "iop_queue (update_worker i w p) = iop_queue p" "(iop_workers (update_worker i w p) = []) = (iop_workers p = [])"
  "iop_bytes_loaded (update_worker i w p) = iop_bytes_loaded p" "iop_load_time_ns (update_worker i w p) = iop_load_time_ns p"
  by (simp_all add: update_worker_def)

lemma pending_more [simp]:
  "pending (p\<lparr>iop_bytes_loaded := a, iop_load_time_ns := b\<rparr>) = pending p"
  "notices (p\<lparr>iop_bytes_loaded := a, iop_load_time_ns := b\<rparr>) = notices p"
  by (simp_all add: pending_def notices_def fun_eq_iff)

lemma trace_if_simps [simp]:
  "ps_io_pool (trace_if b ev s) = ps_io_pool s" "ps_layer_status (trace_if b ev s) = ps_layer_status s"
  "ps_completions (trace_if b ev s) = ps_completions s" "ps_mem (trace_if b ev s) = ps_mem s"
  "ps_buffer_base (trace_if b ev s) = ps_buffer_base s" "ps_current_layer (trace_if b ev s) = ps_current_layer s"
  "ps_now (trace_if b ev s) = ps_now s" "ps_neuron_cache (trace_if b ev s) = ps_neuron_cache s"
  by (simp_all add: trace_if_def trace_record_def)

lemma take_inv:
  assumes "proto_inv cfg file base s" "worker_take i s = Some s'"
  shows "proto_inv cfg file base s' \<and> ps_layer_status s' = ps_layer_status s"
proof -
  from assms(1) obtain p where p: "ps_io_pool s = Some p" "base \<noteq> Null" "ps_buffer_base s = base" "iop_workers p \<noteq> []"
    "tasks_ok cfg base (pending p) (ps_completions s)"
    "status_ok (status_of s) (ps_completions s) (notices p)"
    "data_ok cfg file base (status_of s) (pending p) (ps_completions s) (ps_mem s)" by (rule proto_invE)
  from assms(2) p(1) obtain t ts where t: "i < length (iop_workers p)" "iop_workers p ! i = Idle" "iop_queue p = t # ts"
    and s': "s' = s\<lparr>ps_io_pool := Some (update_worker i (Reading t (it_regions t) 0 (ps_now s)) (p\<lparr>iop_queue := ts\<rparr>))\<rparr>"
    by (auto simp: worker_take_def split: option.splits if_splits list.splits)
  let ?p = "update_worker i (Reading t (it_regions t) 0 (ps_now s)) (p\<lparr>iop_queue := ts\<rparr>)"
  have "pending ?p = pending (p\<lparr>iop_queue := ts\<rparr>) + {#task_pending t#}"
    using pending_update [of i "p\<lparr>iop_queue := ts\<rparr>" "Reading t (it_regions t) 0 (ps_now s)"] t
    by (simp add: task_pending_def)
  also have "\<dots> = pending p" by (simp add: pending_def t(3))
  finally have pe: "pending ?p = pending p" .
  have "notices ?p l = notices p l" for l
    using notices_update [of i "p\<lparr>iop_queue := ts\<rparr>" "Reading t (it_regions t) 0 (ps_now s)" l] t by (simp add: notices_def)
  then have "notices ?p = notices p" by auto
  with pe p show ?thesis unfolding s' by (intro conjI proto_invI [where p = ?p]) simp_all
qed

lemma pending_split:
  assumes "i < length (iop_workers p)"
  obtains M where "pending p = M + mset (worker_pending (iop_workers p ! i))"
    "\<And>w. pending (update_worker i w p) = M + mset (worker_pending w)"
proof -
  obtain us x vs where e: "iop_workers p = us @ x # vs" "iop_workers p ! i = x" "\<And>w. (iop_workers p)[i := w] = us @ w # vs"
    using split_at [OF assms] by metis
  let ?M = "mset (map task_pending (iop_queue p)) + mset (concat (map worker_pending us)) + mset (concat (map worker_pending vs))"
  have "pending p = ?M + mset (worker_pending x)" by (simp add: pending_def e(1))
  moreover have "pending (update_worker i w p) = ?M + mset (worker_pending w)" for w
    by (simp add: pending_def update_worker_def e(3))
  ultimately show thesis using that e(2) by metis
qed

lemma notices_keep:
  assumes "i < length (iop_workers p)" "\<And>l. iop_workers p ! i \<noteq> Notify l" "\<And>l. w \<noteq> Notify l"
  shows "notices (update_worker i w p) = notices p"
  using notices_update [OF assms(1), of w] assms(2,3) by auto

lemma tasks_okD:
  "tasks_ok cfg base pnd comps \<Longrightarrow> (k, b, rs) \<in># pnd \<Longrightarrow>
     k < length comps \<and> b = base \<and> set rs \<subseteq> set (layer_regs cfg (ic_layer_idx (comps ! k)))"
  unfolding tasks_ok_def by blast

lemma tasks_ok_replace:
  assumes "tasks_ok cfg base (add_mset (k, b, rs) M) comps" "set rs' \<subseteq> set rs"
  shows "tasks_ok cfg base (add_mset (k, b, rs') M) comps"
  unfolding tasks_ok_def
proof (intro conjI allI impI)
  fix j c qs assume "(j, c, qs) \<in># add_mset (k, b, rs') M"
  then have "j < length comps \<and> c = base \<and> set qs \<subseteq> set (layer_regs cfg (ic_layer_idx (comps ! j)))"
  proof (cases "(j, c, qs) = (k, b, rs')")
    case True
    with tasks_okD [OF assms(1), of k b rs] assms(2) show ?thesis by (simp add: subset_trans)
  next
    case False
    then have "(j, c, qs) \<in># add_mset (k, b, rs) M"
      using \<open>(j, c, qs) \<in># add_mset (k, b, rs') M\<close> by auto
    then show ?thesis by (rule tasks_okD [OF assms(1)])
  qed
  then show "j < length comps" "c = base" "set qs \<subseteq> set (layer_regs cfg (ic_layer_idx (comps ! j)))" by auto
next
  fix j assume "j < length comps"
  with assms(1) show "ic_update_status (comps ! j)" "ic_remaining (comps ! j) = size {#x \<in># add_mset (k, b, rs') M. fst x = j#}"
    unfolding tasks_ok_def by auto
qed

lemma read_inv:
  assumes lay: "dense_layout file cfg" and rd: "reads_file file pread"
    and "proto_inv cfg file base s" "worker_read pread i s = Some s'"
  shows "proto_inv cfg file base s' \<and> ps_layer_status s' = ps_layer_status s"
proof -
  from assms(3) obtain p where p: "ps_io_pool s = Some p" "base \<noteq> Null" "ps_buffer_base s = base" "iop_workers p \<noteq> []"
    "tasks_ok cfg base (pending p) (ps_completions s)"
    "status_ok (status_of s) (ps_completions s) (notices p)"
    "data_ok cfg file base (status_of s) (pending p) (ps_completions s) (ps_mem s)" by (rule proto_invE)
  from assms(4) p(1) obtain t r rs tot st where t: "i < length (iop_workers p)" "iop_workers p ! i = Reading t (r # rs) tot st"
    and s': "s' = s\<lparr>ps_io_pool := Some (update_worker i (Reading t rs (tot + fst (snd r)) st) p),
                    ps_mem := pread_region pread (it_base t) r (ps_mem s)\<rparr>"
    by (auto simp: worker_read_def split: option.splits if_splits list.splits worker.splits)
  let ?p = "update_worker i (Reading t rs (tot + fst (snd r)) st) p"
  let ?k = "it_completion t" and ?l = "ic_layer_idx (ps_completions s ! it_completion t)"
  let ?m = "pread_region pread (it_base t) r (ps_mem s)"
  obtain M where M: "pending p = add_mset (?k, it_base t, r # rs) M" "pending ?p = add_mset (?k, it_base t, rs) M"
    using pending_split [OF t(1)] t(2) by (metis worker_pending.simps(1) mset_single_iff_right add_mset_add_single mset.simps)
  have b: "it_base t = base" and r: "r \<in> set (layer_regs cfg ?l)"
    using tasks_okD [OF p(5), of ?k "it_base t" "r # rs"] by (simp_all add: M(1))
  have ok: "tasks_ok cfg base (pending ?p) (ps_completions s)"
    unfolding M(2) by (rule tasks_ok_replace [OF p(5) [unfolded M(1)]]) auto
  have keep: "holds file ?m base r'" if "holds file (ps_mem s) base r'" "r' \<in> set (layer_regs cfg l')" for r' l'
    unfolding b using read_keeps [OF lay rd r that(2) p(2) that(1)] .
  have new: "holds file ?m base r" unfolding b using pread_region_holds [OF rd regs_in_file [OF lay r] p(2)] .
  have "data_ok cfg file base (status_of s) (pending ?p) (ps_completions s) ?m"
    unfolding data_ok_def
  proof (intro allI ballI conjI impI)
    fix l' r' assume r': "r' \<in> set (layer_regs cfg l')"
    show "holds file ?m base r'" if "status_of s l' = Some Loaded"
      using p(7) r' that keep by (auto simp: data_ok_def)
    assume "status_of s l' = Some Loading"
    with p(7) r' consider "holds file (ps_mem s) base r'"
      | k b rs' where "(k, b, rs') \<in># pending p" "ic_layer_idx (ps_completions s ! k) = l'" "r' \<in> set rs'"
      unfolding data_ok_def by blast
    then show "holds file ?m base r' \<or> (\<exists>k b rs. (k, b, rs) \<in># pending ?p \<and> ic_layer_idx (ps_completions s ! k) = l' \<and> r' \<in> set rs)"
    proof cases
      case 1
      with keep r' show ?thesis by blast
    next
      case 2
      show ?thesis
      proof (cases "r' = r")
        case False
        show ?thesis
        proof (cases "(k, b, rs') = (?k, it_base t, r # rs)")
          case True
          then have "(?k, it_base t, rs) \<in># pending ?p" "ic_layer_idx (ps_completions s ! ?k) = l'" "r' \<in> set rs"
            using 2 False by (simp_all add: M(2))
          then show ?thesis by blast
        next
          case False
          then have "(k, b, rs') \<in># pending ?p" using 2(1) by (auto simp: M)
          with 2 show ?thesis by blast
        qed
      qed (use new in blast)
    qed
  qed
  moreover have "notices ?p = notices p" using notices_keep [OF t(1)] t(2) by simp
  ultimately show ?thesis
    using p ok unfolding s' by (intro conjI proto_invI [where p = ?p]) simp_all
qed

lemma status_okD: "status_ok st comps nts \<Longrightarrow> open_loads comps l + nts l = (if st l = Some Loading then 1 else 0)"
  by (simp add: status_ok_def)

lemma data_ok_change:
  assumes "data_ok cfg file base st pnd comps m"
    "\<And>k b rs r. (k, b, rs) \<in># pnd \<Longrightarrow> r \<in> set rs \<Longrightarrow>
       \<exists>k' b' rs'. (k', b', rs') \<in># pnd' \<and> ic_layer_idx (comps' ! k') = ic_layer_idx (comps ! k) \<and> r \<in> set rs'"
  shows "data_ok cfg file base st pnd' comps' m"
  using assms unfolding data_ok_def by metis

lemma open_loads_update:
  assumes "k < length comps"
  shows "open_loads (comps[k := c]) l + (if ic_layer_idx (comps ! k) = l \<and> 0 < ic_remaining (comps ! k) then 1 else 0) =
    open_loads comps l + (if ic_layer_idx c = l \<and> 0 < ic_remaining c then 1 else 0)"
proof -
  obtain us x vs where e: "comps = us @ x # vs" "comps ! k = x" "comps[k := c] = us @ c # vs"
    using split_at [OF assms] by metis
  show ?thesis unfolding open_loads_def e(2) by (simp add: e(3)) (simp add: e(1))
qed

lemma open_load_pos:
  assumes "tasks_ok cfg base pnd comps" "(k, b, rs) \<in># pnd"
  shows "0 < open_loads comps (ic_layer_idx (comps ! k))"
proof -
  have k: "k < length comps" using assms by (auto simp: tasks_ok_def)
  have "(k, b, rs) \<in># {#x \<in># pnd. fst x = k#}" using assms(2) by simp
  then have "0 < ic_remaining (comps ! k)"
    using assms(1) k by (auto simp: tasks_ok_def size_eq_0_iff_empty zero_less_iff_neq_zero simp del: size_filter_mset_lesseq)
  then have "comps ! k \<in> set (filter (\<lambda>c. ic_layer_idx c = ic_layer_idx (comps ! k) \<and> 0 < ic_remaining c) comps)"
    using k by simp
  then show ?thesis unfolding open_loads_def by (rule length_pos_if_in_set)
qed

lemma done_inv:
  assumes "proto_inv cfg file base s" "worker_done i s = Some s'"
  shows "proto_inv cfg file base s' \<and> ps_layer_status s' = ps_layer_status s"
proof -
  from assms(1) obtain p where p: "ps_io_pool s = Some p" "base \<noteq> Null" "ps_buffer_base s = base" "iop_workers p \<noteq> []"
    "tasks_ok cfg base (pending p) (ps_completions s)"
    "status_ok (status_of s) (ps_completions s) (notices p)"
    "data_ok cfg file base (status_of s) (pending p) (ps_completions s) (ps_mem s)" by (rule proto_invE)
  from assms(2) p(1) obtain t tot st where t: "i < length (iop_workers p)" "iop_workers p ! i = Reading t [] tot st"
    by (auto simp: worker_done_def split: option.splits if_splits list.splits worker.splits)
  define k where "k = it_completion t"
  define c where "c = ps_completions s ! k"
  define w where "w = (if ic_remaining c = 1 \<and> ic_update_status c then Notify (ic_layer_idx c) else Idle)"
  define comps where "comps = (ps_completions s)[k := c\<lparr>ic_remaining := ic_remaining c - 1\<rparr>]"
  define ns :: u64 where "ns = of_nat (ps_now s - st)"
  define p' where "p' = (update_worker i w p)\<lparr>iop_bytes_loaded := iop_bytes_loaded p + tot, iop_load_time_ns := iop_load_time_ns p + ns\<rparr>"
  have "worker_done i s = Some (trace_if (ic_remaining c = 1 \<and> ps_trace_enabled s)
      (LoadComplete (ic_layer_idx c) tot (f_div (f_of_word ns) (Fin 1000000))) (s\<lparr>ps_io_pool := Some p', ps_completions := comps\<rparr>))"
    by (simp only: worker_done_def p(1) option.case t if_True worker.case list.case Let_def k_def c_def w_def comps_def ns_def p'_def)
  with assms(2) have s': "s' = trace_if (ic_remaining c = 1 \<and> ps_trace_enabled s)
      (LoadComplete (ic_layer_idx c) tot (f_div (f_of_word ns) (Fin 1000000))) (s\<lparr>ps_io_pool := Some p', ps_completions := comps\<rparr>)"
    by simp
  obtain M where M: "pending p = add_mset (k, it_base t, []) M" "pending p' = M"
  proof -
    obtain M where m: "pending p = M + mset (worker_pending (iop_workers p ! i))"
      "\<And>w. pending (update_worker i w p) = M + mset (worker_pending w)" using pending_split [OF t(1)] by blast
    show thesis by (rule that [of M]) (use m(1) in \<open>simp add: t(2) k_def\<close>, simp add: p'_def m(2), simp add: w_def)
  qed
  have k: "k < length (ps_completions s)" and u: "ic_update_status c"
    and rem: "ic_remaining c = Suc (size {#x \<in># M. fst x = k#})"
    using p(5) by (auto simp: M(1) tasks_ok_def c_def)
  have same: "ic_layer_idx (comps ! j) = ic_layer_idx (ps_completions s ! j)" for j
    by (cases "j = k") (use k in \<open>simp_all add: comps_def c_def\<close>)
  have "tasks_ok cfg base (pending p') comps"
    unfolding tasks_ok_def same M(2)
  proof (intro conjI allI impI)
    fix j b rs assume "(j, b, rs) \<in># M"
    then have "(j, b, rs) \<in># pending p" by (simp add: M(1))
    from tasks_okD [OF p(5) this]
    show "j < length comps" "b = base" "set rs \<subseteq> set (layer_regs cfg (ic_layer_idx (ps_completions s ! j)))"
      by (simp_all add: comps_def)
  next
    fix j assume j: "j < length comps"
    then have j': "j < length (ps_completions s)" by (simp add: comps_def)
    show "ic_update_status (comps ! j)"
      using p(5) j' k by (cases "j = k") (auto simp: tasks_ok_def comps_def u)
    show "ic_remaining (comps ! j) = size {#x \<in># M. fst x = j#}"
    proof (cases "j = k")
      case False
      with p(5) j' show ?thesis by (simp add: tasks_ok_def M(1) comps_def)
    qed (use k rem in \<open>simp add: comps_def\<close>)
  qed
  moreover have "status_ok (status_of s) comps (notices p')"
  proof -
    obtain n where n: "ic_remaining c = Suc n" using rem by blast
    have w: "w = (if n = 0 then Notify (ic_layer_idx c) else Idle)" by (simp add: w_def n u)
    have "open_loads comps l + notices p' l = open_loads (ps_completions s) l + notices p l" for l
      using open_loads_update [OF k, of "c\<lparr>ic_remaining := n\<rparr>" l] notices_update [OF t(1), of w l]
      by (cases "n = 0"; cases "ic_layer_idx c = l") (simp_all add: t(2) w p'_def comps_def n flip: c_def)
    with p(6) show ?thesis by (simp add: status_ok_def)
  qed
  moreover have "data_ok cfg file base (status_of s) (pending p') comps (ps_mem s)"
    by (rule data_ok_change [OF p(7)]) (auto simp: M same)
  ultimately show ?thesis
    using p unfolding s' by (intro conjI proto_invI [where p = p']) (simp_all add: p'_def)
qed

lemma notify_inv:
  assumes "proto_inv cfg file base s" "worker_notify i s = Some s'"
  shows "proto_inv cfg file base s' \<and> (\<exists>l. ps_layer_status s' = hm_insert l Loaded (ps_layer_status s))"
proof -
  from assms(1) obtain p where p: "ps_io_pool s = Some p" "base \<noteq> Null" "ps_buffer_base s = base" "iop_workers p \<noteq> []"
    "tasks_ok cfg base (pending p) (ps_completions s)"
    "status_ok (status_of s) (ps_completions s) (notices p)"
    "data_ok cfg file base (status_of s) (pending p) (ps_completions s) (ps_mem s)" by (rule proto_invE)
  from assms(2) p(1) obtain l where t: "i < length (iop_workers p)" "iop_workers p ! i = Notify l"
    and s': "s' = set_status l Loaded (s\<lparr>ps_io_pool := Some (update_worker i Idle p)\<rparr>)"
    by (auto simp: worker_notify_def split: option.splits if_splits worker.splits)
  have pe: "pending (update_worker i Idle p) = pending p"
    using pending_update [OF t(1), of Idle] t(2) by simp
  have nt: "notices (update_worker i Idle p) k + (if k = l then 1 else 0) = notices p k" for k
    using notices_update [OF t(1), of Idle k] t(2) by (auto split: if_splits)
  have l: "status_of s l = Some Loading" "open_loads (ps_completions s) l = 0"
    using p(6) nt [of l] unfolding status_ok_def by (force split: if_splits)+
  have st: "status_of s' k = (if k = l then Some Loaded else status_of s k)" for k by (simp add: s' set_status_def)
  have "status_ok (status_of s') (ps_completions s) (notices (update_worker i Idle p))"
    unfolding status_ok_def
  proof
    fix k show "open_loads (ps_completions s) k + notices (update_worker i Idle p) k = (if status_of s' k = Some Loading then 1 else 0)"
      using status_okD [OF p(6), of k] nt [of k] l by (cases "k = l") (simp_all add: st)
  qed
  moreover have "data_ok cfg file base (status_of s') (pending p) (ps_completions s) (ps_mem s)"
    unfolding data_ok_def
  proof (intro allI ballI conjI impI)
    fix k r assume r: "r \<in> set (layer_regs cfg k)"
    { assume "status_of s' k = Some Loaded"
      then show "holds file (ps_mem s) base r"
      proof (cases "k = l")
        case True
        with p(7) r l(1) consider "holds file (ps_mem s) base r"
          | j b rs where "(j, b, rs) \<in># pending p" "ic_layer_idx (ps_completions s ! j) = l"
          unfolding data_ok_def by blast
        then show ?thesis using open_load_pos [OF p(5)] l(2) by cases fastforce+
      qed (use p(7) r in \<open>auto simp: data_ok_def st\<close>) }
    assume "status_of s' k = Some Loading"
    then have "status_of s k = Some Loading" by (auto simp: st split: if_splits)
    with p(7) r show "holds file (ps_mem s) base r \<or>
        (\<exists>j b rs. (j, b, rs) \<in># pending p \<and> ic_layer_idx (ps_completions s ! j) = k \<and> r \<in> set rs)"
      unfolding data_ok_def by blast
  qed
  ultimately have "proto_inv cfg file base s'"
    using p pe by (intro proto_invI [where p = "update_worker i Idle p"]) (simp_all add: s' set_status_def)
  then show ?thesis by (auto simp: s' set_status_def)
qed

lemma worker_inv:
  assumes "dense_layout file cfg" "proto_inv cfg file base s" "worker_step file s s'"
  shows "proto_inv cfg file base s'"
    "status_of s k = Some Loaded \<Longrightarrow> status_of s' k = Some Loaded"
    "status_of s k = Some Loading \<Longrightarrow> status_of s' k = Some Loading \<or> status_of s' k = Some Loaded"
proof -
  have "proto_inv cfg file base s' \<and> (ps_layer_status s' = ps_layer_status s \<or> (\<exists>l. ps_layer_status s' = hm_insert l Loaded (ps_layer_status s)))"
    using assms(3)
  proof cases
    case (take i)
    then show ?thesis using take_inv [OF assms(2)] by blast
  next
    case (read pread i)
    then show ?thesis using read_inv [OF assms(1) _ assms(2)] by blast
  next
    case (finish i)
    then show ?thesis using done_inv [OF assms(2)] by blast
  next
    case (notify i)
    then show ?thesis using notify_inv [OF assms(2)] by blast
  qed
  then show "proto_inv cfg file base s'" "status_of s k = Some Loaded \<Longrightarrow> status_of s' k = Some Loaded"
    "status_of s k = Some Loading \<Longrightarrow> status_of s' k = Some Loading \<or> status_of s' k = Some Loaded" by auto
qed

lemma worker_frame:
  assumes "worker_step file s s'"
  shows "ps_current_layer s' = ps_current_layer s"
  using assms
  by cases (auto simp: worker_take_def worker_read_def worker_done_def worker_notify_def set_status_def Let_def
      split: option.splits if_splits list.splits worker.splits)

section \<open>The inference thread keeps the invariant\<close>

lemma full_layer_tasks_concat: "concat (full_layer_tasks cfg s l) = layer_regs cfg l"
proof -
  have "0 < num_workers s" by (auto simp: num_workers_def max_def split: option.splits)
  then have "0 < (length rs + num_workers s - 1) div num_workers s" if "rs \<noteq> []" for rs :: "region list"
    using that by (cases rs) (auto simp: div_greater_zero_iff)
  then show ?thesis by (auto simp: full_layer_tasks_def layer_regs_def concat_chunks split: option.splits)
qed

lemma pending_send:
  "pending (p\<lparr>iop_queue := iop_queue p @ map (\<lambda>rs. \<lparr>it_regions = rs, it_base = b, it_completion = k\<rparr>) tasks\<rparr>) =
   pending p + mset (map (\<lambda>rs. (k, b, rs)) tasks)"
  by (simp add: pending_def task_pending_def comp_def)

lemma submit_inv:
  assumes "dense_layout file cfg" "proto_inv cfg file base s" "status_of s l \<noteq> Some Loading" "status_of s l \<noteq> Some Loaded"
  shows "proto_inv cfg file base (submit_layer_load cfg l (set_status l Loading s))"
    "k \<noteq> l \<Longrightarrow> status_of (submit_layer_load cfg l (set_status l Loading s)) k = status_of s k"
    "ps_current_layer (submit_layer_load cfg l (set_status l Loading s)) = ps_current_layer s"
    "status_of (submit_layer_load cfg l (set_status l Loading s)) l \<in> {Some Loading, Some Loaded}"
proof -
  from assms(2) obtain p where p: "ps_io_pool s = Some p" "base \<noteq> Null" "ps_buffer_base s = base" "iop_workers p \<noteq> []"
    "tasks_ok cfg base (pending p) (ps_completions s)"
    "status_ok (status_of s) (ps_completions s) (notices p)"
    "data_ok cfg file base (status_of s) (pending p) (ps_completions s) (ps_mem s)" by (rule proto_invE)
  define s1 where "s1 = set_status l Loading s"
  define tasks where "tasks = full_layer_tasks cfg s1 l"
  have c: "concat tasks = layer_regs cfg l" by (simp add: tasks_def full_layer_tasks_concat)
  have none: "open_loads (ps_completions s) l = 0" "notices p l = 0"
    using status_okD [OF p(6), of l] assms(3) by simp_all
  have sub: "submit_layer_load cfg l s1 = (if tasks = [] then set_status l Loaded s1 else send_tasks True l base tasks p s1)"
    using p(1-3) assms(1) by (simp add: submit_layer_load_def s1_def set_status_def dense_layout_def tasks_def split: option.splits)
  have "proto_inv cfg file base (submit_layer_load cfg l s1) \<and>
      (k \<noteq> l \<longrightarrow> status_of (submit_layer_load cfg l s1) k = status_of s k) \<and>
      ps_current_layer (submit_layer_load cfg l s1) = ps_current_layer s \<and>
      status_of (submit_layer_load cfg l s1) l \<in> {Some Loading, Some Loaded}"
  proof (cases "tasks = []")
    case True
    let ?s = "set_status l Loaded s1"
    have st: "status_of ?s k = (if k = l then Some Loaded else status_of s k)" for k by (simp add: s1_def set_status_def)
    have "layer_regs cfg l = []" using c True by simp
    then have "data_ok cfg file base (status_of ?s) (pending p) (ps_completions s) (ps_mem s)"
      using p(7) by (auto simp: data_ok_def st)
    moreover have "status_ok (status_of ?s) (ps_completions s) (notices p)"
      unfolding status_ok_def
    proof
      fix k show "open_loads (ps_completions s) k + notices p k = (if status_of ?s k = Some Loading then 1 else 0)"
        using status_okD [OF p(6), of k] none by (cases "k = l") (simp_all add: st)
    qed
    ultimately have "proto_inv cfg file base ?s"
      using p by (intro proto_invI [where p = p]) (simp_all add: s1_def set_status_def)
    then show ?thesis using st by (simp add: sub True) (simp add: s1_def set_status_def)
  next
    case False
    let ?k = "length (ps_completions s)"
    let ?c = "\<lparr>ic_remaining = length tasks, ic_layer_idx = l, ic_update_status = True\<rparr>"
    let ?comps = "ps_completions s @ [?c]"
    define p' where "p' = p\<lparr>iop_queue := iop_queue p @ map (\<lambda>rs. \<lparr>it_regions = rs, it_base = base, it_completion = ?k\<rparr>) tasks\<rparr>"
    have s2: "send_tasks True l base tasks p s1 = s1\<lparr>ps_completions := ?comps, ps_io_pool := Some p'\<rparr>"
      by (simp add: send_tasks_def s1_def set_status_def p'_def Let_def)
    have pe: "pending p' = pending p + mset (map (\<lambda>rs. (?k, base, rs)) tasks)" by (simp add: p'_def pending_send)
    have st: "status_of s1 k = (if k = l then Some Loading else status_of s k)" for k by (simp add: s1_def set_status_def)
    have nts: "notices p' = notices p" by (simp add: p'_def notices_def fun_eq_iff)
    have old: "size {#x \<in># mset (map (\<lambda>rs. (?k, base, rs)) tasks). fst x = j#} = (if j = ?k then length tasks else 0)" for j
      by (induction tasks) auto
    have fresh: "size {#x \<in># pending p. fst x = ?k#} = 0"
    proof -
      have "set_mset {#x \<in># pending p. fst x = ?k#} = {}" using tasks_okD [OF p(5)] by fastforce
      then show ?thesis by simp
    qed
    have "tasks_ok cfg base (pending p') ?comps"
      unfolding tasks_ok_def
    proof (intro conjI allI impI)
      fix j b rs assume "(j, b, rs) \<in># pending p'"
      then consider "(j, b, rs) \<in># pending p" | "j = ?k" "b = base" "rs \<in> set tasks" by (auto simp: pe)
      then have "j < length ?comps \<and> b = base \<and> set rs \<subseteq> set (layer_regs cfg (ic_layer_idx (?comps ! j)))"
      proof cases
        case 1
        from tasks_okD [OF p(5) this] show ?thesis by (auto simp: nth_append)
      next
        case 2
        then show ?thesis using c by (auto simp flip: c)
      qed
      then show "j < length ?comps" "b = base" "set rs \<subseteq> set (layer_regs cfg (ic_layer_idx (?comps ! j)))" by auto
    next
      fix j assume j: "j < length ?comps"
      show "ic_update_status (?comps ! j)"
        using p(5) j by (cases "j = ?k") (auto simp: tasks_ok_def nth_append)
      show "ic_remaining (?comps ! j) = size {#x \<in># pending p'. fst x = j#}"
      proof (cases "j = ?k")
        case True
        with fresh old [of ?k] show ?thesis by (simp add: pe del: mset_map)
      next
        case False
        with j p(5) old [of j] show ?thesis by (simp add: pe tasks_ok_def nth_append del: mset_map)
      qed
    qed
    moreover have "status_ok (status_of s1) ?comps (notices p')"
      unfolding status_ok_def
    proof
      fix k show "open_loads ?comps k + notices p' k = (if status_of s1 k = Some Loading then 1 else 0)"
        using status_okD [OF p(6), of k] none False by (cases "k = l") (simp_all add: st nts open_loads_def)
    qed
    moreover have "data_ok cfg file base (status_of s1) (pending p') ?comps (ps_mem s)"
      unfolding data_ok_def
    proof (intro allI ballI conjI impI)
      fix k r assume r: "r \<in> set (layer_regs cfg k)"
      { assume "status_of s1 k = Some Loaded"
        then show "holds file (ps_mem s) base r" using p(7) r by (auto simp: data_ok_def st split: if_splits) }
      assume lo: "status_of s1 k = Some Loading"
      show "holds file (ps_mem s) base r \<or> (\<exists>j b rs. (j, b, rs) \<in># pending p' \<and> ic_layer_idx (?comps ! j) = k \<and> r \<in> set rs)"
      proof (cases "k = l")
        case True
        with r c obtain rs where "rs \<in> set tasks" "r \<in> set rs" by (metis UN_E set_concat)
        then have "(?k, base, rs) \<in># pending p' \<and> ic_layer_idx (?comps ! ?k) = k \<and> r \<in> set rs" by (simp add: pe True)
        then show ?thesis by blast
      next
        case False
        with lo p(7) r consider "holds file (ps_mem s) base r"
          | j b rs where "(j, b, rs) \<in># pending p" "ic_layer_idx (ps_completions s ! j) = k" "r \<in> set rs"
          unfolding data_ok_def st by (metis option.inject)
        then show ?thesis
        proof cases
          case 2
          with tasks_okD [OF p(5) 2(1)] have "(j, b, rs) \<in># pending p' \<and> ic_layer_idx (?comps ! j) = k \<and> r \<in> set rs"
            by (simp add: pe nth_append)
          then show ?thesis by blast
        qed blast
      qed
    qed
    ultimately have "proto_inv cfg file base (send_tasks True l base tasks p s1)"
      using p unfolding s2 by (intro proto_invI [where p = p']) (simp_all add: s1_def set_status_def p'_def)
    then show ?thesis using st False unfolding sub by (simp add: s2) (simp add: s1_def set_status_def)
  qed
  then show "proto_inv cfg file base (submit_layer_load cfg l (set_status l Loading s))"
    "k \<noteq> l \<Longrightarrow> status_of (submit_layer_load cfg l (set_status l Loading s)) k = status_of s k"
    "ps_current_layer (submit_layer_load cfg l (set_status l Loading s)) = ps_current_layer s"
    "status_of (submit_layer_load cfg l (set_status l Loading s)) l \<in> {Some Loading, Some Loaded}"
    by (auto simp: s1_def)
qed

lemma request_inv:
  assumes "dense_layout file cfg" "proto_inv cfg file base s"
  shows "proto_inv cfg file base (request_prefetch cfg (LayerRequest l) s)"
    "status_of s k = Some Loaded \<Longrightarrow> status_of (request_prefetch cfg (LayerRequest l) s) k = Some Loaded"
    "ps_current_layer (request_prefetch cfg (LayerRequest l) s) = ps_current_layer s"
  using submit_inv(1,3) [OF assms, of l] submit_inv(2) [OF assms, of l k] assms(2) by (cases "k = l"; auto simp: request_prefetch_def)+

lemma release_inv:
  assumes lay: "dense_layout file cfg" and "proto_inv cfg file base s" and nl: "status_of s l \<noteq> Some Loading"
  shows "proto_inv cfg file base (release_layer cfg l s)"
    "k \<noteq> l \<Longrightarrow> status_of (release_layer cfg l s) k = status_of s k"
    "ps_current_layer (release_layer cfg l s) = ps_current_layer s"
proof -
  from assms(2) obtain p where p: "ps_io_pool s = Some p" "base \<noteq> Null" "ps_buffer_base s = base" "iop_workers p \<noteq> []"
    "tasks_ok cfg base (pending p) (ps_completions s)"
    "status_ok (status_of s) (ps_completions s) (notices p)"
    "data_ok cfg file base (status_of s) (pending p) (ps_completions s) (ps_mem s)" by (rule proto_invE)
  have "proto_inv cfg file base (release_layer cfg l s) \<and> (k \<noteq> l \<longrightarrow> status_of (release_layer cfg l s) k = status_of s k) \<and>
      ps_current_layer (release_layer cfg l s) = ps_current_layer s"
  proof (cases "hm_get (pc_layer_regions cfg) l")
    case (Some rs)
    then have rs: "layer_regs cfg l = rs" by (simp add: layer_regs_def)
    let ?m = "release_regions base rs (ps_mem s)"
    let ?st = "\<lambda>k. if k = l then Some NotLoaded else status_of s k"
    have keep: "holds file ?m base r" if "holds file (ps_mem s) base r" "r \<in> set (layer_regs cfg k)" "k \<noteq> l" for r k
      using release_keeps [OF lay, of l k r "ps_mem s" base] that rs by simp
    have "data_ok cfg file base ?st (pending p) (ps_completions s) ?m"
      unfolding data_ok_def
    proof (intro allI ballI conjI impI)
      fix k r assume r: "r \<in> set (layer_regs cfg k)"
      show "holds file ?m base r" if "?st k = Some Loaded"
        using that p(7) r keep by (cases "k = l") (auto simp: data_ok_def)
      assume "?st k = Some Loading"
      then have "k \<noteq> l" "status_of s k = Some Loading" by (auto split: if_splits)
      with p(7) r keep show "holds file ?m base r \<or> (\<exists>j b rs. (j, b, rs) \<in># pending p \<and> ic_layer_idx (ps_completions s ! j) = k \<and> r \<in> set rs)"
        unfolding data_ok_def by blast
    qed
    moreover have "status_ok ?st (ps_completions s) (notices p)"
      using p(6) status_okD [OF p(6), of l] nl by (auto simp: status_ok_def)
    moreover have st: "status_of (release_layer cfg l s) = ?st"
      using Some p(2,3) by (auto simp: release_layer_def set_status_def)
    ultimately have "proto_inv cfg file base (release_layer cfg l s)"
      using p Some unfolding st [symmetric] by (intro proto_invI [where p = p]) (auto simp: release_layer_def set_status_def)
    moreover have "ps_current_layer (release_layer cfg l s) = ps_current_layer s"
      using Some by (auto simp: release_layer_def set_status_def)
    ultimately show ?thesis using st by simp
  qed (use assms(2) in \<open>simp add: release_layer_def\<close>)
  then show "proto_inv cfg file base (release_layer cfg l s)"
    "k \<noteq> l \<Longrightarrow> status_of (release_layer cfg l s) k = status_of s k"
    "ps_current_layer (release_layer cfg l s) = ps_current_layer s" by auto
qed

text \<open>What a callback relies on between its steps: the invariant, the layers that must stay
  loaded, and the layer recorded as current.\<close>

definition stays :: "prefetch_config \<Rightarrow> u8 list \<Rightarrow> ptr \<Rightarrow> u32 set \<Rightarrow> i32 \<Rightarrow> prefetch_state \<Rightarrow> bool" where
  "stays cfg file base K c s \<longleftrightarrow> proto_inv cfg file base s \<and> (\<forall>k \<in> K. status_of s k = Some Loaded) \<and> ps_current_layer s = c"

lemma request_stays:
  "dense_layout file cfg \<Longrightarrow> stays cfg file base K c s \<Longrightarrow> stays cfg file base K c (request_prefetch cfg (LayerRequest l) s)"
  using request_inv unfolding stays_def by blast

lemma prefetch_ahead_stays:
  assumes "dense_layout file cfg" "stays cfg file base K c s"
  shows "stays cfg file base K c (prefetch_ahead cfg l s)"
proof -
  have "stays cfg file base K c (fold (\<lambda>i s. let target = l + of_nat i
        in if target < pc_num_layers cfg \<and> target \<in> set (pc_nvme_layers cfg)
           then request_prefetch cfg (LayerRequest target) s else s) is s)" for "is"
    using assms(2) by (induction "is" arbitrary: s) (auto simp: Let_def request_stays [OF assms(1)])
  then show ?thesis by (simp add: prefetch_ahead_def)
qed

lemma standard_done_stays:
  assumes lay: "dense_layout file cfg" and inv: "proto_inv cfg file base s" and l: "status_of s l = Some Loaded"
    and cur: "0 \<le> sint (ps_current_layer s) \<longrightarrow> status_of s (ps_current_layer s) = Some Loaded"
  shows "\<exists>s'. callback_standard_done cfg l s = Ret s' \<and> stays cfg file base {l} l s'"
proof -
  let ?prev = "ps_current_layer s" and ?s1 = "s\<lparr>ps_current_layer := l\<rparr>"
  let ?s2 = "if ?prev \<in> set (pc_nvme_layers cfg) then release_layer cfg ?prev ?s1 else ?s1"
  have inv1: "proto_inv cfg file base ?s1" using inv by (simp add: proto_inv_def split: option.splits)
  then have "stays cfg file base {l} l ?s1" using l by (simp add: stays_def)
  moreover have "stays cfg file base {l} l ?s2" if "advanced ?prev l"
  proof -
    have "status_of ?s1 ?prev \<noteq> Some Loading" "l \<noteq> ?prev" using that cur by (auto simp: advanced_def)
    with release_inv [OF lay inv1] l \<open>stays cfg file base {l} l ?s1\<close> show ?thesis by (simp add: stays_def)
  qed
  moreover have "speculate ok cfg l s' = Ret s'" for ok s' using lay by (simp add: speculate_def dense_layout_def)
  ultimately show ?thesis
    using prefetch_ahead_stays [OF lay] by (simp add: callback_standard_done_def swap_layer_def)
qed

section \<open>Every reachable state\<close>

definition sys_inv :: "prefetch_config \<Rightarrow> u8 list \<Rightarrow> ptr \<Rightarrow> main \<times> prefetch_state \<Rightarrow> bool" where
  "sys_inv cfg file base ms \<longleftrightarrow> (case ms of (m, s) \<Rightarrow> proto_inv cfg file base s \<and>
     (0 \<le> sint (ps_current_layer s) \<longrightarrow> status_of s (ps_current_layer s) = Some Loaded) \<and>
     (\<forall>l. m = Computing l \<longrightarrow> status_of s l = Some Loaded) \<and>
     (\<forall>l. m = Waiting l \<longrightarrow> status_of s l = Some Loaded \<or> status_of s l = Some Loading))"

lemma initial_inv:
  assumes "initial base s" "base \<noteq> Null"
  shows "sys_inv cfg file base (Free, s)"
proof -
  from assms(1) obtain p where p: "ps_io_pool s = Some p" "iop_queue p = []" "iop_workers p \<noteq> []"
    "list_all (\<lambda>w. w = Idle) (iop_workers p)" "ps_completions s = []" "ps_buffer_base s = base" "ps_current_layer s = -1"
    by (auto simp: initial_def split: option.splits)
  have st: "status_of s l = None \<or> status_of s l = Some NotLoaded" for l
    using assms(1) by (cases "status_of s l") (auto simp: initial_def list_all_iff dest: map_of_SomeD)
  have "concat (map worker_pending ws) = [] \<and> count_list ws (Notify l) = 0" if "list_all (\<lambda>w. w = Idle) ws" for ws l
    using that by (induction ws) auto
  then have e: "pending p = {#}" "notices p = (\<lambda>_. 0)"
    using p(2,4) by (auto simp: pending_def notices_def fun_eq_iff)
  have "proto_inv cfg file base s"
  proof (rule proto_invI [OF p(1) assms(2) p(6) p(3)])
    show "tasks_ok cfg base (pending p) (ps_completions s)" by (simp add: e p(5) tasks_ok_def)
    show "status_ok (status_of s) (ps_completions s) (notices p)"
      unfolding status_ok_def
    proof
      fix l show "open_loads (ps_completions s) l + notices p l = (if status_of s l = Some Loading then 1 else 0)"
        using st [of l] by (auto simp: e p(5) open_loads_def)
    qed
    show "data_ok cfg file base (status_of s) (pending p) (ps_completions s) (ps_mem s)"
    proof -
      have "status_of s l \<noteq> Some Loaded \<and> status_of s l \<noteq> Some Loading" for l using st [of l] by auto
      then show ?thesis by (simp add: data_ok_def)
    qed
  qed
  then show ?thesis using p(7) by (simp add: sys_inv_def)
qed

lemma proto_inv_observe [simp]:
  "proto_inv cfg file base (s\<lparr>ps_trace := tr, ps_now := t\<rparr>) = proto_inv cfg file base s"
  by (simp add: proto_inv_def split: option.splits)

lemma step_inv:
  assumes lay: "dense_layout file cfg" and "sys_inv cfg file base ms" "sys_step cfg file ms ms'"
  shows "sys_inv cfg file base ms'"
  using assms(3)
proof cases
  case (ask_submit s l)
  from assms(2) ask_submit(1) have i: "proto_inv cfg file base s"
    and c: "0 \<le> sint (ps_current_layer s) \<longrightarrow> status_of s (ps_current_layer s) = Some Loaded" by (auto simp: sys_inv_def)
  let ?s = "submit_layer_load cfg l (set_status l Loading s)"
  note sb = submit_inv(1,3,4) [OF lay i ask_submit(4,3)] submit_inv(2) [OF lay i ask_submit(4,3), of "ps_current_layer s"]
  have "0 \<le> sint (ps_current_layer ?s) \<longrightarrow> status_of ?s (ps_current_layer ?s) = Some Loaded"
    using c sb(2,4) ask_submit(3) by (cases "ps_current_layer s = l") simp_all
  with sb(1,3) show ?thesis unfolding ask_submit(2) by (auto simp: sys_inv_def)
next
  case (computed l s s')
  from assms(2) computed(1) have i: "proto_inv cfg file base s" "status_of s l = Some Loaded"
    "0 \<le> sint (ps_current_layer s) \<longrightarrow> status_of s (ps_current_layer s) = Some Loaded" by (auto simp: sys_inv_def)
  from standard_done_stays [OF lay i] computed(3) show ?thesis unfolding computed(2) by (auto simp: sys_inv_def stays_def)
next
  case (request s l)
  from assms(2) request(1) have i: "proto_inv cfg file base s"
    and c: "0 \<le> sint (ps_current_layer s) \<longrightarrow> status_of s (ps_current_layer s) = Some Loaded" by (auto simp: sys_inv_def)
  from c request_inv(1,3) [OF lay i, of l] request_inv(2) [OF lay i, of "ps_current_layer s" l]
  show ?thesis unfolding request(2) by (simp add: sys_inv_def)
next
  case (work s s' m)
  from assms(2) work(1) have i: "proto_inv cfg file base s"
    and rest: "0 \<le> sint (ps_current_layer s) \<longrightarrow> status_of s (ps_current_layer s) = Some Loaded"
      "\<forall>l. m = Computing l \<longrightarrow> status_of s l = Some Loaded"
      "\<forall>l. m = Waiting l \<longrightarrow> status_of s l = Some Loaded \<or> status_of s l = Some Loading" by (auto simp: sys_inv_def)
  from rest worker_inv [OF lay i work(3)] worker_frame [OF work(3)]
  show ?thesis unfolding work(2) sys_inv_def prod.case by metis
next
  case (observe m s tr t)
  with assms(2) show ?thesis by (simp add: sys_inv_def)
next
  case (ask_hit s l)
  with assms(2) show ?thesis by (simp add: sys_inv_def)
next
  case (ask_wait s l)
  with assms(2) show ?thesis by (simp add: sys_inv_def)
next
  case (wake s l)
  with assms(2) show ?thesis by (simp add: sys_inv_def)
qed

lemma reachable_inv:
  assumes "dense_layout file cfg" "base \<noteq> Null" "reachable cfg file base ms"
  shows "sys_inv cfg file base ms"
proof -
  from assms(3) obtain s0 where "initial base s0" "(sys_step cfg file)\<^sup>*\<^sup>* (Free, s0) ms" by (auto simp: reachable_def)
  from this(2) show ?thesis
    by induction (use initial_inv [OF \<open>initial base s0\<close> assms(2)] step_inv [OF assms(1)] in blast)+
qed

section \<open>Progress\<close>

text \<open>The number of worker steps a state still holds.\<close>

fun worker_weight :: "worker \<Rightarrow> nat" where
  "worker_weight Idle = 0"
| "worker_weight (Notify l) = 1"
| "worker_weight (Reading t rs tot st) = length rs + 2"

definition pool_work :: "io_pool \<Rightarrow> nat" where
  "pool_work p = sum_list (map (\<lambda>t. length (it_regions t) + 3) (iop_queue p)) + sum_list (map worker_weight (iop_workers p))"

definition work_left :: "prefetch_state \<Rightarrow> nat" where
  "work_left s = (case ps_io_pool s of None \<Rightarrow> 0 | Some p \<Rightarrow> pool_work p)"

lemma pool_work_update:
  assumes "i < length (iop_workers p)"
  shows "pool_work (update_worker i w p) + worker_weight (iop_workers p ! i) = pool_work p + worker_weight w"
proof -
  obtain us x vs where e: "iop_workers p = us @ x # vs" "iop_workers p ! i = x" "(iop_workers p)[i := w] = us @ w # vs"
    using split_at [OF assms] by metis
  show ?thesis unfolding pool_work_def update_worker_def e(2) by (simp add: e(3)) (simp add: e(1))
qed

lemma pool_work_more [simp]: "pool_work (p\<lparr>iop_bytes_loaded := a, iop_load_time_ns := b\<rparr>) = pool_work p"
  by (simp add: pool_work_def)

lemma worker_step_work:
  assumes "worker_step file s s'"
  shows "work_left s' < work_left s"
  using assms
proof cases
  case (take i)
  then obtain p t ts where p: "ps_io_pool s = Some p" "i < length (iop_workers p)" "iop_workers p ! i = Idle" "iop_queue p = t # ts"
    "ps_io_pool s' = Some (update_worker i (Reading t (it_regions t) 0 (ps_now s)) (p\<lparr>iop_queue := ts\<rparr>))"
    by (auto simp: worker_take_def split: option.splits if_splits list.splits)
  then show ?thesis
    using pool_work_update [of i "p\<lparr>iop_queue := ts\<rparr>" "Reading t (it_regions t) 0 (ps_now s)"]
    by (simp add: work_left_def pool_work_def)
next
  case (read pread i)
  then obtain p t r rs tot st where p: "ps_io_pool s = Some p" "i < length (iop_workers p)" "iop_workers p ! i = Reading t (r # rs) tot st"
    "ps_io_pool s' = Some (update_worker i (Reading t rs (tot + fst (snd r)) st) p)"
    by (auto simp: worker_read_def split: option.splits if_splits list.splits worker.splits)
  then show ?thesis using pool_work_update [OF p(2), of "Reading t rs (tot + fst (snd r)) st"] by (simp add: work_left_def)
next
  case (finish i)
  then obtain p t tot st where p: "ps_io_pool s = Some p" "i < length (iop_workers p)" "iop_workers p ! i = Reading t [] tot st"
    by (auto simp: worker_done_def split: option.splits if_splits list.splits worker.splits)
  from finish p obtain w a b where w: "ps_io_pool s' = Some ((update_worker i w p)\<lparr>iop_bytes_loaded := a, iop_load_time_ns := b\<rparr>)"
    "w = Idle \<or> (\<exists>l. w = Notify l)"
    by (auto simp: worker_done_def Let_def)
  have "worker_weight w \<le> 1" using w(2) by auto
  then show ?thesis using pool_work_update [OF p(2), of w] by (simp add: work_left_def w(1) p(1,3))
next
  case (notify i)
  then obtain p l where p: "ps_io_pool s = Some p" "i < length (iop_workers p)" "iop_workers p ! i = Notify l"
    "ps_io_pool s' = Some (update_worker i Idle p)"
    by (auto simp: worker_notify_def set_status_def split: option.splits if_splits worker.splits)
  then show ?thesis using pool_work_update [OF p(2), of Idle] by (simp add: work_left_def)
qed

lemma work_bound: "(worker_step file ^^ n) s s' \<Longrightarrow> n + work_left s' \<le> work_left s"
proof (induction n arbitrary: s')
  case (Suc n)
  then obtain t where "(worker_step file ^^ n) s t" "worker_step file t s'" by auto
  with Suc.IH [of t] worker_step_work [OF \<open>worker_step file t s'\<close>] show ?case by simp
qed simp

lemma loading_can_step:
  assumes "proto_inv cfg file base s" "status_of s l = Some Loading"
  shows "\<exists>s'. worker_step file s s'"
proof -
  from assms(1) obtain p where p: "ps_io_pool s = Some p" "iop_workers p \<noteq> []"
    "tasks_ok cfg base (pending p) (ps_completions s)"
    "status_ok (status_of s) (ps_completions s) (notices p)" by (rule proto_invE)
  show ?thesis
  proof (cases "\<exists>i < length (iop_workers p). iop_workers p ! i \<noteq> Idle")
    case True
    then obtain i where i: "i < length (iop_workers p)" "iop_workers p ! i \<noteq> Idle" by blast
    show ?thesis
    proof (cases "iop_workers p ! i")
      case (Notify k)
      then have "worker_notify i s \<noteq> None" using i p(1) by (simp add: worker_notify_def)
      then show ?thesis by (auto intro: worker_step.notify)
    next
      case (Reading t rs tot st)
      show ?thesis
      proof (cases rs)
        case Nil
        then have "worker_done i s \<noteq> None" using i p(1) Reading by (simp add: worker_done_def Let_def)
        then show ?thesis by (auto intro: worker_step.finish)
      next
        case (Cons r rs')
        then have "worker_read (pread4 file) i s \<noteq> None" using i p(1) Reading by (simp add: worker_read_def)
        then show ?thesis by (auto intro: worker_step.read [OF reads_file_pread4])
      qed
    qed (use i in simp)
  next
    case False
    then have idle: "\<forall>w \<in> set (iop_workers p). w = Idle" by (auto simp: in_set_conv_nth)
    then have none: "concat (map worker_pending (iop_workers p)) = []" "notices p l = 0"
      by (auto simp: notices_def count_list_0_iff)
    with status_okD [OF p(4), of l] assms(2) have "0 < open_loads (ps_completions s) l" by simp
    then have "filter (\<lambda>c. ic_layer_idx c = l \<and> 0 < ic_remaining c) (ps_completions s) \<noteq> []" by (auto simp: open_loads_def)
    then obtain c where "c \<in> set (ps_completions s)" "0 < ic_remaining c" by (auto simp: filter_empty_conv)
    then obtain k where "k < length (ps_completions s)" "0 < ic_remaining (ps_completions s ! k)" by (auto simp: in_set_conv_nth)
    with p(3) have "0 < size {#x \<in># pending p. fst x = k#}" by (simp add: tasks_ok_def)
    then have "pending p \<noteq> {#}" by auto
    then obtain t ts where "iop_queue p = t # ts" using none(1) by (cases "iop_queue p") (auto simp: pending_def)
    then have "worker_take 0 s \<noteq> None" using p(1,2) idle by (simp add: worker_take_def)
    then show ?thesis by (auto intro: worker_step.take)
  qed
qed

lemma worker_run_inv:
  assumes "dense_layout file cfg" "(worker_step file ^^ n) s s'" "sys_inv cfg file base (m, s)"
  shows "sys_inv cfg file base (m, s')"
  using assms(2)
proof (induction n arbitrary: s')
  case 0
  with assms(3) show ?case by simp
next
  case (Suc n)
  then obtain t where "sys_inv cfg file base (m, t)" "worker_step file t s'" by auto
  then show ?case using step_inv [OF assms(1)] sys_step.work by blast
qed

section \<open>A scheduler\<close>

text \<open>One worker running until it has nothing left to do, for concrete runs.\<close>

definition worker_next :: "pread \<Rightarrow> nat \<Rightarrow> prefetch_state \<Rightarrow> prefetch_state option" where
  "worker_next pread i s = (case worker_take i s of Some s' \<Rightarrow> Some s'
     | None \<Rightarrow> (case worker_read pread i s of Some s' \<Rightarrow> Some s'
     | None \<Rightarrow> (case worker_done i s of Some s' \<Rightarrow> Some s' | None \<Rightarrow> worker_notify i s)))"

fun run_worker :: "pread \<Rightarrow> nat \<Rightarrow> nat \<Rightarrow> prefetch_state \<Rightarrow> prefetch_state" where
  "run_worker pread i 0 s = s"
| "run_worker pread i (Suc n) s = (case worker_next pread i s of None \<Rightarrow> s | Some s' \<Rightarrow> run_worker pread i n s')"

lemma worker_next_step: "reads_file file pread \<Longrightarrow> worker_next pread i s = Some s' \<Longrightarrow> worker_step file s s'"
  by (auto simp: worker_next_def intro: worker_step.intros split: option.splits)

lemma run_worker_steps: "reads_file file pread \<Longrightarrow> (worker_step file)\<^sup>*\<^sup>* s (run_worker pread i n s)"
proof (induction n arbitrary: s)
  case (Suc n)
  show ?case
  proof (cases "worker_next pread i s")
    case (Some t)
    then have "worker_step file s t" using worker_next_step [OF Suc.prems] by blast
    with Suc.IH [OF Suc.prems, of t] Some show ?thesis by (simp add: converse_rtranclp_into_rtranclp)
  qed simp
qed simp

end
