(* ===== verification/Loading_Correct.thy ===== *)
theory Loading_Correct
  imports Layer_Protocol
begin

text \<open>
  The properties of the layer protocol, a concrete run of it, and two behaviours of the
  loader that the code does not guard against: a read error, and a missing buffer.
\<close>

section \<open>The blocking loader runs the protocol\<close>

text \<open>What may happen while the inference thread sleeps: workers work, time passes.\<close>

definition background :: "u8 list \<Rightarrow> prefetch_state \<Rightarrow> prefetch_state \<Rightarrow> bool" where
  "background file s s' \<longleftrightarrow> worker_step file s s' \<or> (\<exists>tr t. s' = s\<lparr>ps_trace := tr, ps_now := t\<rparr>)"

definition env_ok :: "u8 list \<Rightarrow> env \<Rightarrow> bool" where
  "env_ok file env \<longleftrightarrow> (\<forall>s. (background file)\<^sup>*\<^sup>* s (env s))"

lemma background_sys: "(background file)\<^sup>*\<^sup>* s s' \<Longrightarrow> (sys_step cfg file)\<^sup>*\<^sup>* (m, s) (m, s')"
proof (induction rule: rtranclp_induct)
  case (step t u)
  then have "sys_step cfg file (m, t) (m, u)" by (auto simp: background_def intro: sys_step.work sys_step.observe)
  with step.IH show ?case by (rule rtranclp.rtrancl_into_rtrancl)
qed simp

lemma trace_step: "sys_step cfg file (m, s) (m, trace_if b ev s)"
proof -
  have "trace_if b ev s = s\<lparr>ps_trace := ps_trace (trace_if b ev s), ps_now := ps_now s\<rparr>"
    by (simp add: trace_if_def trace_record_def)
  then show ?thesis by (metis sys_step.observe)
qed

lemma wait_loaded_reaches:
  assumes "wait_loaded env l s = Some s'" "env_ok file env"
  shows "(background file)\<^sup>*\<^sup>* s s' \<and> status_of s' l = Some Loaded"
proof -
  have "env_ok file env \<longrightarrow> (background file)\<^sup>*\<^sup>* s s' \<and> status_of s' l = Some Loaded"
  proof (rule wait_loaded.raw_induct [OF _ assms(1), where P = "\<lambda>env l s s'. env_ok file env \<longrightarrow>
      (background file)\<^sup>*\<^sup>* s s' \<and> status_of s' l = Some Loaded"])
    fix rec :: "env \<Rightarrow> u32 \<Rightarrow> prefetch_state \<Rightarrow> prefetch_state option" and env :: env and l s s'
    assume IH: "\<And>env l s s'. rec env l s = Some s' \<Longrightarrow> env_ok file env \<longrightarrow> (background file)\<^sup>*\<^sup>* s s' \<and> status_of s' l = Some Loaded"
      and body: "(if status_of s l = Some Loaded then Some s else rec env l (env s)) = Some s'"
    show "env_ok file env \<longrightarrow> (background file)\<^sup>*\<^sup>* s s' \<and> status_of s' l = Some Loaded"
      using body IH [of env l "env s" s'] by (auto simp: env_ok_def split: if_splits intro: rtranclp_trans)
  qed
  with assms(2) show ?thesis by blast
qed

lemma ensure_reaches:
  assumes "ensure_layer_loaded cfg env l s = Some s'" "env_ok file env"
  shows "(sys_step cfg file)\<^sup>*\<^sup>* (Free, s) (Computing l, s')"
proof -
  let ?P = "\<lambda>cfg env l s s'. env_ok file env \<longrightarrow> (sys_step cfg file)\<^sup>*\<^sup>* (Free, s) (Computing l, s')"
  have "?P cfg env l s s'"
  proof (rule ensure_layer_loaded.raw_induct [OF _ assms(1), where P = ?P])
    fix rec :: "prefetch_config \<Rightarrow> env \<Rightarrow> u32 \<Rightarrow> prefetch_state \<Rightarrow> prefetch_state option"
      and cfg and env :: env and l s s'
    assume IH: "\<And>cfg env l s s'. rec cfg env l s = Some s' \<Longrightarrow> ?P cfg env l s s'"
      and body: "(let tracing = ps_trace_enabled s
        in if status_of s l = Some Loaded then Some (trace_if tracing (LayerHit l) s)
           else if status_of s l = Some Loading
           then (let s' = env s
                 in rec cfg env l
                      (trace_if (tracing \<and> status_of s' l = Some Loaded) (LayerStall l (elapsed_ms (ps_now s) s')) s'))
           else Option.bind (wait_loaded env l (submit_layer_load cfg l (set_status l Loading s))) (\<lambda>s'.
                  Some (trace_if tracing (LayerStall l (elapsed_ms (ps_now s) s')) s'))) = Some s'"
    show "?P cfg env l s s'"
    proof
      assume env: "env_ok file env"
      consider (hit) "status_of s l = Some Loaded" | (wait) "status_of s l = Some Loading"
        | (submit) "status_of s l \<noteq> Some Loaded" "status_of s l \<noteq> Some Loading" by blast
      then show "(sys_step cfg file)\<^sup>*\<^sup>* (Free, s) (Computing l, s')"
      proof cases
        case hit
        then have "s' = trace_if (ps_trace_enabled s) (LayerHit l) s" using body by (simp add: Let_def)
        with sys_step.ask_hit [OF hit] trace_step show ?thesis by (metis rtranclp.simps)
      next
        case wait
        let ?t = "trace_if (ps_trace_enabled s \<and> status_of (env s) l = Some Loaded) (LayerStall l (elapsed_ms (ps_now s) (env s))) (env s)"
        have "rec cfg env l ?t = Some s'" using body wait by (simp add: Let_def)
        then have "(sys_step cfg file)\<^sup>*\<^sup>* (Free, ?t) (Computing l, s')" using IH env by blast
        moreover have "(sys_step cfg file)\<^sup>*\<^sup>* (Free, s) (Free, env s)" using env background_sys by (simp add: env_ok_def)
        ultimately show ?thesis using trace_step [of cfg _ Free "env s"] by (meson converse_rtranclp_into_rtranclp rtranclp_trans)
      next
        case submit
        let ?s = "submit_layer_load cfg l (set_status l Loading s)"
        obtain u where u: "wait_loaded env l ?s = Some u"
          "s' = trace_if (ps_trace_enabled s) (LayerStall l (elapsed_ms (ps_now s) u)) u"
          using body submit by (auto simp: Let_def bind_eq_Some_conv)
        from wait_loaded_reaches [OF u(1) env] have w: "(sys_step cfg file)\<^sup>*\<^sup>* (Waiting l, ?s) (Waiting l, u)"
          "status_of u l = Some Loaded" using background_sys by blast+
        from sys_step.ask_submit [OF submit] w(1) have "(sys_step cfg file)\<^sup>*\<^sup>* (Free, s) (Waiting l, u)"
          by (rule converse_rtranclp_into_rtranclp)
        with sys_step.wake [OF w(2)] trace_step u(2) show ?thesis by (metis rtranclp.rtrancl_into_rtrancl)
      qed
    qed
  qed
  with assms(2) show ?thesis by blast
qed

section \<open>A concrete model\<close>

definition demo_file :: "u8 list" where
  "demo_file = [1, 2, 3, 4, 5, 6, 7, 8]"

definition demo_cfg :: prefetch_config where
  "demo_cfg = \<lparr>pc_tensor_map = [], pc_layer_regions = [(0, [(0, 2, 1), (2, 3, 4)]), (1, [(8, 1, 0)])], pc_num_layers = 2,
     pc_nvme_layers = [0, 1], pc_sorted_nvme_layers = [0, 1], pc_expert_layouts = [], pc_non_expert_regions = [],
     pc_num_experts_used = 0, pc_num_experts_total = 0, pc_dense_ffn_layouts = [], pc_dense_ffn_lookahead = 3,
     pc_fused_tensor_ptrs = [], pc_resident_ffn_layers = [], pc_resident_ffn_base = Null, pc_resident_ffn_offsets = []\<rparr>"

definition demo_state :: prefetch_state where
  "demo_state = \<lparr>ps_current_layer = -1, ps_buffer_base = Ptr 0 100,
     ps_layer_status = [(0, NotLoaded), (1, NotLoaded)], ps_prefetch_enabled = True,
     ps_io_pool = Some \<lparr>iop_queue = [], iop_workers = [Idle, Idle], iop_bytes_loaded = 0, iop_load_time_ns = 0\<rparr>,
     ps_keep_nvme_resident = False, ps_selected_experts = [], ps_neuron_cache = nc_new 16,
     ps_co_activation = ca_new 2 1, ps_prev_layer_experts = None, ps_expert_streaming = False,
     ps_dense_ffn_streaming = False, ps_expert_pool = None, ps_pool_base = Null, ps_trace_enabled = False,
     ps_trace = [], ps_completions = [], ps_tensor_data = [], ps_mem = (\<lambda>_. None), ps_now = 0\<rparr>"

definition demo_env :: env where
  "demo_env = run_worker (pread4 demo_file) 0 20"

lemma demo_layout: "dense_layout demo_file demo_cfg"
  by (simp add: dense_layout_def demo_cfg_def demo_file_def in_file_def)

lemma demo_initial: "initial (Ptr 0 100) demo_state"
  by (simp add: initial_def demo_state_def)

lemma demo_reach: "reachable demo_cfg demo_file (Ptr 0 100) (Free, demo_state)"
  using demo_initial by (auto simp: reachable_def)

lemma run_worker_ok: "env_ok file (run_worker (pread4 file) i n)"
proof -
  have "(background file)\<^sup>*\<^sup>* s (run_worker (pread4 file) i n s)" for s
    using run_worker_steps [OF reads_file_pread4] by (rule rtranclp_mono [THEN predicate2D, rotated]) (auto simp: background_def)
  then show ?thesis by (simp add: env_ok_def)
qed

lemma demo_env_ok: "env_ok demo_file demo_env"
  unfolding demo_env_def by (rule run_worker_ok)

declare wait_loaded.simps [code] ensure_layer_loaded.simps [code]

lemma demo_ensure: "\<exists>s. ensure_layer_loaded demo_cfg demo_env 0 demo_state = Some s"
proof -
  have "(case ensure_layer_loaded demo_cfg demo_env 0 demo_state of None \<Rightarrow> False | Some s \<Rightarrow> status_of s 0 = Some Loaded)"
    by code_simp
  then show ?thesis by (auto split: option.splits)
qed

section \<open>Properties\<close>





text \<open>C3. A thread that waits for a layer is always woken: from any reachable waiting state the
  workers can take at most \<open>work_left\<close> steps, whatever the scheduling, and as long as the
  layer is not loaded some worker can take one; so every schedule that lets the workers run
  ends with the layer loaded.\<close>

theorem waiting_thread_is_woken:
  assumes "dense_layout file cfg" "base \<noteq> Null" "reachable cfg file base (Waiting l, s)"
    "(worker_step file ^^ n) s s'"
  shows "n \<le> work_left s \<and> (status_of s' l = Some Loaded \<or> (\<exists>s''. worker_step file s' s''))"
proof -
  from worker_run_inv [OF assms(1,4) reachable_inv [OF assms(1-3)]]
  have "proto_inv cfg file base s'" "status_of s' l = Some Loaded \<or> status_of s' l = Some Loading"
    by (simp_all add: sys_inv_def)
  with loading_can_step work_bound [OF assms(4)] show ?thesis by fastforce
qed

theorem waiting_thread_is_woken_witness:
  "\<exists>s s'. reachable demo_cfg demo_file (Ptr 0 100) (Waiting 0, s) \<and> worker_take 1 s = Some s' \<and> 1 \<le> work_left s \<and>
     (status_of s' 0 = Some Loaded \<or> (\<exists>s''. worker_step demo_file s' s''))"
proof -
  let ?s = "submit_layer_load demo_cfg 0 (set_status 0 Loading demo_state)"
  have "sys_step demo_cfg demo_file (Free, demo_state) (Waiting 0, ?s)"
    by (rule sys_step.ask_submit) (simp_all add: demo_state_def)
  then have r: "reachable demo_cfg demo_file (Ptr 0 100) (Waiting 0, ?s)" using demo_initial by (auto simp: reachable_def)
  have "(case worker_take 1 ?s of None \<Rightarrow> False | Some _ \<Rightarrow> True)" by code_simp
  then obtain s' where s': "worker_take 1 ?s = Some s'" by (auto split: option.splits)
  then have "(worker_step demo_file ^^ 1) ?s s'" by (auto intro: worker_step.take)
  from waiting_thread_is_woken [OF demo_layout _ r this] r s' show ?thesis by blast
qed

text \<open>A failed read goes unnoticed: when every \<open>pread\<close> of the model file fails, the workers
  still publish the layer, \<open>ensure_layer_loaded\<close> still returns, and the layer is marked
  \<open>Loaded\<close> although its bytes were never read.\<close>

theorem read_error_marks_loaded:
  "\<exists>s. ensure_layer_loaded demo_cfg (run_worker (\<lambda>_ _. None) 0 20) 0 demo_state = Some s \<and>
     status_of s 0 = Some Loaded \<and> \<not> holds demo_file (ps_mem s) (Ptr 0 100) (0, 2, 1)"
proof -
  have "(case ensure_layer_loaded demo_cfg (run_worker (\<lambda>_ _. None) 0 20) 0 demo_state of None \<Rightarrow> False
     | Some s \<Rightarrow> status_of s 0 = Some Loaded \<and> \<not> holds demo_file (ps_mem s) (Ptr 0 100) (0, 2, 1))"
    by code_simp
  then show ?thesis by (auto split: option.splits)
qed

lemma wait_forever:
  assumes "wait_loaded env l s = Some s'" "\<And>s. ps_layer_status (env s) = ps_layer_status s"
  shows "status_of s l = Some Loaded"
proof -
  let ?P = "\<lambda>env l s s'. (\<forall>s. ps_layer_status (env s) = ps_layer_status s) \<longrightarrow> status_of s l = Some Loaded"
  have "?P env l s s'"
  proof (rule wait_loaded.raw_induct [OF _ assms(1), where P = ?P])
    fix rec :: "env \<Rightarrow> u32 \<Rightarrow> prefetch_state \<Rightarrow> prefetch_state option" and env :: env and l s s'
    assume "\<And>env l s s'. rec env l s = Some s' \<Longrightarrow> ?P env l s s'"
      and "(if status_of s l = Some Loaded then Some s else rec env l (env s)) = Some s'"
    then show "?P env l s s'" by (metis (mono_tags, lifting))
  qed
  with assms(2) show ?thesis by blast
qed

text \<open>Without a buffer the loader hangs: when the buffer base is null, \<open>submit_layer_load\<close>
  returns without queueing anything or resetting the status, so \<open>ensure_layer_loaded\<close> on a
  layer that is not loaded never returns (nothing else publishes the layer meanwhile).\<close>

theorem null_base_hangs:
  assumes "ps_buffer_base s = Null" "status_of s l \<notin> {Some Loaded, Some Loading}"
    "\<And>s. ps_layer_status (env s) = ps_layer_status s"
  shows "ensure_layer_loaded cfg env l s = None"
proof -
  let ?s = "submit_layer_load cfg l (set_status l Loading s)"
  have "status_of ?s l = Some Loading" using assms(1) by (simp add: submit_layer_load_def set_status_def)
  then have "wait_loaded env l ?s = None" using wait_forever [OF _ assms(3)] by (cases "wait_loaded env l ?s") fastforce+
  then show ?thesis using assms(2) by (subst ensure_layer_loaded.simps) (simp add: Let_def)
qed

theorem null_base_hangs_witness:
  "ensure_layer_loaded demo_cfg id 0 (demo_state\<lparr>ps_buffer_base := Null\<rparr>) = None"
  by (rule null_base_hangs) (simp_all add: demo_state_def)

end
