(* ===== verification/Streaming_Modes.thy ===== *)
theory Streaming_Modes
  imports Loading_Correct
begin

text \<open>
  Properties of the loaders below the level of a layer: what is queued when experts are
  requested, proved through the contract of the slice cache, and concrete runs in which the
  slot pool and the slice cache report data as present that is not.
\<close>

section \<open>Requests for experts\<close>

text \<open>The keys of one tensor: the wanted experts that exist in it.\<close>

abbreviation tensor_keys :: "u32 \<Rightarrow> u32 list \<Rightarrow> expert_layout \<Rightarrow> cache_key list" where
  "tensor_keys l es el \<equiv> map (\<lambda>e. (l, e, layout_type el)) (filter (\<lambda>e. e < el_num_experts el) es)"

lemma missing_experts_fst:
  "fst (missing_experts l es el c) = map (\<lambda>(_, e, _). e) (fst (miss_loop is_loaded mark_loaded c (tensor_keys l es el)))"
  by (simp add: missing_experts_def split: prod.splits)

lemma missing_experts_snd:
  "snd (missing_experts l es el c) = snd (miss_loop is_loaded mark_loaded c (tensor_keys l es el))"
  by (simp add: missing_experts_def split: prod.splits)

lemma missing_experts_inv: "nc_inv c \<Longrightarrow> nc_inv (snd (missing_experts l es el c))"
  unfolding missing_experts_snd by (rule nc.miss_loop_inv)

lemma missing_experts_covers:
  assumes "nc_inv c" "e \<in> set es" "e < el_num_experts el"
  shows "nc_loaded c (l, e, layout_type el) \<or> e \<in> set (fst (missing_experts l es el c))"
proof -
  have "(l, e, layout_type el) \<in> set (tensor_keys l es el)" using assms(2,3) by auto
  from nc.miss_loop_covers [OF assms(1) this] show ?thesis unfolding missing_experts_fst by force
qed

lemma missing_experts_wanted: "set (fst (missing_experts l es el c)) \<subseteq> {e \<in> set es. e < el_num_experts el}"
  using nc.miss_loop_only_wanted [of c "tensor_keys l es el"] unfolding missing_experts_fst by fastforce

text \<open>Loading the experts of one tensor makes no key of another type loaded.\<close>

lemma miss_loop_other:
  "nc_inv c \<Longrightarrow> k \<notin> set ks \<Longrightarrow> nc_loaded (snd (miss_loop is_loaded mark_loaded c ks)) k \<Longrightarrow> nc_loaded c k"
proof (induction ks arbitrary: c)
  case (Cons x ks)
  let ?c1 = "snd (is_loaded c x)" and ?c2 = "snd (mark_loaded (snd (is_loaded c x)) x)"
  have i: "nc_inv ?c1" "nc_inv ?c2" using nc.probe_inv nc.mark_inv Cons.prems(1) by blast+
  show ?case
  proof (cases "fst (is_loaded c x)")
    case True
    with Cons.IH [OF i(1)] Cons.prems nc.probe_loaded [OF Cons.prems(1)] show ?thesis by (auto simp: case_prod_unfold)
  next
    case False
    with Cons.IH [OF i(2)] Cons.prems have "nc_loaded ?c2 k" by (auto simp: case_prod_unfold)
    with nc.mark_loaded [OF i(1)] Cons.prems(2) nc.probe_loaded [OF Cons.prems(1)] show ?thesis by auto
  qed
qed simp

lemma missing_experts_other:
  assumes "nc_inv c" "t \<noteq> layout_type el" "nc_loaded (snd (missing_experts l es el c)) (l, e, t)"
  shows "nc_loaded c (l, e, t)"
proof -
  have "(l, e, t) \<notin> set (tensor_keys l es el)" using assms(2) by auto
  from miss_loop_other [OF assms(1) this] assms(3) show ?thesis by (simp add: missing_experts_snd)
qed

text \<open>The regions read for a list of tensors.\<close>

lemma expert_tasks_covers:
  assumes "nc_inv c" "distinct (map layout_type els)" "el \<in> set els" "e \<in> set es" "e < el_num_experts el"
    "\<not> nc_loaded c (l, e, layout_type el)"
  shows "layout_region el e \<in> set (concat (fst (expert_tasks l es els c)))"
  using assms
proof (induction els arbitrary: c)
  case (Cons x els)
  let ?c1 = "snd (missing_experts l es x c)"
  show ?case
  proof (cases "el = x")
    case True
    with missing_experts_covers [OF Cons.prems(1,4,5)] Cons.prems(6)
    have "e \<in> set (fst (missing_experts l es x c))" by blast
    with True show ?thesis by (auto simp: case_prod_unfold)
  next
    case False
    then have "el \<in> set els" using Cons.prems(3) by simp
    moreover from this have "layout_type el \<noteq> layout_type x" using Cons.prems(2) by (metis distinct.simps(2) image_eqI list.set_map list.simps(9))
    then have "\<not> nc_loaded ?c1 (l, e, layout_type el)" using missing_experts_other [OF Cons.prems(1)] Cons.prems(6) by blast
    ultimately have "layout_region el e \<in> set (concat (fst (expert_tasks l es els ?c1)))"
      using Cons.IH [OF missing_experts_inv [OF Cons.prems(1)]] Cons.prems(2,4,5) by simp
    then show ?thesis by (auto simp: case_prod_unfold)
  qed
qed simp

lemma expert_tasks_wanted:
  "r \<in> set (concat (fst (expert_tasks l es els c))) \<Longrightarrow> \<exists>el \<in> set els. \<exists>e \<in> set es. e < el_num_experts el \<and> r = layout_region el e"
proof (induction els arbitrary: c)
  case (Cons x els)
  from Cons.prems consider e where "e \<in> set (fst (missing_experts l es x c))" "r = layout_region x e"
    | "r \<in> set (concat (fst (expert_tasks l es els (snd (missing_experts l es x c)))))"
    by (auto simp: case_prod_unfold split: if_splits)
  then show ?case
  proof cases
    case 1
    with missing_experts_wanted [of l es x c] show ?thesis by auto
  next
    case 2
    from Cons.IH [OF this] show ?thesis by auto
  qed
qed simp

lemma expert_tasks_inv: "nc_inv c \<Longrightarrow> nc_inv (snd (expert_tasks l es els c))"
proof (induction els arbitrary: c)
  case (Cons x els)
  from Cons.IH [OF missing_experts_inv [OF Cons.prems]] show ?case by (simp add: case_prod_unfold)
qed simp

text \<open>Reading the right bytes: the regions of distinct experts of a well-formed tensor are
  apart in the buffer, and lie inside the tensor's part of it.\<close>

lemma layout_region_in_tensor:
  assumes "layout_wf el" "e < el_num_experts el"
  shows "unat (el_buffer_offset el) \<le> unat (fst (layout_region el e)) \<and>
    unat (fst (layout_region el e)) + unat (el_expert_stride el) \<le> unat (el_buffer_offset el) + unat (el_total_size el) \<and>
    unat (snd (snd (layout_region el e))) + unat (el_expert_stride el) \<le> unat (el_file_offset el) + unat (el_total_size el)"
proof -
  have "unat (map_expert_id el e) * unat (el_expert_stride el) + unat (el_expert_stride el) \<le> unat (el_total_size el)"
    using stride_end [OF map_expert_id_less [OF assms]] assms(1) by (simp add: layout_wf_def)
  then show ?thesis
    using expert_buffer_offset_exact [OF assms] expert_file_offset_exact [OF assms] by (simp add: layout_region_def)
qed

lemma layout_regions_apart:
  assumes "layout_wf el" "e < el_num_experts el" "e' < el_num_experts el" "e \<noteq> e'"
  shows "apart (layout_region el e) (layout_region el e')"
proof -
  let ?i = "unat (map_expert_id el e)" and ?j = "unat (map_expert_id el e')" and ?s = "unat (el_expert_stride el)"
  have ne: "?i \<noteq> ?j" using map_expert_id_inj [OF assms] .
  have le: "x * ?s + ?s \<le> y * ?s" if "x < y" for x y :: nat
    using that mult_le_mono1 [of "Suc x" y ?s] by simp
  from ne consider "?i < ?j" | "?j < ?i" by linarith
  then show ?thesis
    using expert_buffer_offset_exact [OF assms(1,2)] expert_buffer_offset_exact [OF assms(1,3)] le
    by cases (auto simp: layout_region_def)
qed

section \<open>Properties\<close>


definition demo_gate :: expert_layout where
  "demo_gate = \<lparr>el_tensor_name = ''blk.0.ffn_gate_exps.weight'', el_layer_index = 0, el_num_experts = 2, el_expert_stride = 4,
     el_file_offset = 0, el_buffer_offset = 0, el_total_size = 8, el_expert_permutation = None\<rparr>"

definition demo_up :: expert_layout where
  "demo_up = demo_gate\<lparr>el_tensor_name := ''blk.0.ffn_up_exps.weight'', el_file_offset := 8, el_buffer_offset := 8\<rparr>"

lemma demo_types: "layout_type demo_gate = Gate" "layout_type demo_up = Up"
  unfolding demo_up_def demo_gate_def by code_simp+


section \<open>What the loaders do not guard against\<close>

text \<open>Tensors of one kind share cache keys: with a weight and a bias tensor of the same
  projection, the slice of the second is never read.\<close>

definition demo_bias :: expert_layout where
  "demo_bias = demo_gate\<lparr>el_tensor_name := ''blk.0.ffn_gate_exps.bias'', el_file_offset := 8, el_buffer_offset := 8\<rparr>"

lemma same_kind_collides:
  "fst (expert_tasks 0 [1] [demo_gate, demo_bias] (nc_new 16)) = [[layout_region demo_gate 1]]"
proof -
  have "fst (expert_tasks 0 [1] [demo_gate, demo_bias] (nc_new 16)) = [[(4, 4, 4)]]"
    unfolding demo_gate_def demo_bias_def by code_simp
  then show ?thesis by (simp add: layout_region_def demo_gate_def expert_buffer_offset_def expert_file_offset_def map_expert_id_def)
qed

text \<open>A model with one mixture layer in the loading buffer.\<close>

definition moe_cfg :: prefetch_config where
  "moe_cfg = demo_cfg\<lparr>pc_layer_regions := [(0, [(0, 8, 0)])], pc_expert_layouts := [(0, [demo_gate])],
     pc_num_experts_used := 1, pc_num_experts_total := 2\<rparr>"

text \<open>The slice cache is marked when a read is queued, not when it is done: after a speculative
  prefetch of an expert, \<open>ensure_experts_loaded\<close> for it returns at once, without a worker
  having read a byte.\<close>

theorem speculative_prefetch_race:
  "\<exists>s. ensure_experts_loaded moe_cfg env 0 [1] (request_prefetch moe_cfg (ExpertSlices 0 [1]) demo_state) = Ret (Some s) \<and>
     \<not> holds demo_file (ps_mem s) (ps_buffer_base s) (layout_region demo_gate 1)"
proof -
  let ?s = "request_prefetch moe_cfg (ExpertSlices 0 [1]) demo_state"
  have l: "hm_get (pc_expert_layouts moe_cfg) 0 = Some [demo_gate]" by (simp add: moe_cfg_def)
  have "fst (any_missing (wanted_keys 0 [1] [demo_gate]) (ps_neuron_cache ?s)) = False \<and> ps_expert_pool ?s = None \<and>
      ps_trace_enabled ?s = False \<and> ps_buffer_base ?s = Ptr 0 100 \<and> ps_mem ?s (0, 104) = None"
    unfolding moe_cfg_def demo_gate_def demo_state_def demo_cfg_def by code_simp
  then have f: "fst (any_missing (wanted_keys 0 [1] [demo_gate]) (ps_neuron_cache ?s)) = False"
    and p: "ps_expert_pool ?s = None" "ps_trace_enabled ?s = False" "ps_buffer_base ?s = Ptr 0 100" "ps_mem ?s (0, 104) = None"
    by blast+
  obtain b c where "any_missing (wanted_keys 0 [1] [demo_gate]) (ps_neuron_cache ?s) = (b, c)" by fastforce
  with f have m: "any_missing (wanted_keys 0 [1] [demo_gate]) (ps_neuron_cache ?s) = (False, c)" by simp
  have e: "ensure_experts_loaded moe_cfg env 0 [1] ?s = Ret (Some (?s\<lparr>ps_neuron_cache := c\<rparr>))"
    using l p by (simp add: ensure_experts_loaded_def m trace_if_def)
  have "layout_region demo_gate 1 = (4, 4, 4)"
    by (simp add: layout_region_def demo_gate_def expert_buffer_offset_def expert_file_offset_def map_expert_id_def)
  with p e show ?thesis by (auto simp: holds_def list_all_iff intro!: bexI [of _ 0])
qed

text \<open>A dense model of three layers with one one-byte FFN tensor each, and a pool with room for
  two layers (the planner accepts six slots for three tensors a layer).\<close>

definition ffn_layer :: "nat \<Rightarrow> dense_ffn_layout list" where
  "ffn_layer l = [\<lparr>df_tensor_name = [char_of (97 + l)], df_layer_index = of_nat l, df_file_offset = of_nat l, df_size = 1\<rparr>]"

definition ffn_cfg :: prefetch_config where
  "ffn_cfg = demo_cfg\<lparr>pc_num_layers := 3, pc_layer_regions := [], pc_dense_ffn_lookahead := 1,
     pc_dense_ffn_layouts := [(0, ffn_layer 0), (1, ffn_layer 1), (2, ffn_layer 2)],
     pc_fused_tensor_ptrs := [(''a'', Some 0), (''b'', Some 1), (''c'', Some 2)]\<rparr>"

definition ffn_state :: prefetch_state where
  "ffn_state = demo_state\<lparr>ps_dense_ffn_streaming := True, ps_pool_base := Ptr 7 0, ps_co_activation := ca_new 0 0,
     ps_expert_pool := Some \<lparr>ep_pool_size = 2, ep_slot_size = 1, ep_num_slots = 2, ep_layer_slots = [],
       ep_free_slots = [1, 0]\<rparr>, ps_layer_status := []\<rparr>"

text \<open>The byte a one-byte tensor would be computed with.\<close>

definition tensor_byte :: "nat \<Rightarrow> prefetch_state \<Rightarrow> u8 option" where
  "tensor_byte t s = (case hm_get (ps_tensor_data s) t of Some (Ptr b a) \<Rightarrow> ps_mem s (b, a) | _ \<Rightarrow> None)"

definition ffn_env :: env where
  "ffn_env = run_worker (pread4 [100, 101, 102]) 0 20"

text \<open>The start-up code prefetches the first layers.  The third evicts the first, whose status
  stays as it was; once the reads are done it is \<open>Loaded\<close>.  The callback before layer 0 then
  trusts the status, rewrites no pointer, and the tensor of layer 0, whose byte in the file is
  100, is computed with the byte of layer 2.\<close>

theorem evicted_layer_stays_loaded:
  "\<exists>s1 s2. prefetch_each ffn_cfg [0, 1, 2] ffn_state = Ret s1 \<and>
     eval_callback_dense_ffn_streaming ffn_cfg ffn_env 0 True (ffn_env s1) = Ret (Some s2) \<and>
     status_of s2 0 = Some Loaded \<and> tensor_byte 0 s2 = Some 102"
proof -
  have "(case prefetch_each ffn_cfg [0, 1, 2] ffn_state of Panic \<Rightarrow> False | Ret s1 \<Rightarrow>
      (case eval_callback_dense_ffn_streaming ffn_cfg ffn_env 0 True (ffn_env s1) of Ret (Some s2) \<Rightarrow>
          status_of s2 0 = Some Loaded \<and> tensor_byte 0 s2 = Some 102 | _ \<Rightarrow> False))"
    by code_simp
  then show ?thesis by (auto split: outcome.splits option.splits)
qed

end
