(* ===== verification/Dense_Window.thy ===== *)
theory Dense_Window
  imports Streaming_Modes
begin

text \<open>
  Dense FFN streaming keeps a window of layers in the slot pool.  The lemmas follow one pass
  over the layers through \<open>eval_callback_dense_ffn_streaming\<close> of
  \<open>src/compute/nvme_backend.rs\<close>: with room for the lookahead, nothing the pass still needs
  is evicted.  The last section shows what happens at the start of the next pass.
\<close>

section \<open>Pools that hold a window\<close>

definition streams :: "prefetch_config \<Rightarrow> u32 \<Rightarrow> bool" where
  "streams cfg k \<longleftrightarrow> k \<notin> set (pc_resident_ffn_layers cfg) \<and> unwrap_or (hm_get (pc_dense_ffn_layouts cfg) k) [] \<noteq> []"

definition ffn_tensors :: "prefetch_config \<Rightarrow> u32 \<Rightarrow> nat" where
  "ffn_tensors cfg k = length (unwrap_or (hm_get (pc_dense_ffn_layouts cfg) k) [])"

text \<open>A lookahead of at least one layer, at most three FFN tensors a layer, and a pool with room
  for the current layer and the lookahead.\<close>

definition dense_room :: "prefetch_config \<Rightarrow> nat \<Rightarrow> bool" where
  "dense_room cfg n \<longleftrightarrow> 1 \<le> unat (pc_dense_ffn_lookahead cfg) \<and> 3 * (unat (pc_dense_ffn_lookahead cfg) + 1) \<le> n \<and>
     unat (pc_num_layers cfg) + unat (pc_dense_ffn_lookahead cfg) < 2 ^ 31 \<and>
     list_all (\<lambda>(k, ls). length ls \<le> 3) (pc_dense_ffn_layouts cfg)"

definition window :: "prefetch_config \<Rightarrow> nat \<Rightarrow> nat set" where
  "window cfg c = {c..c + unat (pc_dense_ffn_lookahead cfg)}"

definition holds_window :: "prefetch_config \<Rightarrow> nat set \<Rightarrow> expert_pool \<Rightarrow> bool" where
  "holds_window cfg W p \<longleftrightarrow> pool_inv p \<and> (\<forall>k xs. pool_owned p k = Some xs \<longrightarrow>
     streams cfg k \<and> unat k \<in> W \<and> length xs = ffn_tensors cfg k)"

definition keeps :: "expert_pool \<Rightarrow> expert_pool \<Rightarrow> bool" where
  "keeps p q \<longleftrightarrow> (\<forall>k xs. pool_owned p k = Some xs \<longrightarrow> pool_owned q k = Some xs)"

lemma ffn_tensors_le: "dense_room cfg n \<Longrightarrow> ffn_tensors cfg k \<le> 3"
  by (cases "hm_get (pc_dense_ffn_layouts cfg) k") (auto simp: ffn_tensors_def dense_room_def list_all_iff dest!: map_of_SomeD)

lemma alloc_slots_free:
  "n \<le> length (ep_free_slots p) \<Longrightarrow>
   \<exists>p' slots'. alloc_slots n l p slots = Ret (p', slots') \<and> ep_layer_slots p' = ep_layer_slots p"
proof (induction n arbitrary: p slots)
  case (Suc n)
  then obtain x q where q: "pop_free p = Some (x, q)" by (cases "ep_free_slots p = []") (auto simp: pop_free_def)
  with Suc.prems pop_free_Some [OF q] Suc.IH [of q "slots @ [x]"] show ?case by auto
qed simp

lemma concat_short: "(\<And>e. e \<in> set m \<Longrightarrow> length (snd e) \<le> k) \<Longrightarrow> length (concat (map snd m)) \<le> k * length m"
  by (induction m) fastforce+

text \<open>The layers held leave room for one more layer of the window.\<close>

lemma slots_left:
  assumes "holds_window cfg (window cfg c) p" "dense_room cfg (ep_num_slots p)" "unat l \<in> window cfg c" "pool_owned p l = None"
  shows "3 \<le> length (ep_free_slots p)"
proof -
  let ?m = "ep_layer_slots p" and ?a = "unat (pc_dense_ffn_lookahead cfg)"
  have wf: "hm_wf ?m" and part: "pool_part p []" using assms(1) by (simp_all add: holds_window_def pool_inv_def)
  have "length (snd e) \<le> 3" if "e \<in> set ?m" for e
  proof -
    have "pool_owned p (fst e) = Some (snd e)" using that wf by (simp add: hm_wf_def)
    then show ?thesis using assms(1,2) ffn_tensors_le by (simp add: holds_window_def)
  qed
  then have "length (concat (map snd ?m)) \<le> 3 * length ?m" by (rule concat_short)
  moreover have "length ?m \<le> ?a"
  proof -
    have "unat ` set (hm_keys ?m) \<subseteq> window cfg c - {unat l}"
      using assms(1,4) by (auto simp: set_hm_keys holds_window_def simp flip: word_unat_eq_iff)
    then have "card (unat ` set (hm_keys ?m)) \<le> card (window cfg c - {unat l})"
      by (rule card_mono [rotated]) (simp add: window_def)
    also have "\<dots> = ?a" using assms(3) by (simp add: window_def)
    also have "card (unat ` set (hm_keys ?m)) = length ?m"
      using wf distinct_card [of "hm_keys ?m"] by (subst card_image) (simp_all add: inj_on_def hm_wf_def hm_keys_def flip: word_unat_eq_iff)
    finally show ?thesis .
  qed
  ultimately show ?thesis using pool_part_size [OF part] assms(2) by (simp add: dense_room_def)
qed

lemma allocate_in_window:
  assumes "holds_window cfg (window cfg c) p" "dense_room cfg (ep_num_slots p)" "unat l \<in> window cfg c" "streams cfg l"
  shows "\<exists>p' offs. allocate_layer l (ffn_tensors cfg l) p = Ret (p', offs) \<and> length offs = ffn_tensors cfg l \<and>
    holds_window cfg (window cfg c) p' \<and> keeps p p' \<and> ep_num_slots p' = ep_num_slots p \<and> pool_owned p' l \<noteq> None"
proof (cases "pool_owned p l")
  case (Some xs)
  then show ?thesis using assms(1) by (auto simp: allocate_layer_def holds_window_def keeps_def)
next
  case None
  have "ffn_tensors cfg l \<le> length (ep_free_slots p)"
    using slots_left [OF assms(1-3) None] ffn_tensors_le [OF assms(2), of l] by simp
  from alloc_slots_free [OF this] obtain q slots where q: "alloc_slots (ffn_tensors cfg l) l p [] = Ret (q, slots)"
    "ep_layer_slots q = ep_layer_slots p" by blast
  let ?p' = "q\<lparr>ep_layer_slots := hm_insert l slots (ep_layer_slots q)\<rparr>"
  have a: "allocate_layer l (ffn_tensors cfg l) p = Ret (?p', map (\<lambda>s. of_nat s * ep_slot_size p) slots)"
    using None q by (simp add: allocate_layer_def)
  have wf: "hm_wf (ep_layer_slots p)" using assms(1) by (simp add: holds_window_def pool_inv_def)
  note i = alloc_slots_inv [OF q(1) wf]
  have "pool_inv ?p'" using alloc_layer_inv [OF a] assms(1) by (simp add: holds_window_def)
  moreover have "streams cfg k \<and> unat k \<in> window cfg c \<and> length xs = ffn_tensors cfg k" if "pool_owned ?p' k = Some xs" for k xs
  proof (cases "k = l")
    case True
    with that assms(3,4) i show ?thesis by simp
  next
    case False
    with that q(2) have "pool_owned p k = Some xs" by simp
    with assms(1) show ?thesis by (simp add: holds_window_def)
  qed
  ultimately have "holds_window cfg (window cfg c) ?p'" by (simp add: holds_window_def)
  moreover have "keeps p ?p'" using None q(2) by (auto simp: keeps_def)
  moreover have "ep_num_slots ?p' = ep_num_slots p" "length slots = ffn_tensors cfg l" using i by (simp_all add: same_shape_def)
  ultimately show ?thesis using a by (intro exI [of _ ?p'] exI [of _ "map (\<lambda>s. of_nat s * ep_slot_size p) slots"]) simp
qed

section \<open>The operations of a pass\<close>

lemma point_to_slots_total: "length names \<le> length offs \<Longrightarrow> \<exists>d'. point_to_slots cfg base offs names d = Ret d'"
proof (induction names arbitrary: offs d)
  case (Cons n ns)
  then obtain x xs where "offs = x # xs" by (cases offs) auto
  with Cons show ?case by (auto split: option.splits)
qed simp

definition pool_of :: "prefetch_config \<Rightarrow> nat set \<Rightarrow> nat \<Rightarrow> expert_pool \<Rightarrow> prefetch_state \<Rightarrow> bool" where
  "pool_of cfg W n p s \<longleftrightarrow> ps_expert_pool s = Some p \<and> holds_window cfg W p \<and> ep_num_slots p = n"

text \<open>A layer is announced when its status says that it is coming or there, or when a worker still
  has to publish it.\<close>

definition announced :: "prefetch_state \<Rightarrow> u32 \<Rightarrow> bool" where
  "announced s k \<longleftrightarrow> status_of s k = Some Loading \<or> status_of s k = Some Loaded \<or>
     (\<exists>c \<in> set (ps_completions s). ic_layer_idx c = k) \<or>
     (\<exists>p. ps_io_pool s = Some p \<and> Notify k \<in> set (iop_workers p))"

definition tasks_valid :: "prefetch_state \<Rightarrow> bool" where
  "tasks_valid s \<longleftrightarrow> (\<forall>p. ps_io_pool s = Some p \<longrightarrow>
     (\<forall>t \<in> set (iop_queue p). it_completion t < length (ps_completions s)) \<and>
     (\<forall>t rs tot st. Reading t rs tot st \<in> set (iop_workers p) \<longrightarrow> it_completion t < length (ps_completions s)))"

text \<open>The invariant of a pass at \<open>low\<close>: the pool holds the window at \<open>c\<close>, and what is announced at
  or after \<open>low\<close> has its slots.\<close>

definition dense_ok :: "prefetch_config \<Rightarrow> nat \<Rightarrow> nat \<Rightarrow> nat \<Rightarrow> prefetch_state \<Rightarrow> bool" where
  "dense_ok cfg n c low s \<longleftrightarrow> tasks_valid s \<and> (\<exists>p. pool_of cfg (window cfg c) n p s \<and>
     (\<forall>k. low \<le> unat k \<and> streams cfg k \<and> announced s k \<longrightarrow> pool_owned p k \<noteq> None))"

definition slots_of :: "prefetch_state \<Rightarrow> u32 \<Rightarrow> nat list option" where
  "slots_of s k = (case ps_expert_pool s of None \<Rightarrow> None | Some p \<Rightarrow> pool_owned p k)"

definition kept :: "nat \<Rightarrow> prefetch_state \<Rightarrow> prefetch_state \<Rightarrow> bool" where
  "kept low s s' \<longleftrightarrow> (\<forall>k xs. low \<le> unat k \<and> slots_of s k = Some xs \<longrightarrow> slots_of s' k = Some xs)"

lemma kept_refl [simp]: "kept low s s" and kept_trans: "kept low s t \<Longrightarrow> kept low t u \<Longrightarrow> kept low s u"
  by (simp_all add: kept_def)

lemma kept_same: "ps_expert_pool s' = ps_expert_pool s \<Longrightarrow> kept low s s'"
  by (simp add: kept_def slots_of_def)

lemma announced_set_status: "announced (set_status l st s) k \<Longrightarrow> announced s k \<or> k = l"
  by (cases "k = l") (auto simp: announced_def set_status_def)

lemma announced_send: "announced (send_tasks b l base ts p s) k \<Longrightarrow> ps_io_pool s = Some p \<Longrightarrow> announced s k \<or> k = l"
  by (auto simp: announced_def send_tasks_def Let_def)

lemma tasks_valid_send: "tasks_valid s \<Longrightarrow> ps_io_pool s = Some p \<Longrightarrow> tasks_valid (send_tasks b l base ts p s)"
  by (fastforce simp: tasks_valid_def send_tasks_def Let_def)

lemma stage_in_window:
  assumes "pool_of cfg (window cfg c) n p s" "dense_room cfg n" "unat l \<in> window cfg c" "streams cfg l"
    "hm_get (pc_dense_ffn_layouts cfg) l = Some layouts"
  shows "\<exists>s' tasks q. stage_dense_ffn cfg l layouts s = Ret (s', tasks) \<and> pool_of cfg (window cfg c) n q s' \<and> keeps p q \<and>
    pool_owned q l \<noteq> None \<and> ps_current_layer s' = ps_current_layer s \<and> ps_io_pool s' = ps_io_pool s \<and>
    ps_completions s' = ps_completions s \<and> ps_layer_status s' = ps_layer_status s"
proof -
  have l: "ffn_tensors cfg l = length layouts" using assms(5) by (simp add: ffn_tensors_def)
  from allocate_in_window [of cfg c p l] assms obtain q offs where
    q: "allocate_layer l (length layouts) p = Ret (q, offs)" "length offs = length layouts" "holds_window cfg (window cfg c) q"
      "keeps p q" "ep_num_slots q = n" "pool_owned q l \<noteq> None" by (auto simp: pool_of_def l)
  obtain d where "point_to_slots cfg (ps_pool_base s) offs (map df_tensor_name layouts) (ps_tensor_data s) = Ret d"
    using point_to_slots_total [of "map df_tensor_name layouts" offs cfg] q(2) by auto
  then show ?thesis using q assms(1) by (auto simp: stage_dense_ffn_def pool_of_def)
qed

text \<open>Staging a layer of the window, marking it and sending its reads keeps the invariant.\<close>

lemma staged_ok:
  assumes "dense_ok cfg n c low s" "dense_room cfg n" "unat l \<in> window cfg c" "streams cfg l"
    "hm_get (pc_dense_ffn_layouts cfg) l = Some layouts"
  shows "\<exists>s1 tasks. stage_dense_ffn cfg l layouts s = Ret (s1, tasks) \<and> ps_io_pool s1 = ps_io_pool s \<and>
    ps_current_layer s1 = ps_current_layer s \<and>
    (let s2 = set_status l Loading s1;
         s' = (case ps_io_pool s of None \<Rightarrow> s2 | Some p \<Rightarrow> send_tasks True l base tasks p s2)
     in dense_ok cfg n c low s' \<and> kept low s s' \<and> ps_current_layer s' = ps_current_layer s)"
proof -
  from assms(1) obtain p where p: "pool_of cfg (window cfg c) n p s" and v: "tasks_valid s"
    and a: "\<And>k. low \<le> unat k \<Longrightarrow> streams cfg k \<Longrightarrow> announced s k \<Longrightarrow> pool_owned p k \<noteq> None" by (auto simp: dense_ok_def)
  from stage_in_window [OF p assms(2-5)] obtain s1 tasks q where s1: "stage_dense_ffn cfg l layouts s = Ret (s1, tasks)"
    "pool_of cfg (window cfg c) n q s1" "keeps p q" "pool_owned q l \<noteq> None" "ps_current_layer s1 = ps_current_layer s"
    "ps_io_pool s1 = ps_io_pool s" "ps_completions s1 = ps_completions s" "ps_layer_status s1 = ps_layer_status s" by blast
  let ?s2 = "set_status l Loading s1"
  let ?s' = "case ps_io_pool s of None \<Rightarrow> ?s2 | Some p \<Rightarrow> send_tasks True l base tasks p ?s2"
  have frame: "ps_expert_pool ?s' = Some q" "ps_current_layer ?s' = ps_current_layer s"
    using s1 by (auto simp: set_status_def send_tasks_def Let_def pool_of_def split: option.split)
  have io2: "ps_io_pool ?s2 = ps_io_pool s" using s1(6) by (simp add: set_status_def)
  have v2: "tasks_valid ?s2" using v s1 by (simp add: tasks_valid_def set_status_def)
  then have v': "tasks_valid ?s'" using io2 tasks_valid_send by (auto split: option.split)
  have an: "announced s k \<or> k = l" if "announced ?s' k" for k
  proof -
    have "announced ?s2 k \<or> k = l" using that io2 announced_send by (fastforce split: option.splits)
    then have "announced s1 k \<or> k = l" using announced_set_status by blast
    then show ?thesis using s1 by (simp add: announced_def)
  qed
  have "pool_owned q k \<noteq> None" if "low \<le> unat k" "streams cfg k" "announced ?s' k" for k
    using an [OF that(3)] a [OF that(1,2)] s1(3,4) by (auto simp: keeps_def)
  then have "dense_ok cfg n c low ?s'" using v' frame(1) s1(2) by (auto simp: dense_ok_def pool_of_def)
  moreover have "kept low s ?s'" using s1(3) frame(1) p by (auto simp: kept_def slots_of_def keeps_def pool_of_def)
  ultimately show ?thesis using s1(1,5,6) frame(2) by (simp add: Let_def)
qed

lemma prefetch_in_window:
  assumes "dense_ok cfg n c low s" "dense_room cfg n" "unat l \<in> window cfg c" "l \<notin> set (pc_resident_ffn_layers cfg)"
  shows "\<exists>s'. prefetch_dense_ffn cfg l s = Ret s' \<and> dense_ok cfg n c low s' \<and> kept low s s' \<and>
    ps_current_layer s' = ps_current_layer s"
proof (cases "streams cfg l")
  case True
  then obtain layouts where lay: "hm_get (pc_dense_ffn_layouts cfg) l = Some layouts" "layouts \<noteq> []"
    by (cases "hm_get (pc_dense_ffn_layouts cfg) l") (auto simp: streams_def)
  from staged_ok [OF assms(1-3) True lay(1), of "ps_pool_base s"] lay show ?thesis
    by (auto simp: prefetch_dense_ffn_def Let_def split: option.splits)
next
  case False
  then have "prefetch_dense_ffn cfg l s = Ret s"
    using assms(4) by (auto simp: streams_def prefetch_dense_ffn_def split: option.splits)
  with assms(1) show ?thesis by simp
qed

lemma prefetch_each_in_window:
  assumes "dense_ok cfg n c low s" "dense_room cfg n"
    "\<And>t. t \<in> set ts \<Longrightarrow> unat t \<in> window cfg c \<and> t \<notin> set (pc_resident_ffn_layers cfg)"
  shows "\<exists>s'. prefetch_each cfg ts s = Ret s' \<and> dense_ok cfg n c low s' \<and> kept low s s' \<and>
    ps_current_layer s' = ps_current_layer s"
  using assms(1,3)
proof (induction ts arbitrary: s)
  case (Cons t ts)
  obtain s1 where s1: "prefetch_dense_ffn cfg t s = Ret s1" "dense_ok cfg n c low s1" "kept low s s1"
    "ps_current_layer s1 = ps_current_layer s"
    using prefetch_in_window [OF Cons.prems(1) assms(2)] Cons.prems(2) by (metis list.set_intros(1))
  from Cons.IH [OF s1(2)] Cons.prems(2) obtain s' where "prefetch_each cfg ts s1 = Ret s'" "dense_ok cfg n c low s'"
    "kept low s1 s'" "ps_current_layer s' = ps_current_layer s1" by auto
  with s1 show ?case by (auto intro: kept_trans)
qed simp

lemma dense_ok_mono:
  assumes "dense_ok cfg n c low s" "ps_expert_pool s' = ps_expert_pool s" "tasks_valid s'" "\<And>k. announced s' k \<Longrightarrow> announced s k"
  shows "dense_ok cfg n c low s'"
proof -
  from assms(1) obtain p where "pool_of cfg (window cfg c) n p s"
    "\<And>k. low \<le> unat k \<Longrightarrow> streams cfg k \<Longrightarrow> announced s k \<Longrightarrow> pool_owned p k \<noteq> None" by (auto simp: dense_ok_def)
  with assms(2-4) show ?thesis unfolding dense_ok_def pool_of_def by metis
qed

lemma dense_ok_same:
  assumes "dense_ok cfg n c low s" "ps_expert_pool s' = ps_expert_pool s" "ps_io_pool s' = ps_io_pool s"
    "ps_completions s' = ps_completions s" "ps_layer_status s' = ps_layer_status s"
  shows "dense_ok cfg n c low s'"
proof (rule dense_ok_mono [OF assms(1,2)])
  show "tasks_valid s'" using assms by (simp add: dense_ok_def tasks_valid_def)
qed (simp add: announced_def assms(3-5))

text \<open>The workers neither touch the pool nor announce a layer.\<close>

lemma set_update: "x \<in> set (xs[i := w]) \<Longrightarrow> x \<in> set xs \<or> x = w"
  using set_update_subset_insert by fastforce

lemma worker_ok:
  assumes "worker_step disk s s'" "tasks_valid s"
  shows "ps_expert_pool s' = ps_expert_pool s \<and> tasks_valid s' \<and> (\<forall>k. announced s' k \<longrightarrow> announced s k)"
  using assms(1)
proof cases
  case (take i)
  then obtain p t ts where p: "ps_io_pool s = Some p" "i < length (iop_workers p)" "iop_queue p = t # ts"
    "s' = s\<lparr>ps_io_pool := Some (update_worker i (Reading t (it_regions t) 0 (ps_now s)) (p\<lparr>iop_queue := ts\<rparr>))\<rparr>"
    by (auto simp: worker_take_def split: option.splits if_splits list.splits)
  with assms(2) show ?thesis by (auto simp: tasks_valid_def announced_def update_worker_def dest!: set_update; blast)
next
  case (read pread i)
  then obtain p t r rs tot st where p: "ps_io_pool s = Some p" "i < length (iop_workers p)" "iop_workers p ! i = Reading t (r # rs) tot st"
    "s' = s\<lparr>ps_io_pool := Some (update_worker i (Reading t rs (tot + fst (snd r)) st) p),
        ps_mem := pread_region pread (it_base t) r (ps_mem s)\<rparr>"
    by (auto simp: worker_read_def split: option.splits if_splits list.splits worker.splits)
  then have "Reading t (r # rs) tot st \<in> set (iop_workers p)" by (metis nth_mem)
  with p assms(2) show ?thesis by (auto simp: tasks_valid_def announced_def update_worker_def dest!: set_update; blast)
next
  case (finish i)
  then obtain p t tot st where p: "ps_io_pool s = Some p" "i < length (iop_workers p)" "iop_workers p ! i = Reading t [] tot st"
    by (auto simp: worker_done_def split: option.splits if_splits list.splits worker.splits)
  then have t: "it_completion t < length (ps_completions s)" using assms(2) by (metis nth_mem tasks_valid_def)
  let ?c = "ps_completions s ! it_completion t"
  from finish p obtain w a b c where w: "ps_io_pool s' = Some ((update_worker i w p)\<lparr>iop_bytes_loaded := a, iop_load_time_ns := b\<rparr>)"
    "w = Idle \<or> w = Notify (ic_layer_idx ?c)" "ps_completions s' = (ps_completions s)[it_completion t := c]"
    "ic_layer_idx c = ic_layer_idx ?c" "ps_layer_status s' = ps_layer_status s"
    by (auto simp: worker_done_def Let_def)
  have fr: "ps_expert_pool s' = ps_expert_pool s" using finish p by (auto simp: worker_done_def Let_def trace_if_def trace_record_def)
  have "?c \<in> set (ps_completions s)" using t by simp
  with w p assms(2) fr show ?thesis
    by (auto simp: tasks_valid_def announced_def update_worker_def dest!: set_update; blast)
next
  case (notify i)
  then obtain p l where p: "ps_io_pool s = Some p" "i < length (iop_workers p)" "iop_workers p ! i = Notify l"
    "s' = set_status l Loaded (s\<lparr>ps_io_pool := Some (update_worker i Idle p)\<rparr>)"
    by (auto simp: worker_notify_def split: option.splits if_splits worker.splits)
  then have l: "announced s l" by (metis announced_def nth_mem)
  have "announced s k" if "announced s' k" for k
    using that l p(1,4) by (cases "k = l") (auto simp: announced_def set_status_def update_worker_def dest!: set_update)
  with p assms(2) show ?thesis by (auto simp: tasks_valid_def set_status_def update_worker_def dest!: set_update; blast)
qed

lemma background_ok:
  assumes "(background disk)\<^sup>*\<^sup>* s s'" "dense_ok cfg n c low s"
  shows "dense_ok cfg n c low s' \<and> ps_expert_pool s' = ps_expert_pool s \<and> ps_current_layer s' = ps_current_layer s"
  using assms(1)
proof (induction rule: rtranclp_induct)
  case base
  then show ?case using assms(2) by simp
next
  case (step t u)
  from step.hyps(2) consider "worker_step disk t u" | tr now where "u = t\<lparr>ps_trace := tr, ps_now := now\<rparr>"
    by (auto simp: background_def)
  then show ?case
  proof cases
    case 1
    with step.IH have "ps_expert_pool u = ps_expert_pool t" "tasks_valid u" "\<And>k. announced u k \<Longrightarrow> announced t k"
      using worker_ok by (auto simp: dense_ok_def)
    then show ?thesis using dense_ok_mono [of cfg n c low t u] worker_frame [OF 1] step.IH by simp
  next
    case 2
    then show ?thesis using step.IH dense_ok_same [of cfg n c low t u] by simp
  qed
qed

section \<open>One pass\<close>

lemma trace_if_pool [simp]: "ps_expert_pool (trace_if b ev s) = ps_expert_pool s"
  by (simp add: trace_if_def trace_record_def)

lemma repoint_frame:
  "ps_expert_pool (repoint cfg names l s) = ps_expert_pool s \<and> ps_io_pool (repoint cfg names l s) = ps_io_pool s \<and>
   ps_completions (repoint cfg names l s) = ps_completions s \<and> ps_layer_status (repoint cfg names l s) = ps_layer_status s \<and>
   ps_current_layer (repoint cfg names l s) = ps_current_layer s"
  by (simp add: repoint_def split: option.split)

lemma ask_in_window:
  assumes "dense_ok cfg n c (unat l) s" "dense_room cfg n" "unat l \<in> window cfg c"
  shows "eval_callback_dense_ffn_streaming cfg env l True s \<noteq> Panic"
    "env_ok disk env \<Longrightarrow> eval_callback_dense_ffn_streaming cfg env l True s = Ret (Some s') \<Longrightarrow>
      dense_ok cfg n c (unat l) s' \<and> kept (unat l) s s' \<and> ps_current_layer s' = ps_current_layer s \<and>
      (streams cfg l \<longrightarrow> slots_of s' l \<noteq> None)"
proof -
  let ?r = "eval_callback_dense_ffn_streaming cfg env l True s"
  let ?good = "\<lambda>s'. dense_ok cfg n c (unat l) s' \<and> kept (unat l) s s' \<and> ps_current_layer s' = ps_current_layer s \<and>
      (streams cfg l \<longrightarrow> slots_of s' l \<noteq> None)"
  have "?r \<noteq> Panic \<and> (env_ok disk env \<longrightarrow> (\<forall>s'. ?r = Ret (Some s') \<longrightarrow> ?good s'))"
  proof (cases "streams cfg l")
    case False
    have fr: "ps_expert_pool (rewrite_resident_ffn_ptrs cfg l s) = ps_expert_pool s \<and> ps_io_pool (rewrite_resident_ffn_ptrs cfg l s) = ps_io_pool s \<and>
        ps_completions (rewrite_resident_ffn_ptrs cfg l s) = ps_completions s \<and>
        ps_layer_status (rewrite_resident_ffn_ptrs cfg l s) = ps_layer_status s \<and>
        ps_current_layer (rewrite_resident_ffn_ptrs cfg l s) = ps_current_layer s"
      by (simp add: rewrite_resident_ffn_ptrs_def split: option.split)
    have "?r = Ret (Some (rewrite_resident_ffn_ptrs cfg l s)) \<or> ?r = Ret (Some s)"
      using False by (auto simp: eval_callback_dense_ffn_streaming_def ensure_dense_ffn_loaded_def streams_def split: option.splits)
    moreover from fr have "?good (rewrite_resident_ffn_ptrs cfg l s)"
      using False dense_ok_same [OF assms(1)] by (simp add: kept_same)
    ultimately show ?thesis using assms(1) False by auto
  next
    case True
    then obtain layouts where lay: "hm_get (pc_dense_ffn_layouts cfg) l = Some layouts" "layouts \<noteq> []" "l \<notin> set (pc_resident_ffn_layers cfg)"
      by (cases "hm_get (pc_dense_ffn_layouts cfg) l") (auto simp: streams_def)
    then have r: "?r = ensure_dense_ffn_loaded cfg env l s" by (simp add: eval_callback_dense_ffn_streaming_def)
    have owned: "announced s' l \<Longrightarrow> dense_ok cfg n c (unat l) s' \<Longrightarrow> slots_of s' l \<noteq> None" for s'
      using True by (auto simp: dense_ok_def slots_of_def pool_of_def)
    show ?thesis
    proof (cases "status_of s l = Some Loaded")
      case Loaded: True
      let ?s' = "trace_if (ps_trace_enabled s) (LayerHit l) (rewrite_dense_ffn_ptrs cfg l s)"
      have f: "ps_expert_pool ?s' = ps_expert_pool s" "ps_io_pool ?s' = ps_io_pool s" "ps_completions ?s' = ps_completions s"
        "ps_layer_status ?s' = ps_layer_status s" "ps_current_layer ?s' = ps_current_layer s"
        using repoint_frame [of cfg _ l s] lay by (simp_all add: rewrite_dense_ffn_ptrs_def)
      have "?r = Ret (Some ?s')" using r lay Loaded by (simp add: ensure_dense_ffn_loaded_def)
      moreover have "announced ?s' l" using Loaded f(4) by (simp add: announced_def)
      ultimately show ?thesis using dense_ok_same [OF assms(1) f(1-4)] owned kept_same [OF f(1)] f(5) by simp
    next
      case False
      from staged_ok [OF assms True lay(1), of "ps_pool_base s"] obtain s1 tasks where s1:
        "stage_dense_ffn cfg l layouts s = Ret (s1, tasks)" "ps_io_pool s1 = ps_io_pool s"
        and ok: "let s2 = set_status l Loading s1;
           s' = (case ps_io_pool s of None \<Rightarrow> s2 | Some p \<Rightarrow> send_tasks True l (ps_pool_base s) tasks p s2)
         in dense_ok cfg n c (unat l) s' \<and> kept (unat l) s s' \<and> ps_current_layer s' = ps_current_layer s" by blast
      let ?s2 = "set_status l Loading s1"
      let ?u = "case ps_io_pool ?s2 of None \<Rightarrow> ?s2 | Some p \<Rightarrow> send_tasks True l (ps_pool_base s) tasks p ?s2"
      have io: "ps_io_pool ?s2 = ps_io_pool s" using s1(2) by (simp add: set_status_def)
      have u: "dense_ok cfg n c (unat l) ?u" "kept (unat l) s ?u" "ps_current_layer ?u = ps_current_layer s"
        using ok s1(2) unfolding Let_def io by blast+
      have r2: "?r = Ret (Option.bind (wait_loaded env l ?u) (\<lambda>s2.
          Some (trace_if (ps_trace_enabled s) (LayerStall l (elapsed_ms (ps_now s) s2)) s2)))"
        using r lay False s1(1) by (simp add: ensure_dense_ffn_loaded_def send_and_wait_def)
      have "?good s'" if env: "env_ok disk env" and "?r = Ret (Some s')" for s'
      proof -
        from that(2) obtain v where v: "wait_loaded env l ?u = Some v" and
          s': "s' = trace_if (ps_trace_enabled s) (LayerStall l (elapsed_ms (ps_now s) v)) v"
          unfolding r2 by (auto simp: bind_eq_Some_conv)
        from wait_loaded_reaches [OF v env] have w: "(background disk)\<^sup>*\<^sup>* ?u v" "status_of v l = Some Loaded" by blast+
        note b = background_ok [OF w(1) u(1)]
        have "dense_ok cfg n c (unat l) s'" using dense_ok_same [of cfg n c "unat l" v s'] b s' by simp
        moreover from this have "slots_of s' l \<noteq> None" using owned [of s'] w(2) s' by (simp add: announced_def)
        moreover have "kept (unat l) s s'" using kept_trans [OF u(2)] kept_same [of s' ?u] b s' by simp
        ultimately show ?thesis using b u(3) s' by simp
      qed
      moreover have "?r \<noteq> Panic" unfolding r2 by (rule outcome.distinct)
      ultimately show ?thesis by blast
    qed
  qed
  note key = this
  show "?r \<noteq> Panic" using key by (rule conjunct1)
  show "?good s'" if "env_ok disk env" "?r = Ret (Some s')" by (rule conjunct2 [OF key, rule_format, OF that])
qed

lemma sint_small: "unat (w :: u32) < 2 ^ 31 \<Longrightarrow> 0 \<le> sint w"
  by (simp add: sint_small_u32)

lemma unat_step: "unat (l :: u32) + i < 2 ^ 32 \<Longrightarrow> unat (l + of_nat i) = unat l + i"
  by (simp add: unat_word_ariths unat_of_nat)

lemma targets_in_window:
  assumes "t \<in> set (dense_prefetch_targets cfg l s)" "dense_room cfg n" "unat l < unat (pc_num_layers cfg)"
  shows "unat t \<in> window cfg (unat l) \<and> t \<notin> set (pc_resident_ffn_layers cfg)"
proof -
  let ?ts = "map (\<lambda>i. l + of_nat i) [1..<Suc (unat (pc_dense_ffn_lookahead cfg))]"
  from assms(1) have "t \<in> set ?ts \<and> t \<notin> set (pc_resident_ffn_layers cfg)"
    unfolding dense_prefetch_targets_def set_filter mem_Collect_eq using set_takeWhileD [of t "\<lambda>t. t < pc_num_layers cfg" ?ts] by blast
  then obtain i where "i \<in> set [1..<Suc (unat (pc_dense_ffn_lookahead cfg))]" "t = l + of_nat i"
    "t \<notin> set (pc_resident_ffn_layers cfg)" unfolding set_map by blast
  moreover from this(1) assms(2,3) have "unat l + i < 2 ^ 32" by (auto simp: dense_room_def)
  ultimately show ?thesis using unat_step [of l i] by (auto simp: window_def)
qed

text \<open>Where the pass stands: the layer the pool's window starts at is the current layer.\<close>

definition at_layer :: "prefetch_config \<Rightarrow> u32 \<Rightarrow> nat \<Rightarrow> prefetch_state \<Rightarrow> bool" where
  "at_layer cfg l c s \<longleftrightarrow> unat l < unat (pc_num_layers cfg) \<and>
     (ps_current_layer s = -1 \<and> l = 0 \<and> c = 0 \<or>
      c = unat (ps_current_layer s) \<and> (unat l = c \<or> unat l = Suc c))"

lemma at_layer_window: "at_layer cfg l c s \<Longrightarrow> dense_room cfg n \<Longrightarrow> unat l \<in> window cfg c"
  by (auto simp: at_layer_def dense_room_def window_def)

text \<open>When a layer is passed its slots are given back, and the window moves on.\<close>

lemma release_streamed_ok:
  assumes "dense_ok cfg n c (unat l) s" "dense_room cfg n" "at_layer cfg l c s"
  shows "dense_ok cfg n (unat l) (unat l) (release_streamed cfg (ps_current_layer s) l (s\<lparr>ps_current_layer := l\<rparr>)) \<and>
    kept (unat l) s (release_streamed cfg (ps_current_layer s) l (s\<lparr>ps_current_layer := l\<rparr>))"
proof (cases "unat l = c")
  case True
  have "\<not> advanced (ps_current_layer s) l"
    using assms(3) True by (auto simp: at_layer_def advanced_def word_less_nat_alt)
  then show ?thesis using True dense_ok_same [OF assms(1), of "s\<lparr>ps_current_layer := l\<rparr>"] kept_same
    by (simp add: release_streamed_def)
next
  case False
  let ?prev = "ps_current_layer s" and ?s1 = "s\<lparr>ps_current_layer := l\<rparr>"
  have c: "c = unat ?prev" "unat l = Suc c" using assms(3) False by (auto simp: at_layer_def)
  have adv: "advanced ?prev l"
    using c assms(2,3) sint_small [of ?prev] by (auto simp: advanced_def word_less_nat_alt at_layer_def dense_room_def)
  from assms(1) obtain p where p: "ps_expert_pool s = Some p" "holds_window cfg (window cfg c) p" "ep_num_slots p = n" "tasks_valid s"
    and a: "\<And>k. unat l \<le> unat k \<Longrightarrow> streams cfg k \<Longrightarrow> announced s k \<Longrightarrow> pool_owned p k \<noteq> None"
    by (auto simp: dense_ok_def pool_of_def)
  let ?rel = "?prev \<notin> set (pc_resident_ffn_layers cfg) \<and> hm_contains (pc_dense_ffn_layouts cfg) ?prev"
  define q where "q = (if ?rel then pool_release_layer ?prev p else p)"
  let ?s' = "release_streamed cfg ?prev l ?s1"
  have s': "?s' = (if ?rel then set_status ?prev NotLoaded (?s1\<lparr>ps_expert_pool := Some q\<rparr>) else ?s1)"
    using adv p(1) by (simp add: release_streamed_def q_def)
  have q: "pool_owned q k = (if k = ?prev then None else pool_owned p k)" for k
  proof (cases ?rel)
    case False
    then have "\<not> streams cfg ?prev" by (auto simp: streams_def)
    then have "pool_owned p ?prev = None" using p(2) by (cases "pool_owned p ?prev") (auto simp: holds_window_def)
    then show ?thesis using False by (auto simp: q_def)
  qed (simp add: q_def release_get)
  have qp: "ps_expert_pool ?s' = Some q" using p(1) by (auto simp: s' q_def set_status_def)
  have "pool_inv q" using p(2) pool_release_inv by (simp add: q_def holds_window_def)
  moreover have "unat k \<in> window cfg (unat l)" if "pool_owned q k = Some xs" for k xs
  proof -
    have k: "unat k \<in> window cfg c" "k \<noteq> ?prev" using that q p(2) by (auto simp: holds_window_def split: if_splits)
    then have "unat k \<noteq> c" using c(1) by (simp flip: word_unat_eq_iff)
    with k(1) c(2) show ?thesis by (auto simp: window_def)
  qed
  moreover have "ep_num_slots q = n" using p(3) release_shape [of p ?prev] by (simp add: q_def same_shape_def)
  ultimately have "pool_of cfg (window cfg (unat l)) n q ?s'" using qp q p(2) by (auto simp: pool_of_def holds_window_def split: if_splits)
  moreover have "tasks_valid ?s'" using p(4) by (simp add: s' tasks_valid_def set_status_def)
  moreover have "pool_owned q k \<noteq> None" if "unat l \<le> unat k" "streams cfg k" "announced ?s' k" for k
  proof -
    have "k \<noteq> ?prev" using that(1) c by auto
    then have "announced s k" using that(3) by (auto simp: s' announced_def set_status_def split: if_splits)
    with a that(1,2) q \<open>k \<noteq> ?prev\<close> show ?thesis by simp
  qed
  moreover have "kept (unat l) s ?s'"
  proof -
    have "k \<noteq> ?prev" if "unat l \<le> unat k" for k using that c by auto
    then show ?thesis using q qp p(1) by (auto simp: kept_def slots_of_def)
  qed
  ultimately show ?thesis unfolding dense_ok_def by blast
qed

lemma done_in_window:
  assumes "dense_ok cfg n c (unat l) s" "dense_room cfg n" "at_layer cfg l c s"
  shows "\<exists>s'. eval_callback_dense_ffn_streaming cfg env l False s = Ret (Some s') \<and> dense_ok cfg n (unat l) (unat l) s' \<and>
    kept (unat l) s s' \<and> ps_current_layer s' = l"
proof -
  let ?s2 = "release_streamed cfg (ps_current_layer s) l (s\<lparr>ps_current_layer := l\<rparr>)"
  note r = release_streamed_ok [OF assms]
  have cur: "ps_current_layer ?s2 = l" by (simp add: release_streamed_def set_status_def)
  have l: "unat l < unat (pc_num_layers cfg)" using assms(3) by (simp add: at_layer_def)
  from prefetch_each_in_window [OF _ assms(2) targets_in_window [OF _ assms(2) l]] r obtain s' where
    "prefetch_each cfg (dense_prefetch_targets cfg l ?s2) ?s2 = Ret s'" "dense_ok cfg n (unat l) (unat l) s'" "kept (unat l) ?s2 s'"
    "ps_current_layer s' = ps_current_layer ?s2" by metis
  then show ?thesis using r cur kept_trans [of "unat l" s ?s2 s']
    by (auto simp: eval_callback_dense_ffn_streaming_def swap_layer_def Let_def)
qed

text \<open>A pass: llama.cpp asks before a layer is computed and reports after each of its nodes; the
  next layer starts when the last report was of this one; the workers go on all the time.\<close>

inductive dense_pass :: "prefetch_config \<Rightarrow> u8 list \<Rightarrow> u32 \<times> prefetch_state \<Rightarrow> u32 \<times> prefetch_state \<Rightarrow> bool" for cfg disk where
  ask: "env_ok disk env \<Longrightarrow> eval_callback_dense_ffn_streaming cfg env l True s = Ret (Some s') \<Longrightarrow> dense_pass cfg disk (l, s) (l, s')"
| computed: "eval_callback_dense_ffn_streaming cfg env l False s = Ret (Some s') \<Longrightarrow> dense_pass cfg disk (l, s) (l, s')"
| advance: "ps_current_layer s = l \<Longrightarrow> l + 1 < pc_num_layers cfg \<Longrightarrow> dense_pass cfg disk (l, s) (l + 1, s)"
| work: "background disk s s' \<Longrightarrow> dense_pass cfg disk (l, s) (l, s')"

text \<open>A pass starts after the first layers have been prefetched into an empty pool.\<close>

definition fresh_pool :: "nat \<Rightarrow> prefetch_state \<Rightarrow> bool" where
  "fresh_pool n s \<longleftrightarrow> ps_current_layer s = -1 \<and> ps_completions s = [] \<and>
     list_all (\<lambda>(l, st). st = NotLoaded) (ps_layer_status s) \<and>
     (case ps_io_pool s of None \<Rightarrow> True | Some p \<Rightarrow> iop_queue p = [] \<and> list_all (\<lambda>w. w = Idle) (iop_workers p)) \<and>
     (case ps_expert_pool s of None \<Rightarrow> False | Some p \<Rightarrow> pool_inv p \<and> ep_layer_slots p = [] \<and> ep_num_slots p = n)"

definition dense_start :: "prefetch_config \<Rightarrow> nat \<Rightarrow> prefetch_state \<Rightarrow> bool" where
  "dense_start cfg n s \<longleftrightarrow> (\<exists>s0 ts. fresh_pool n s0 \<and> prefetch_each cfg ts s0 = Ret s \<and>
     list_all (\<lambda>t. unat t \<le> unat (pc_dense_ffn_lookahead cfg) \<and> t \<notin> set (pc_resident_ffn_layers cfg)) ts)"

definition pass_inv :: "prefetch_config \<Rightarrow> nat \<Rightarrow> u32 \<times> prefetch_state \<Rightarrow> bool" where
  "pass_inv cfg n ls \<longleftrightarrow> (case ls of (l, s) \<Rightarrow> \<exists>c. dense_ok cfg n c (unat l) s \<and> at_layer cfg l c s)"

lemma fresh_ok:
  assumes "fresh_pool n s"
  shows "dense_ok cfg n 0 0 s"
proof -
  from assms obtain p where p: "ps_expert_pool s = Some p" "pool_inv p" "ep_layer_slots p = []" "ep_num_slots p = n"
    by (auto simp: fresh_pool_def split: option.splits)
  have "\<not> announced s k" for k
    using assms by (auto simp: fresh_pool_def announced_def list_all_iff split: option.splits dest!: map_of_SomeD)
  moreover have "tasks_valid s" using assms by (auto simp: fresh_pool_def tasks_valid_def list_all_iff)
  ultimately show ?thesis using p by (auto simp: dense_ok_def pool_of_def holds_window_def)
qed

lemma dense_ok_low: "dense_ok cfg n c low s \<Longrightarrow> low \<le> low' \<Longrightarrow> dense_ok cfg n c low' s"
  by (auto simp: dense_ok_def intro: le_trans)

lemma start_inv:
  assumes "dense_start cfg n s" "dense_room cfg n" "0 < pc_num_layers cfg"
  shows "pass_inv cfg n (0, s)"
proof -
  from assms(1) obtain s0 ts where s0: "fresh_pool n s0" "prefetch_each cfg ts s0 = Ret s"
    "list_all (\<lambda>t. unat t \<le> unat (pc_dense_ffn_lookahead cfg) \<and> t \<notin> set (pc_resident_ffn_layers cfg)) ts"
    by (auto simp: dense_start_def)
  then have w: "unat t \<in> window cfg 0 \<and> t \<notin> set (pc_resident_ffn_layers cfg)" if "t \<in> set ts" for t
    using that by (auto simp: window_def list_all_iff)
  from prefetch_each_in_window [OF fresh_ok [OF s0(1)] assms(2), of ts] w s0(2) have "dense_ok cfg n 0 0 s"
    "ps_current_layer s = ps_current_layer s0" by auto
  then show ?thesis using s0(1) assms(3)
    by (auto simp: pass_inv_def at_layer_def fresh_pool_def word_less_nat_alt)
qed

lemma pass_step:
  assumes "dense_pass cfg disk (l, s) (l', s')" "pass_inv cfg n (l, s)" "dense_room cfg n"
  shows "pass_inv cfg n (l', s') \<and> kept (unat l') s s'"
proof -
  from assms(2) obtain c where c: "dense_ok cfg n c (unat l) s" "at_layer cfg l c s" by (auto simp: pass_inv_def)
  from assms(1) show ?thesis
  proof cases
    case (ask env)
    from ask_in_window(2) [OF c(1) assms(3) at_layer_window [OF c(2) assms(3)] ask(2,3)] c(2) ask(1) show ?thesis
      by (auto simp: pass_inv_def at_layer_def)
  next
    case (computed env)
    from done_in_window [OF c(1) assms(3) c(2), of env] computed c(2) show ?thesis
      by (auto simp: pass_inv_def at_layer_def)
  next
    case advance
    have "unat (l + 1) = Suc (unat l)" using c(2) unat_step [of l 1] assms(3) by (auto simp: at_layer_def dense_room_def)
    moreover have "c = unat l" if "ps_current_layer s = l" using c(2) that by (auto simp: at_layer_def)
    ultimately show ?thesis using c advance dense_ok_low [OF c(1), of "unat (l + 1)"]
      by (auto simp: pass_inv_def at_layer_def word_less_nat_alt)
  next
    case work
    have "(background disk)\<^sup>*\<^sup>* s s'" using work by blast
    from background_ok [OF this c(1)] c(2) work show ?thesis by (auto simp: pass_inv_def at_layer_def kept_same)
  qed
qed

lemma pass_reaches:
  assumes "(dense_pass cfg disk)\<^sup>*\<^sup>* ls ls'" "pass_inv cfg n ls" "dense_room cfg n"
  shows "pass_inv cfg n ls'"
  using assms(1)
proof (induction rule: rtranclp_induct)
  case (step t u)
  then show ?case using pass_step [of cfg disk "fst t" "snd t" "fst u" "snd u"] assms(3) by simp
qed (simp add: assms(2))

section \<open>Properties\<close>


text \<open>The dense model of \<open>ffn_cfg\<close> with the slots it needs.\<close>

definition room_state :: prefetch_state where
  "room_state = ffn_state\<lparr>ps_expert_pool := Some \<lparr>ep_pool_size = 6, ep_slot_size = 1, ep_num_slots = 6, ep_layer_slots = [],
       ep_free_slots = [5, 4, 3, 2, 1, 0]\<rparr>\<rparr>"

lemma ffn_room: "dense_room ffn_cfg 6"
  by (simp add: dense_room_def ffn_cfg_def ffn_layer_def)

lemma room_fresh: "fresh_pool 6 room_state"
proof -
  have "mset [5, 4, 3, 2, 1, 0 :: nat] = mset [0..<6]" by code_simp
  then show ?thesis
    by (simp add: fresh_pool_def room_state_def ffn_state_def demo_state_def pool_inv_def pool_part_def hm_wf_def)
qed

lemma room_run:
  "\<exists>s1 s2. prefetch_each ffn_cfg [0, 1] room_state = Ret s1 \<and>
     eval_callback_dense_ffn_streaming ffn_cfg ffn_env 0 True s1 = Ret (Some s2) \<and> status_of s2 0 = Some Loaded"
proof -
  have "(case prefetch_each ffn_cfg [0, 1] room_state of Panic \<Rightarrow> False | Ret s1 \<Rightarrow>
      (case eval_callback_dense_ffn_streaming ffn_cfg ffn_env 0 True s1 of Ret (Some s2) \<Rightarrow> status_of s2 0 = Some Loaded | _ \<Rightarrow> False))"
    by code_simp
  then show ?thesis by (auto split: outcome.splits option.splits)
qed


section \<open>The next pass\<close>

text \<open>At the end of a pass the last layer keeps its slots: they are given back only when a later
  layer is reported.  In the next pass the first layer takes the slots left, and the report
  of its first node, with the last layer still current, prefetches the second layer into the
  slots of the first, which is still being computed and stays marked \<open>Loaded\<close>.\<close>

definition turn_state :: prefetch_state where
  "turn_state = ffn_state\<lparr>ps_current_layer := 2, ps_layer_status := [(0, Loaded), (1, NotLoaded), (2, Loaded)],
     ps_expert_pool := Some \<lparr>ep_pool_size = 2, ep_slot_size = 1, ep_num_slots = 2, ep_layer_slots = [(2, [0]), (0, [1])],
       ep_free_slots = []\<rparr>\<rparr>"

lemma next_pass_evicts_current_layer:
  "\<exists>s. eval_callback_dense_ffn_streaming ffn_cfg ffn_env 0 False turn_state = Ret (Some s) \<and>
     status_of s 0 = Some Loaded \<and> slots_of s 0 = None \<and> slots_of s 1 = slots_of turn_state 0"
proof -
  have "(case eval_callback_dense_ffn_streaming ffn_cfg ffn_env 0 False turn_state of Ret (Some s) \<Rightarrow>
      status_of s 0 = Some Loaded \<and> slots_of s 0 = None \<and> slots_of s 1 = slots_of turn_state 0 | _ \<Rightarrow> False)"
    by code_simp
  then show ?thesis by (auto split: outcome.splits option.splits)
qed

end
