(* ===== verification/Buft_Controller.thy ===== *)
theory Buft_Controller
  imports Prefetch_State Gguf Sched_Types
begin

unbundle bit_operations_syntax

text \<open>
  Model of \<open>HypuraBuftController\<close> and of the override patterns
  (\<open>src/compute/nvme_backend.rs\<close>): what the buffer's C callbacks record while llama.cpp loads
  the model, how the prefetch state is built from it, how the slot pools are activated, and
  which tensors are routed to the buffer.  The C side (allocations, the buffer's base, the
  pool's base) and the files read besides the model enter as arguments.
\<close>

section \<open>State and callbacks\<close>

record buft_controller =
  hb_tensor_map :: "(string, tensor_location) hmap"
  hb_gguf_data_offset :: u64
  hb_buffer_base :: ptr
  hb_tensor_ptrs :: "(string, nat) hmap"
  hb_loading_scratch :: ptr
  hb_loading_scratch_size :: usize

definition hb_new :: "gguf_file \<Rightarrow> buft_controller" where
  "hb_new gguf = \<lparr>hb_tensor_map = [], hb_gguf_data_offset = gf_data_offset gguf, hb_buffer_base = Null,
     hb_tensor_ptrs = [], hb_loading_scratch = Null, hb_loading_scratch_size = 0\<rparr>"

text \<open>A name that is not UTF-8 reads as the empty string.\<close>

definition on_tensor_loaded :: "string \<Rightarrow> usize \<Rightarrow> usize \<Rightarrow> ptr \<Rightarrow> buft_controller \<Rightarrow> buft_controller" where
  "on_tensor_loaded name offset size_b buffer_base c =
     (let c1 = (if name = [] then c
                else c\<lparr>hb_tensor_map := hm_insert name \<lparr>tl_offset_in_buffer = offset, tl_size = size_b,
                       tl_file_offset = 0, tl_layer_index = None\<rparr> (hb_tensor_map c)\<rparr>)
      in if buffer_base = Null then c1 else c1\<lparr>hb_buffer_base := buffer_base\<rparr>)"

text \<open>\<open>data\<close> is the map of tensor data pointers; the callback may redirect one.\<close>

definition on_tensor_init :: "nat \<Rightarrow> string \<Rightarrow> buft_controller \<Rightarrow> (nat, ptr) hmap \<Rightarrow> buft_controller \<times> (nat, ptr) hmap" where
  "on_tensor_init tensor name c data =
     (let role = role_from_name name
      in if role = MoeFusedExperts \<or> is_ffn role
         then (c\<lparr>hb_tensor_ptrs := hm_insert name tensor (hb_tensor_ptrs c)\<rparr>,
               if is_ffn role \<and> hb_loading_scratch c \<noteq> Null then hm_insert tensor (hb_loading_scratch c) data else data)
         else (c, data))"

definition list_max :: "'a::{linorder, zero} list \<Rightarrow> 'a" where
  "list_max xs = (if xs = [] then 0 else fold max xs 0)"

definition max_ffn_size :: "gguf_file \<Rightarrow> usize" where
  "max_ffn_size gguf = list_max (map ti_size_bytes (filter (\<lambda>t. is_ffn (role_from_name (ti_name t))) (gf_tensors gguf)))"

definition enable_dense_ffn_scratch :: "ptr \<Rightarrow> gguf_file \<Rightarrow> buft_controller \<Rightarrow> buft_controller" where
  "enable_dense_ffn_scratch mmap_base gguf c =
     (if max_ffn_size gguf = 0 then c
      else if mmap_base = Null then c
      else c\<lparr>hb_loading_scratch := mmap_base, hb_loading_scratch_size := (max_ffn_size gguf + 4095) AND NOT 4095\<rparr>)"

definition release_scratch :: "buft_controller \<Rightarrow> buft_controller" where
  "release_scratch c =
     (let c1 = c\<lparr>hb_loading_scratch_size := 0\<rparr>
      in if hb_loading_scratch c \<noteq> Null \<and> 0 < hb_loading_scratch_size c then c1\<lparr>hb_loading_scratch := Null\<rparr> else c1)"

definition take_tensor_ptrs :: "buft_controller \<Rightarrow> (string, nat) hmap \<times> buft_controller" where
  "take_tensor_ptrs c = (hb_tensor_ptrs c, c\<lparr>hb_tensor_ptrs := []\<rparr>)"

section \<open>Building the prefetch state\<close>

text \<open>Fill in where each tensor lies in the file.\<close>

definition locate :: "u64 \<Rightarrow> tensor_info list \<Rightarrow> (string, tensor_location) hmap \<Rightarrow> (string, tensor_location) hmap" where
  "locate data_offset tensors m = fold (\<lambda>t m. case hm_get m (ti_name t) of
      None \<Rightarrow> m
    | Some loc \<Rightarrow> hm_insert (ti_name t) (loc\<lparr>tl_file_offset := data_offset + ti_offset t, tl_layer_index := ti_layer_index t\<rparr>) m)
    tensors m"

definition loc_region :: "tensor_location \<Rightarrow> region" where
  "loc_region loc = (tl_offset_in_buffer loc, tl_size loc, tl_file_offset loc)"

text \<open>\<open>map.entry(key).or_default().push(value)\<close>\<close>

definition push_entry :: "'k \<Rightarrow> 'v \<Rightarrow> ('k, 'v list) hmap \<Rightarrow> ('k, 'v list) hmap" where
  "push_entry k v m = hm_insert k (unwrap_or (hm_get m k) [] @ [v]) m"

definition sort_regions :: "(u32, region list) hmap \<Rightarrow> (u32, region list) hmap" where
  "sort_regions m = map (\<lambda>(l, rs). (l, sort_by (\<lambda>a b. snd (snd a) \<le> snd (snd b)) rs)) m"

definition group_by_layer :: "tensor_location list \<Rightarrow> (u32, region list) hmap" where
  "group_by_layer locs = fold (\<lambda>loc m. case tl_layer_index loc of None \<Rightarrow> m | Some l \<Rightarrow> push_entry l (loc_region loc) m) locs []"

text \<open>\<open>forward[position] = expert\<close> becomes \<open>inverse[expert] = position\<close>.\<close>

definition invert_step :: "nat \<times> u32 \<Rightarrow> u32 list \<Rightarrow> u32 list" where
  "invert_step e iv = (if unat (snd e) < length iv then iv[unat (snd e) := of_nat (fst e)] else iv)"

definition invert_permutation :: "u32 list \<Rightarrow> u32 list" where
  "invert_permutation fwd = fold invert_step (zip [0..<length fwd] fwd) (replicate (length fwd) 0)"

record layout_maps =
  lm_expert_layouts :: "(u32, expert_layout list) hmap"
  lm_dense_ffn_layouts :: "(u32, dense_ffn_layout list) hmap"
  lm_non_expert_regions :: "(u32, region list) hmap"

definition mk_expert_layout :: "u32 \<Rightarrow> (u32, u32 list) hmap \<Rightarrow> tensor_info \<Rightarrow> u32 \<Rightarrow> tensor_location \<Rightarrow> expert_layout" where
  "mk_expert_layout num_experts perms t l loc =
     \<lparr>el_tensor_name = ti_name t, el_layer_index = l, el_num_experts = num_experts,
      el_expert_stride = tl_size loc div ucast num_experts, el_file_offset = tl_file_offset loc,
      el_buffer_offset = tl_offset_in_buffer loc, el_total_size = tl_size loc,
      el_expert_permutation = hm_get perms l\<rparr>"

definition add_layout :: "u32 \<Rightarrow> (u32, u32 list) hmap \<Rightarrow> (string, tensor_location) hmap \<Rightarrow> tensor_info \<Rightarrow> layout_maps \<Rightarrow> layout_maps" where
  "add_layout num_experts perms m t lm = (case ti_layer_index t of
      None \<Rightarrow> lm
    | Some l \<Rightarrow> (case hm_get m (ti_name t) of
        None \<Rightarrow> lm
      | Some loc \<Rightarrow>
          (let role = role_from_name (ti_name t)
           in if role = MoeFusedExperts \<and> 0 < num_experts
              then lm\<lparr>lm_expert_layouts := push_entry l (mk_expert_layout num_experts perms t l loc) (lm_expert_layouts lm)\<rparr>
              else if is_ffn role \<and> num_experts = 0
              then lm\<lparr>lm_dense_ffn_layouts := push_entry l \<lparr>df_tensor_name = ti_name t, df_layer_index = l,
                       df_file_offset = tl_file_offset loc, df_size = tl_size loc\<rparr> (lm_dense_ffn_layouts lm)\<rparr>
              else lm\<lparr>lm_non_expert_regions := push_entry l (loc_region loc) (lm_non_expert_regions lm)\<rparr>)))"

definition build_layouts :: "u32 \<Rightarrow> (u32, u32 list) hmap \<Rightarrow> (string, tensor_location) hmap \<Rightarrow> tensor_info list \<Rightarrow> layout_maps" where
  "build_layouts num_experts perms m tensors =
     (let lm = fold (add_layout num_experts perms m) tensors
                 \<lparr>lm_expert_layouts = [], lm_dense_ffn_layouts = [], lm_non_expert_regions = []\<rparr>
      in lm\<lparr>lm_non_expert_regions := sort_regions (filter (\<lambda>(l, _). hm_contains (lm_expert_layouts lm) l) (lm_non_expert_regions lm))\<rparr>)"

definition cache_capacity :: "u32 list \<Rightarrow> (u32, expert_layout list) hmap \<Rightarrow> usize" where
  "cache_capacity nvme_layers layouts =
     max 16 (of_nat (length (filter (\<lambda>l. hm_contains layouts l) nvme_layers)) * 3 * 3)"

text \<open>\<open>perms\<close> is the content of the side file with the expert permutations (empty when it is
  missing or unreadable), \<open>saved\<close> the co-activation matrix when one was saved.\<close>

definition build_prefetch_state ::
    "gguf_file \<Rightarrow> u32 \<Rightarrow> u32 list \<Rightarrow> (u32, u32 list) hmap \<Rightarrow> coactivation option \<Rightarrow> mem \<Rightarrow> (nat, ptr) hmap \<Rightarrow> buft_controller \<Rightarrow>
     prefetch_config \<times> prefetch_state" where
  "build_prefetch_state gguf num_layers nvme_layers perms saved mm data c =
     (let m = locate (hb_gguf_data_offset c) (gf_tensors gguf) (hb_tensor_map c);
          layer_regions = sort_regions (group_by_layer (map snd m));
          num_total = unwrap_or (get_u32 gguf ''expert_count'') 0;
          num_used = unwrap_or (get_u32 gguf ''expert_used_count'') 0;
          inverse = map (\<lambda>(l, fwd). (l, invert_permutation fwd)) perms;
          lm = build_layouts num_total inverse m (gf_tensors gguf);
          co_activation = (if 0 < num_total then unwrap_or saved (ca_new num_layers num_total) else ca_new num_layers (max num_total 1))
      in (\<lparr>pc_tensor_map = m, pc_layer_regions = layer_regions, pc_num_layers = num_layers,
           pc_nvme_layers = nvme_layers, pc_sorted_nvme_layers = sort_by (\<le>) nvme_layers,
           pc_expert_layouts = lm_expert_layouts lm, pc_non_expert_regions = lm_non_expert_regions lm,
           pc_num_experts_used = num_used, pc_num_experts_total = num_total,
           pc_dense_ffn_layouts = lm_dense_ffn_layouts lm, pc_dense_ffn_lookahead = 3,
           pc_fused_tensor_ptrs = [], pc_resident_ffn_layers = [], pc_resident_ffn_base = Null,
           pc_resident_ffn_offsets = []\<rparr>,
          \<lparr>ps_current_layer = -1, ps_buffer_base = hb_buffer_base c,
           ps_layer_status = map (\<lambda>l. (l, NotLoaded)) (hm_keys layer_regions), ps_prefetch_enabled = True,
           ps_io_pool = None, ps_keep_nvme_resident = False, ps_selected_experts = [],
           ps_neuron_cache = nc_new (cache_capacity nvme_layers (lm_expert_layouts lm)),
           ps_co_activation = co_activation, ps_prev_layer_experts = None, ps_expert_streaming = False,
           ps_dense_ffn_streaming = False, ps_expert_pool = None, ps_pool_base = Null,
           ps_trace_enabled = False, ps_trace = [], ps_completions = [], ps_tensor_data = data, ps_mem = mm, ps_now = 0\<rparr>))"

section \<open>Activating the slot pools\<close>

datatype activation_error = NoBuffer | NoTensors | PoolAlloc | PoolBaseNull

text \<open>\<open>buffer\<close> says whether the C side has a buffer, \<open>init_ok\<close> whether it could allocate the
  pool, \<open>pool_base\<close> where.  The tensors selected by \<open>sel\<close> are pointed at the pool's base.\<close>

definition activate_pool :: "(string \<Rightarrow> bool) \<Rightarrow> usize \<Rightarrow> bool \<Rightarrow> bool \<Rightarrow> ptr \<Rightarrow> usize \<Rightarrow> buft_controller \<Rightarrow> (nat, ptr) hmap \<Rightarrow>
    activation_error + (expert_pool outcome \<times> (nat, ptr) hmap)" where
  "activate_pool sel slot_size buffer init_ok pool_base num_slots c data =
     (if \<not> buffer then Inl NoBuffer
      else if slot_size = 0 then Inl NoTensors
      else let pool_size = num_slots * slot_size
           in if \<not> init_ok then Inl PoolAlloc
              else if pool_base = Null then Inl PoolBaseNull
              else Inr (pool_new pool_size slot_size,
                        fold (\<lambda>(n, t) d. if sel n then hm_insert t pool_base d else d) (hb_tensor_ptrs c) data))"

definition max_expert_size :: "gguf_file \<Rightarrow> usize" where
  "max_expert_size gguf = list_max (map ti_size_bytes (filter (\<lambda>t. role_from_name (ti_name t) = MoeFusedExperts) (gf_tensors gguf)))"

definition activate_expert_pool :: "gguf_file \<Rightarrow> bool \<Rightarrow> bool \<Rightarrow> ptr \<Rightarrow> usize \<Rightarrow> buft_controller \<Rightarrow> (nat, ptr) hmap \<Rightarrow>
    activation_error + (expert_pool outcome \<times> (nat, ptr) hmap)" where
  "activate_expert_pool gguf = activate_pool (\<lambda>_. True) (max_expert_size gguf)"

text \<open>The dense pool also frees the loading scratch.\<close>

definition activate_dense_ffn_pool :: "gguf_file \<Rightarrow> bool \<Rightarrow> bool \<Rightarrow> ptr \<Rightarrow> usize \<Rightarrow> buft_controller \<Rightarrow> (nat, ptr) hmap \<Rightarrow>
    activation_error + (expert_pool outcome \<times> (nat, ptr) hmap \<times> buft_controller)" where
  "activate_dense_ffn_pool gguf buffer init_ok pool_base num_slots c data =
     (case activate_pool (\<lambda>n. is_ffn (role_from_name n)) (max_ffn_size gguf) buffer init_ok pool_base num_slots c data of
        Inl e \<Rightarrow> Inl e
      | Inr (p, d) \<Rightarrow> Inr (p, d, release_scratch c))"

section \<open>Override patterns\<close>

definition regex_special :: "char \<Rightarrow> bool" where
  "regex_special ch \<longleftrightarrow> ch \<in> set (''.*+?()[]{}|^$'' @ [CHR 92])"

definition regex_escape :: "string \<Rightarrow> string" where
  "regex_escape s = concat (map (\<lambda>ch. if regex_special ch then [CHR 92, ch] else [ch]) s)"

definition exact_pattern :: "string \<Rightarrow> string" where
  "exact_pattern name = ''^'' @ regex_escape name @ ''$''"

definition layer_pattern :: "u32 \<Rightarrow> string" where
  "layer_pattern l = ''^blk'' @ [CHR 92] @ ''.'' @ dec (unat l) @ [CHR 92] @ ''.''"

definition first_non_gpu_layer :: "i32 \<Rightarrow> u32" where
  "first_non_gpu_layer n_gpu_layers = (if 0 < sint n_gpu_layers then n_gpu_layers - 1 else 0)"

definition count_tensor :: "u32 \<Rightarrow> tensor_info \<Rightarrow> (u32, usize \<times> usize) hmap \<Rightarrow> (u32, usize \<times> usize) hmap" where
  "count_tensor start t m = (case ti_layer_index t of
      None \<Rightarrow> m
    | Some l \<Rightarrow> if l < start then m
        else (case unwrap_or (hm_get m l) (0, 0) of (non_gpu, tot) \<Rightarrow> hm_insert l (non_gpu + 1, tot + 1) m))"

text \<open>The list of patterns; the C code gets it with the buffer type, closed by a null entry.\<close>

definition build_override_patterns :: "placement_plan \<Rightarrow> gguf_file \<Rightarrow> i32 \<Rightarrow> string list" where
  "build_override_patterns plan gguf n_gpu_layers =
     (if pp_inference_mode plan = ExpertStreaming \<or> pp_inference_mode plan = DenseFfnStreaming
      then map (\<lambda>t. exact_pattern (ti_name t))
             (filter (\<lambda>t. hm_get (pp_tier_assignments plan) (ti_name t) = Some Nvme) (gf_tensors gguf))
      else let start = first_non_gpu_layer n_gpu_layers;
               layer_counts = fold (count_tensor start) (gf_tensors gguf) []
           in map (\<lambda>(l, _). layer_pattern l) (filter (\<lambda>(_, non_gpu, tot). non_gpu = tot \<and> 0 < non_gpu) layer_counts) @
              map (\<lambda>t. exact_pattern (ti_name t))
                (filter (\<lambda>t. case ti_layer_index t of
                     None \<Rightarrow> False
                   | Some l \<Rightarrow> \<not> l < start \<and> (case hm_get layer_counts l of None \<Rightarrow> False | Some (non_gpu, tot) \<Rightarrow> non_gpu < tot))
                  (gf_tensors gguf)))"

section \<open>Permutations\<close>

lemma length_invert_fold [simp]: "length (fold invert_step es iv) = length iv"
  by (induction es arbitrary: iv) (auto simp: invert_step_def)

lemma length_invert [simp]: "length (invert_permutation fwd) = length fwd"
  by (simp add: invert_permutation_def)

lemma invert_fold_other: "i \<notin> (\<lambda>e. unat (snd e)) ` set es \<Longrightarrow> fold invert_step es iv ! i = iv ! i"
  by (induction es arbitrary: iv) (auto simp: invert_step_def)

lemma invert_fold_at:
  assumes "distinct (map snd es)" "e \<in> set es" "unat (snd e) < length iv"
  shows "fold invert_step es iv ! unat (snd e) = of_nat (fst e)"
  using assms
proof (induction es arbitrary: iv)
  case (Cons d es)
  show ?case
  proof (cases "d = e")
    case True
    with Cons.prems(1) have "unat (snd e) \<notin> (\<lambda>e. unat (snd e)) ` set es"
      by (auto simp: image_iff simp flip: word_unat_eq_iff)
    moreover have "invert_step e iv ! unat (snd e) = of_nat (fst e)" using Cons.prems(3) by (simp add: invert_step_def)
    ultimately show ?thesis using True by (simp add: invert_fold_other)
  next
    case False
    with Cons show ?thesis by (auto simp: invert_step_def)
  qed
qed simp

lemma invert_at:
  assumes "is_perm n fwd" "p < n"
  shows "invert_permutation fwd ! unat (fwd ! p) = of_nat p"
proof -
  have "(p, fwd ! p) \<in> set (zip [0..<length fwd] fwd)"
    using assms by (auto simp: is_perm_def in_set_conv_nth intro!: exI [of _ p])
  moreover have "unat (fwd ! p) < length fwd" using assms by (auto simp: is_perm_def)
  ultimately show ?thesis
    using invert_fold_at [of "zip [0..<length fwd] fwd" "(p, fwd ! p)" "replicate (length fwd) 0"] assms(1)
    by (simp add: invert_permutation_def is_perm_def)
qed

lemma perm_onto:
  assumes "is_perm n fwd" "i < n"
  obtains p where "p < n" "unat (fwd ! p) = i"
proof -
  have "inj_on unat (set fwd)" by (auto intro!: inj_onI simp flip: word_unat_eq_iff)
  with assms have "card (unat ` set fwd) = n" by (simp add: card_image is_perm_def distinct_card)
  moreover have "unat ` set fwd \<subseteq> {..<n}" using assms(1) by (auto simp: is_perm_def)
  ultimately have "unat ` set fwd = {..<n}" by (intro card_subset_eq) auto
  with assms(2) obtain x where "x \<in> set fwd" "unat x = i" by (metis imageE lessThan_iff)
  with assms(1) that show ?thesis by (auto simp: in_set_conv_nth is_perm_def)
qed

lemma is_perm_invert:
  assumes "is_perm n fwd" "n < 2 ^ 32"
  shows "is_perm n (invert_permutation fwd)"
proof -
  have at: "unat (invert_permutation fwd ! i) < n \<and> unat (fwd ! unat (invert_permutation fwd ! i)) = i" if i: "i < n" for i
  proof -
    obtain p where p: "p < n" "unat (fwd ! p) = i" using perm_onto [OF assms(1) i] .
    have "unat (of_nat p :: u32) = p" using p(1) assms(2) by (simp add: unsigned_of_nat take_bit_nat_eq_self_iff)
    with invert_at [OF assms(1) p(1)] p show ?thesis by simp
  qed
  have len: "length (invert_permutation fwd) = n" using assms(1) by (simp add: is_perm_def)
  then have "inj_on (nth (invert_permutation fwd)) {..<n}" using at by (intro inj_onI) (metis lessThan_iff)
  with len have "distinct (invert_permutation fwd)" by (auto simp: distinct_conv_nth inj_on_def)
  with len at show ?thesis by (auto simp: is_perm_def in_set_conv_nth)
qed

section \<open>Properties of the patterns\<close>

text \<open>How a pattern without operators reads: a backslash quotes the next character, a plain
  character stands for itself, an unquoted operator is not literal.\<close>

fun literal_of :: "string \<Rightarrow> string option" where
  "literal_of [] = Some []"
| "literal_of [c] = (if regex_special c then None else Some [c])"
| "literal_of (c # d # s) =
     (if c = CHR 92 then map_option ((#) d) (literal_of s)
      else if regex_special c then None else map_option ((#) c) (literal_of (d # s)))"

lemma literal_of_plain: "\<not> regex_special c \<Longrightarrow> literal_of (c # s) = map_option ((#) c) (literal_of s)"
  by (cases s) (auto simp: regex_special_def)

lemma literal_of_quoted: "literal_of (CHR 92 # c # s) = map_option ((#) c) (literal_of s)"
  by simp

lemma regex_escape_Cons: "regex_escape (c # s) = (if regex_special c then CHR 92 # c # regex_escape s else c # regex_escape s)"
  by (simp add: regex_escape_def)

lemma literal_of_escape: "literal_of (regex_escape s) = Some s"
proof (induction s)
  case (Cons c s)
  then show ?case by (cases "regex_special c") (simp_all only: regex_escape_Cons if_True if_False literal_of_plain literal_of_quoted option.map not_False_eq_True)
qed (simp add: regex_escape_def)

lemma dec_not_special: "c \<in> set (dec n) \<Longrightarrow> \<not> regex_special c"
  by (drule is_digit_in_dec) (auto simp: regex_special_def is_digit_def)

lemma regex_escape_append: "regex_escape (a @ b) = regex_escape a @ regex_escape b"
  by (simp add: regex_escape_def)

lemma regex_escape_plain: "(\<And>c. c \<in> set s \<Longrightarrow> \<not> regex_special c) \<Longrightarrow> regex_escape s = s"
  by (induction s) (auto simp: regex_escape_def)

lemma layer_pattern_escape: "layer_pattern l = ''^'' @ regex_escape (''blk.'' @ dec (unat l) @ ''.'')"
proof -
  have "regex_escape (dec (unat l)) = dec (unat l)" by (rule regex_escape_plain) (rule dec_not_special)
  then show ?thesis by (simp add: layer_pattern_def regex_escape_append) (simp add: regex_escape_def regex_special_def)
qed

definition counts_ok :: "u32 \<Rightarrow> tensor_info list \<Rightarrow> (u32, usize \<times> usize) hmap \<Rightarrow> bool" where
  "counts_ok start ts m \<longleftrightarrow> (\<forall>l. hm_get m l =
     (let k = length (filter (\<lambda>t. ti_layer_index t = Some l) ts)
      in if l < start \<or> k = 0 then None else Some (of_nat k, of_nat k)))"

lemma counts_ok_step: "counts_ok start ts m \<Longrightarrow> counts_ok start (ts @ [t]) (count_tensor start t m)"
  by (auto simp: counts_ok_def count_tensor_def Let_def split: option.splits if_splits)

lemma counts_ok_fold: "counts_ok start ts m \<Longrightarrow> counts_ok start (ts @ us) (fold (count_tensor start) us m)"
proof (induction us arbitrary: ts m)
  case (Cons t us)
  from Cons.IH [OF counts_ok_step [OF Cons.prems]] show ?case by simp
qed simp

lemma counts_wf: "hm_wf m \<Longrightarrow> hm_wf (fold (count_tensor start) us m)"
  by (induction us arbitrary: m) (auto simp: count_tensor_def split: option.splits prod.splits)

lemma layer_counts_get:
  "hm_get (fold (count_tensor start) ts []) l =
     (let k = length (filter (\<lambda>t. ti_layer_index t = Some l) ts)
      in if l < start \<or> k = 0 then None else Some (of_nat k, of_nat k))"
  using counts_ok_fold [of start "[]" "[]" ts] by (simp add: counts_ok_def)

lemma layer_count_pos:
  assumes "length ts < 2 ^ 64" "t \<in> set ts" "P t"
  shows "0 < (of_nat (length (filter P ts)) :: usize)"
proof -
  have "length (filter P ts) < 2 ^ 64" using assms(1) length_filter_le [of P ts] by linarith
  moreover have "filter P ts \<noteq> []" using assms(2,3) by (auto simp: filter_empty_conv)
  ultimately show ?thesis using take_bit_nat_eq_self_iff [of 64 "length (filter P ts)"]
    by (simp add: word_less_nat_alt unsigned_of_nat)
qed

lemma image_full_entries:
  assumes "\<And>l g h. (l, g, h) \<in> set m \<and> g = h \<and> 0 < g \<longleftrightarrow> Q l \<and> g = c l \<and> h = c l"
  shows "(\<lambda>(l, _). f l) ` set (filter (\<lambda>(_, g, h). g = h \<and> 0 < g) m) = {f l | l. Q l}"
proof -
  have "set (filter (\<lambda>(_, g, h). g = h \<and> 0 < g) m) = (\<lambda>l. (l, c l, c l)) ` {l. Q l}"
    using assms by (auto simp: image_iff)
  then show ?thesis by auto
qed

lemma override_patterns_set:
  assumes "length (gf_tensors gguf) < 2 ^ 64"
  shows "set (build_override_patterns plan gguf n) =
    (if pp_inference_mode plan = ExpertStreaming \<or> pp_inference_mode plan = DenseFfnStreaming
     then {exact_pattern (ti_name t) | t. t \<in> set (gf_tensors gguf) \<and> hm_get (pp_tier_assignments plan) (ti_name t) = Some Nvme}
     else {layer_pattern l | l t. t \<in> set (gf_tensors gguf) \<and> ti_layer_index t = Some l \<and> first_non_gpu_layer n \<le> l})"
proof (cases "pp_inference_mode plan = ExpertStreaming \<or> pp_inference_mode plan = DenseFfnStreaming")
  case True
  then show ?thesis by (auto simp: build_override_patterns_def)
next
  case False
  let ?ts = "gf_tensors gguf" and ?start = "first_non_gpu_layer n"
  let ?counts = "fold (count_tensor ?start) ?ts []"
  have none: "filter (\<lambda>t. case ti_layer_index t of None \<Rightarrow> False
       | Some l \<Rightarrow> \<not> l < ?start \<and> (case hm_get ?counts l of None \<Rightarrow> False | Some (non_gpu, tot) \<Rightarrow> non_gpu < tot)) ?ts = []"
    by (auto simp: filter_empty_conv layer_counts_get Let_def split: option.splits if_splits)
  have wf: "distinct (map fst ?counts)" using counts_wf [of "[]"] by (simp add: hm_wf_def)
  let ?k = "\<lambda>l. length (filter (\<lambda>t. ti_layer_index t = Some l) ?ts)"
  have k: "?k l \<noteq> 0 \<longleftrightarrow> (\<exists>t. t \<in> set ?ts \<and> ti_layer_index t = Some l)" for l by (auto simp: filter_empty_conv)
  have pos: "?k l \<noteq> 0 \<Longrightarrow> 0 < (of_nat (?k l) :: usize)" for l
    unfolding k using layer_count_pos [OF assms, where P = "\<lambda>t. ti_layer_index t = Some l"] by blast
  have "(l, g, h) \<in> set ?counts \<and> g = h \<and> 0 < g \<longleftrightarrow>
      (\<not> l < ?start \<and> ?k l \<noteq> 0) \<and> g = of_nat (?k l) \<and> h = of_nat (?k l)" for l g h
    unfolding map_of_eq_Some_iff [OF wf, symmetric] layer_counts_get Let_def using pos [of l] by (auto split: if_splits)
  from image_full_entries [OF this, of layer_pattern]
  have "(\<lambda>(l, _). layer_pattern l) ` set (filter (\<lambda>(_, non_gpu, tot). non_gpu = tot \<and> 0 < non_gpu) ?counts) =
      {layer_pattern l | l. \<not> l < ?start \<and> ?k l \<noteq> 0}" .
  also have "\<dots> = {layer_pattern l | l t. t \<in> set ?ts \<and> ti_layer_index t = Some l \<and> ?start \<le> l}"
    unfolding k not_less by blast
  finally have "(\<lambda>(l, _). layer_pattern l) ` set (filter (\<lambda>(_, non_gpu, tot). non_gpu = tot \<and> 0 < non_gpu) ?counts) =
      {layer_pattern l | l t. t \<in> set ?ts \<and> ti_layer_index t = Some l \<and> ?start \<le> l}" .
  with False none show ?thesis by (simp add: build_override_patterns_def Let_def)
qed

text \<open>The override patterns say exactly which tensors live in the streaming buffer.  In the two
  streaming modes they are the escaped names of the tensors the plan puts on NVMe, one each,
  in file order; otherwise they are one prefix pattern for each layer that has a tensor and
  is not below the first layer that is not on the GPU.\<close>

theorem override_patterns_exact:
  assumes "length (gf_tensors gguf) < 2 ^ 64"
  shows "set (build_override_patterns plan gguf n) =
    (if pp_inference_mode plan = ExpertStreaming \<or> pp_inference_mode plan = DenseFfnStreaming
     then {exact_pattern (ti_name t) | t. t \<in> set (gf_tensors gguf) \<and> hm_get (pp_tier_assignments plan) (ti_name t) = Some Nvme}
     else {layer_pattern l | l t. t \<in> set (gf_tensors gguf) \<and> ti_layer_index t = Some l \<and> first_non_gpu_layer n \<le> l})"
  using override_patterns_set [OF assms] .

text \<open>A pattern matches the tensor it was made for and no other text: reading an escaped name
  back, with every quoted operator standing for itself, gives the name, whatever characters
  it has; and a layer pattern is the escaped text of the layer's name prefix.\<close>

theorem pattern_is_literal:
  "literal_of (regex_escape s) = Some s \<and> exact_pattern s = ''^'' @ regex_escape s @ ''$'' \<and>
   (\<exists>p. layer_pattern l = ''^'' @ p \<and> literal_of p = Some (''blk.'' @ dec (unat l) @ ''.''))"
  by (auto simp: literal_of_escape exact_pattern_def layer_pattern_escape)

end
