(* ===== verification/Model_Loading.thy ===== *)
theory Model_Loading
  imports Buft_Controller Loading_Correct
begin

text \<open>
  From the loading of a model to its computation: the tensors llama.cpp reports to the buffer
  callbacks, the layer regions \<open>build_prefetch_state\<close> makes of them, and the protocol of
  \<open>Layer_Protocol\<close> started on the result.
\<close>

section \<open>The callbacks\<close>

type_synonym load_call = "string \<times> usize \<times> usize \<times> ptr"

definition load_calls :: "load_call list \<Rightarrow> buft_controller \<Rightarrow> buft_controller" where
  "load_calls calls c = fold (\<lambda>(n, off, sz, b). on_tensor_loaded n off sz b) calls c"

definition reported :: "load_call \<Rightarrow> string \<times> tensor_location" where
  "reported = (\<lambda>(n, off, sz, b). (n, \<lparr>tl_offset_in_buffer = off, tl_size = sz, tl_file_offset = 0, tl_layer_index = None\<rparr>))"

lemma fst_reported [simp]: "fst (reported e) = fst e"
  by (simp add: reported_def case_prod_unfold)

lemma update_fresh: "k \<notin> set (map fst m) \<Longrightarrow> AList.update k v m = m @ [(k, v)]"
  by (induction m) auto

lemma load_calls_map:
  assumes "distinct (map fst calls)" "[] \<notin> set (map fst calls)" "set (map fst calls) \<inter> set (map fst (hb_tensor_map c)) = {}"
  shows "hb_tensor_map (load_calls calls c) = hb_tensor_map c @ map reported calls \<and>
    hb_gguf_data_offset (load_calls calls c) = hb_gguf_data_offset c"
  using assms
proof (induction calls arbitrary: c)
  case (Cons e calls)
  obtain n off sz b where e: "e = (n, off, sz, b)" by (cases e)
  let ?c = "on_tensor_loaded n off sz b c"
  have c: "hb_tensor_map ?c = hb_tensor_map c @ [reported e]" "hb_gguf_data_offset ?c = hb_gguf_data_offset c"
    using Cons.prems(2,3) by (auto simp: on_tensor_loaded_def e reported_def Let_def update_fresh)
  with Cons.IH [of ?c] Cons.prems show ?case by (auto simp: load_calls_def e)
qed (simp add: load_calls_def)

lemma load_calls_base:
  assumes "\<forall>e \<in> set calls. snd (snd (snd e)) = base" "base \<noteq> Null" "calls \<noteq> [] \<or> hb_buffer_base c = base"
  shows "hb_buffer_base (load_calls calls c) = base"
  using assms
proof (induction calls arbitrary: c)
  case (Cons e calls)
  then have "hb_buffer_base (on_tensor_loaded (fst e) (fst (snd e)) (fst (snd (snd e))) base c) = base"
    by (simp add: on_tensor_loaded_def Let_def)
  with Cons show ?case by (auto simp: load_calls_def case_prod_unfold)
qed (simp add: load_calls_def)

section \<open>The layer regions\<close>

definition located :: "u64 \<Rightarrow> tensor_info \<Rightarrow> tensor_location \<Rightarrow> tensor_location" where
  "located data_offset t loc = loc\<lparr>tl_file_offset := data_offset + ti_offset t, tl_layer_index := ti_layer_index t\<rparr>"

definition locate_one :: "u64 \<Rightarrow> tensor_info \<Rightarrow> string \<times> tensor_location \<Rightarrow> string \<times> tensor_location" where
  "locate_one data_offset t e = (if fst e = ti_name t then (fst e, located data_offset t (snd e)) else e)"

lemma no_update: "k \<notin> fst ` set m \<Longrightarrow> map (\<lambda>e. if fst e = k then (fst e, f (snd e)) else e) m = m"
  by (induction m) (auto split: if_splits)

lemma update_in_place:
  "distinct (map fst m) \<Longrightarrow> hm_get m k = Some v \<Longrightarrow>
   AList.update k (f v) m = map (\<lambda>e. if fst e = k then (fst e, f (snd e)) else e) m"
proof (induction m)
  case (Cons e m)
  then show ?case by (cases "fst e = k") (simp_all add: no_update [of k m f] prod_eq_iff)
qed simp

lemma locate_alt: "distinct (map fst m) \<Longrightarrow> locate d ts m = fold (\<lambda>t. map (locate_one d t)) ts m"
proof (induction ts arbitrary: m)
  case (Cons t ts)
  let ?m = "case hm_get m (ti_name t) of None \<Rightarrow> m
    | Some loc \<Rightarrow> hm_insert (ti_name t) (loc\<lparr>tl_file_offset := d + ti_offset t, tl_layer_index := ti_layer_index t\<rparr>) m"
  have m: "?m = map (locate_one d t) m"
  proof (cases "hm_get m (ti_name t)")
    case None
    with no_update [of "ti_name t" m "located d t"] have "map (locate_one d t) m = m"
      by (simp add: locate_one_def [abs_def] map_of_eq_None_iff)
    then show ?thesis by (simp only: None option.case)
  next
    case (Some loc)
    with update_in_place [OF Cons.prems Some, of "located d t"] show ?thesis by (simp add: locate_one_def [abs_def] located_def)
  qed
  have "distinct (map fst (map (locate_one d t) m))"
    using Cons.prems by (simp add: locate_one_def comp_def if_distrib cong: if_cong)
  from Cons.IH [OF this] show ?case by (simp add: locate_def m)
qed (simp add: locate_def)

lemma fold_map: "fold (\<lambda>t. map (f t)) ts xs = map (fold f ts) xs"
  by (induction ts arbitrary: xs) auto

lemma locate_map: "distinct (map fst m) \<Longrightarrow> locate d ts m = map (fold (locate_one d) ts) m"
  by (simp add: locate_alt fold_map)

lemma locate_entry:
  assumes "distinct (map ti_name ts)"
  shows "fold (locate_one d) ts e = (case filter (\<lambda>t. ti_name t = fst e) ts of [] \<Rightarrow> e | t # _ \<Rightarrow> (fst e, located d t (snd e)))"
  using assms
proof (induction ts arbitrary: e)
  case (Cons t ts)
  have f: "fst (locate_one d t e) = fst e" by (simp add: locate_one_def)
  show ?case
  proof (cases "ti_name t = fst e")
    case True
    with Cons.prems have "filter (\<lambda>t. ti_name t = fst e) ts = []" by (force simp: filter_empty_conv)
    with Cons f True show ?thesis by (simp add: locate_one_def)
  next
    case False
    with Cons show ?thesis by (simp add: locate_one_def)
  qed
qed simp

lemma mset_push_entry: "mset (concat (map snd (push_entry k v m))) = add_mset v (mset (concat (map snd m)))"
  by (induction m) (auto simp: push_entry_def)

lemma hm_get_push_entry: "hm_get (push_entry k v m) l = (if l = k then Some (unwrap_or (hm_get m k) [] @ [v]) else hm_get m l)"
  by (simp add: push_entry_def)

definition of_layer :: "u32 \<Rightarrow> tensor_location list \<Rightarrow> region list" where
  "of_layer l locs = map loc_region (filter (\<lambda>loc. tl_layer_index loc = Some l) locs)"

definition group_step :: "tensor_location \<Rightarrow> (u32, region list) hmap \<Rightarrow> (u32, region list) hmap" where
  "group_step loc m = (case tl_layer_index loc of None \<Rightarrow> m | Some l \<Rightarrow> push_entry l (loc_region loc) m)"

lemma group_alt: "group_by_layer locs = fold group_step locs []"
  by (simp add: group_by_layer_def group_step_def [abs_def])

lemma mset_group_fold:
  "mset (concat (map snd (fold group_step locs m))) =
   mset (concat (map snd m)) + mset (map loc_region (filter (\<lambda>loc. tl_layer_index loc \<noteq> None) locs))"
  by (induction locs arbitrary: m) (auto simp: group_step_def mset_push_entry split: option.splits simp del: mset_concat mset_map)

lemma get_group_fold:
  "unwrap_or (hm_get (fold group_step locs m) l) [] = unwrap_or (hm_get m l) [] @ of_layer l locs"
  by (induction locs arbitrary: m) (auto simp: group_step_def of_layer_def hm_get_push_entry split: option.splits)

lemma mset_concat_sort_regions: "mset (concat (map snd (sort_regions m))) = mset (concat (map snd m))"
  by (induction m) (auto simp: sort_regions_def)

lemma hm_get_sort_regions: "hm_get (sort_regions m) l = map_option (sort_by (\<lambda>a b. snd (snd a) \<le> snd (snd b))) (hm_get m l)"
  by (simp add: sort_regions_def map_of_map)

lemma apart_perm:
  assumes "sorted_wrt apart xs" "mset ys \<subseteq># mset xs" shows "sorted_wrt apart ys"
  using assms
proof (induction ys arbitrary: xs)
  case (Cons y ys)
  have sub: "mset ys \<subseteq># mset xs - {#y#}" and "y \<in># mset xs"
    using Cons.prems(2) by (simp_all add: insert_subset_eq_iff)
  then have "y \<in> set xs" by simp
  then obtain as bs where xs: "xs = as @ y # bs" by (meson split_list)
  have "sorted_wrt apart (as @ bs)" using Cons.prems(1) by (simp add: xs sorted_wrt_append)
  moreover have "mset ys \<subseteq># mset (as @ bs)" using sub by (simp add: xs)
  ultimately have "sorted_wrt apart ys" by (rule Cons.IH)
  moreover have "apart y z" if "z \<in> set (as @ bs)" for z
    using that Cons.prems(1) apart_sym [of z y] by (auto simp: xs sorted_wrt_append)
  moreover have "set ys \<subseteq> set (as @ bs)" using set_mset_mono [OF \<open>mset ys \<subseteq># mset (as @ bs)\<close>] by simp
  ultimately show ?case by auto
qed simp

lemma set_of_layer: "r \<in> set (of_layer l locs) \<longleftrightarrow> (\<exists>loc \<in> set locs. tl_layer_index loc = Some l \<and> r = loc_region loc)"
  by (auto simp: of_layer_def)

definition regions_of :: "tensor_location list \<Rightarrow> (u32, region list) hmap" where
  "regions_of locs = sort_regions (group_by_layer locs)"

lemma regions_of_get: "loc \<in> set locs \<Longrightarrow> tl_layer_index loc = Some l \<Longrightarrow>
    \<exists>rs. hm_get (regions_of locs) l = Some rs \<and> loc_region loc \<in> set rs"
  using get_group_fold [of locs "[]" l] set_of_layer [of "loc_region loc" l locs]
  by (cases "hm_get (group_by_layer locs) l") (auto simp: regions_of_def hm_get_sort_regions group_alt)

lemma regions_of_mset: "mset (concat (map snd (regions_of locs))) \<subseteq># mset (map loc_region locs)"
  by (simp add: regions_of_def mset_concat_sort_regions group_alt mset_group_fold image_mset_subseteq_mono del: mset_concat mset_map)
     (simp add: image_mset_subseteq_mono mset_filter)

lemma no_expert_layouts: "lm_expert_layouts (build_layouts 0 perms m ts) = []"
proof -
  have "lm_expert_layouts (fold (add_layout 0 perms m) ts lm) = lm_expert_layouts lm" for lm
    by (induction ts arbitrary: lm) (auto simp: add_layout_def Let_def split: option.splits)
  then show ?thesis by (simp add: build_layouts_def Let_def)
qed

section \<open>The built state\<close>

definition call_region :: "u64 \<Rightarrow> load_call \<Rightarrow> tensor_info \<Rightarrow> region" where
  "call_region data_offset e t = (fst (snd e), fst (snd (snd e)), data_offset + ti_offset t)"

text \<open>The loads reported for a model: every name once, one non-null buffer, no two tensors sharing
  a byte of it, and every tensor's data inside the file.\<close>

definition loads_ok :: "u8 list \<Rightarrow> gguf_file \<Rightarrow> ptr \<Rightarrow> load_call list \<Rightarrow> bool" where
  "loads_ok file gguf base calls \<longleftrightarrow>
     distinct (map fst calls) \<and> [] \<notin> set (map fst calls) \<and> calls \<noteq> [] \<and> base \<noteq> Null \<and>
     list_all (\<lambda>e. snd (snd (snd e)) = base) calls \<and>
     sorted_wrt apart (map (\<lambda>e. (fst (snd e), fst (snd (snd e)), 0)) calls) \<and>
     distinct (map ti_name (gf_tensors gguf)) \<and>
     list_all (\<lambda>t. list_all (\<lambda>e. fst e = ti_name t \<longrightarrow> in_file file (call_region (gf_data_offset gguf) e t)) calls) (gf_tensors gguf)"

definition dense_gguf :: "gguf_file \<Rightarrow> bool" where
  "dense_gguf gguf \<longleftrightarrow> unwrap_or (get_u32 gguf ''expert_count'') 0 = 0"

abbreviation tensor_map_of :: "gguf_file \<Rightarrow> load_call list \<Rightarrow> (string, tensor_location) hmap" where
  "tensor_map_of gguf calls \<equiv> locate (gf_data_offset gguf) (gf_tensors gguf) (map reported calls)"

lemma tensor_map_entry:
  assumes "loads_ok file gguf base calls"
  shows "tensor_map_of gguf calls = map (\<lambda>e. case filter (\<lambda>t. ti_name t = fst e) (gf_tensors gguf) of
      [] \<Rightarrow> reported e | t # _ \<Rightarrow> (fst e, located (gf_data_offset gguf) t (snd (reported e)))) calls"
proof -
  have "distinct (map fst (map reported calls))" using assms by (simp add: loads_ok_def comp_def)
  moreover have "distinct (map ti_name (gf_tensors gguf))" using assms by (simp add: loads_ok_def)
  ultimately show ?thesis by (simp add: locate_map locate_entry comp_def cong: list.case_cong)
qed

lemma located_region: "loc_region (located d t (snd (reported e))) = call_region d e t"
  by (simp add: loc_region_def located_def reported_def call_region_def case_prod_unfold)

lemma tensor_map_apart:
  assumes "loads_ok file gguf base calls"
  shows "sorted_wrt apart (map loc_region (map snd (tensor_map_of gguf calls)))"
proof -
  let ?f = "\<lambda>e. loc_region (snd (case filter (\<lambda>t. ti_name t = fst e) (gf_tensors gguf) of
      [] \<Rightarrow> reported e | t # _ \<Rightarrow> (fst e, located (gf_data_offset gguf) t (snd (reported e)))))"
  have f: "fst (?f e) = fst (snd e) \<and> fst (snd (?f e)) = fst (snd (snd e))" for e
    by (auto simp: loc_region_def located_def reported_def case_prod_unfold split: list.splits)
  have "apart (?f e) (?f e') = apart (fst (snd e), fst (snd (snd e)), 0) (fst (snd e'), fst (snd (snd e')), 0)" for e e'
    using f [of e] f [of e'] by (cases "?f e"; cases "?f e'") simp
  moreover have "sorted_wrt (\<lambda>e e'. apart (fst (snd e), fst (snd (snd e)), 0) (fst (snd e'), fst (snd (snd e')), 0)) calls"
    using assms by (simp add: loads_ok_def sorted_wrt_map)
  ultimately have "sorted_wrt (\<lambda>e e'. apart (?f e) (?f e')) calls" by simp
  then show ?thesis by (simp add: tensor_map_entry [OF assms] sorted_wrt_map)
qed

lemma tensor_map_layered:
  assumes "loads_ok file gguf base calls" "loc \<in> set (map snd (tensor_map_of gguf calls))" "tl_layer_index loc \<noteq> None"
  shows "in_file file (loc_region loc)"
proof -
  obtain e where e: "e \<in> set calls" "loc = snd (case filter (\<lambda>t. ti_name t = fst e) (gf_tensors gguf) of
      [] \<Rightarrow> reported e | t # _ \<Rightarrow> (fst e, located (gf_data_offset gguf) t (snd (reported e))))"
    using assms(2) by (auto simp: tensor_map_entry [OF assms(1)])
  show ?thesis
  proof (cases "filter (\<lambda>t. ti_name t = fst e) (gf_tensors gguf)")
    case Nil
    with e(2) assms(3) show ?thesis by (simp add: reported_def case_prod_unfold)
  next
    case (Cons t ts)
    then have "t \<in> set (filter (\<lambda>t. ti_name t = fst e) (gf_tensors gguf))" by simp
    then have "t \<in> set (gf_tensors gguf)" "ti_name t = fst e" by simp_all
    with assms(1) e(1) have "in_file file (call_region (gf_data_offset gguf) e t)" by (auto simp: loads_ok_def list_all_iff)
    with e(2) Cons show ?thesis by (simp add: located_region)
  qed
qed

lemma filter_name: "distinct (map ti_name ts) \<Longrightarrow> t \<in> set ts \<Longrightarrow> filter (\<lambda>u. ti_name u = ti_name t) ts = [t]"
proof (induction ts)
  case (Cons u ts)
  show ?case
  proof (cases "u = t")
    case True
    with Cons.prems(1) have "ti_name v \<noteq> ti_name t" if "v \<in> set ts" for v using that
      by (metis distinct.simps(2) image_eqI list.simps(9) list.set_map)
    with True show ?thesis by (simp add: filter_empty_conv)
  next
    case False
    with Cons.prems have "ti_name u \<noteq> ti_name t" by force
    with False Cons show ?thesis by simp
  qed
qed simp

lemma tensor_map_mem:
  assumes "loads_ok file gguf base calls" "e \<in> set calls" "t \<in> set (gf_tensors gguf)" "ti_name t = fst e"
  shows "located (gf_data_offset gguf) t (snd (reported e)) \<in> set (map snd (tensor_map_of gguf calls))"
proof -
  have "distinct (map ti_name (gf_tensors gguf))" using assms(1) by (simp add: loads_ok_def)
  then have "filter (\<lambda>u. ti_name u = fst e) (gf_tensors gguf) = [t]"
    using filter_name [OF _ assms(3)] assms(4) by simp
  with assms(2) show ?thesis by (force simp: tensor_map_entry [OF assms(1)])
qed

lemma built_config:
  assumes "loads_ok file gguf base calls" "dense_gguf gguf"
    "build_prefetch_state gguf n nvme perms saved mm data (load_calls calls (hb_new gguf)) = (cfg, s0)"
  shows "pc_expert_layouts cfg = []" "pc_layer_regions cfg = regions_of (map snd (tensor_map_of gguf calls))"
    "ps_buffer_base s0 = base" "ps_current_layer s0 = -1" "ps_completions s0 = []"
    "list_all (\<lambda>(l, st). st = NotLoaded) (ps_layer_status s0)"
proof -
  have m: "hb_tensor_map (load_calls calls (hb_new gguf)) = map reported calls"
    "hb_gguf_data_offset (load_calls calls (hb_new gguf)) = gf_data_offset gguf"
    using load_calls_map [of calls "hb_new gguf"] assms(1) by (simp_all add: loads_ok_def hb_new_def)
  have b: "hb_buffer_base (load_calls calls (hb_new gguf)) = base"
    using load_calls_base [of calls base] assms(1) by (simp add: loads_ok_def list_all_iff)
  have num: "unwrap_or (get_u32 gguf ''expert_count'') 0 = 0" using assms(2) by (simp add: dense_gguf_def)
  show "pc_expert_layouts cfg = []" "pc_layer_regions cfg = regions_of (map snd (tensor_map_of gguf calls))"
    "ps_buffer_base s0 = base" "ps_current_layer s0 = -1" "ps_completions s0 = []"
    "list_all (\<lambda>(l, st). st = NotLoaded) (ps_layer_status s0)"
    using assms(3) by (auto simp: build_prefetch_state_def Let_def m b num no_expert_layouts regions_of_def list_all_iff)
qed

lemma built_layout:
  assumes "loads_ok file gguf base calls" "dense_gguf gguf"
    "build_prefetch_state gguf n nvme perms saved mm data (load_calls calls (hb_new gguf)) = (cfg, s0)"
  shows "dense_layout file cfg"
proof -
  let ?locs = "map snd (tensor_map_of gguf calls)"
  have cfg: "pc_expert_layouts cfg = []" "pc_layer_regions cfg = regions_of ?locs" using built_config [OF assms] by simp_all
  have mset: "mset (concat (map snd (regions_of ?locs))) = mset (map loc_region (filter (\<lambda>loc. tl_layer_index loc \<noteq> None) ?locs))"
    unfolding regions_of_def by (simp only: mset_concat_sort_regions group_alt mset_group_fold) simp
  have "sorted_wrt apart (concat (map snd (regions_of ?locs)))"
    by (rule apart_perm [OF tensor_map_apart [OF assms(1)] regions_of_mset])
  moreover have "in_file file r" if "r \<in> set (concat (map snd (regions_of ?locs)))" for r
  proof -
    have "set (concat (map snd (regions_of ?locs))) = loc_region ` set (filter (\<lambda>loc. tl_layer_index loc \<noteq> None) ?locs)"
      using arg_cong [OF mset, of set_mset] by (simp only: set_mset_mset set_map)
    from that [unfolded this] obtain loc where "loc \<in> set ?locs" "tl_layer_index loc \<noteq> None" "r = loc_region loc" by auto
    then show ?thesis using tensor_map_layered [OF assms(1)] by blast
  qed
  ultimately show ?thesis using cfg by (simp add: dense_layout_def list_all_iff)
qed

lemma built_initial:
  assumes "loads_ok file gguf base calls" "dense_gguf gguf"
    "build_prefetch_state gguf n nvme perms saved mm data (load_calls calls (hb_new gguf)) = (cfg, s0)"
    "start_io_pool opens w s0 = Some s1" "0 < w"
  shows "initial base s1"
  using built_config [OF assms(1-3)] assms(4,5)
  by (auto simp: start_io_pool_def initial_def list_all_iff split: if_splits)


section \<open>A concrete model\<close>

definition demo_tensor :: "string \<Rightarrow> u64 \<Rightarrow> u64 \<Rightarrow> tensor_info" where
  "demo_tensor name off sz = \<lparr>ti_name = name, ti_dimensions = [sz], ti_dtype = Q8_0, ti_offset = off,
     ti_size_bytes = sz, ti_layer_index = parse_layer_index name\<rparr>"

definition demo_gguf :: gguf_file where
  "demo_gguf = \<lparr>gf_version = 3, gf_metadata = [], gf_tensors = [demo_tensor ''blk.0.attn_q.weight'' 0 2, demo_tensor ''blk.1.attn_q.weight'' 2 3], gf_data_offset = 1\<rparr>"

definition demo_calls :: "load_call list" where
  "demo_calls = [(''blk.1.attn_q.weight'', 0, 3, Ptr 0 100), (''blk.0.attn_q.weight'', 8, 2, Ptr 0 100)]"

lemma demo_loads: "loads_ok demo_file demo_gguf (Ptr 0 100) demo_calls"
  by (simp add: loads_ok_def demo_calls_def demo_gguf_def demo_tensor_def demo_file_def in_file_def call_region_def)

lemma demo_dense: "dense_gguf demo_gguf"
  by (simp add: dense_gguf_def get_u32_def get_string_def demo_gguf_def)

definition demo_built :: "prefetch_config \<times> prefetch_state" where
  "demo_built = build_prefetch_state demo_gguf 2 [0, 1] [] None (\<lambda>_. None) [] (load_calls demo_calls (hb_new demo_gguf))"

lemma demo_built_run:
  "\<exists>s1 s. start_io_pool True 1 (snd demo_built) = Some s1 \<and> ensure_layer_loaded (fst demo_built) demo_env 1 s1 = Some s"
proof -
  have "(case start_io_pool True 1 (snd demo_built) of None \<Rightarrow> False | Some s1 \<Rightarrow>
     (case ensure_layer_loaded (fst demo_built) demo_env 1 s1 of None \<Rightarrow> False | Some s \<Rightarrow> True))" by code_simp
  then show ?thesis by (auto split: option.splits)
qed


definition demo_plan :: placement_plan where
  "demo_plan = \<lparr>pp_model_id = ''demo'', pp_hardware_profile_hash = [], pp_tier_assignments = [(''blk.1.attn_q.weight'', Nvme)],
     pp_prefetch_schedule = \<lparr>ps_layer_prefetches = []\<rparr>, pp_estimated_tok_per_sec = Fin 1, pp_estimated_time_to_first_token = Fin 1,
     pp_kv_cache_plan = \<lparr>kp_hot_window_tokens = 0, kp_warm_window_tokens = 0, kp_hot_tier = Gpu, kp_warm_tier = Ram,
       kp_hot_bytes = 0, kp_warm_bytes = 0, kp_kv_quantization = None\<rparr>,
     pp_experience_tier = Fast, pp_inference_mode = FullStreaming\<rparr>"

theorem override_patterns_exact_witness:
  "set (build_override_patterns demo_plan demo_gguf 2) = {layer_pattern 1}"
proof -
  have "ti_layer_index (demo_tensor ''blk.0.attn_q.weight'' 0 2) = Some 0" "ti_layer_index (demo_tensor ''blk.1.attn_q.weight'' 2 3) = Some 1"
    "first_non_gpu_layer 2 = 1" by code_simp+
  with override_patterns_exact [of demo_gguf demo_plan 2] show ?thesis
    by (auto simp: demo_gguf_def demo_plan_def)
qed

end
