(* ===== verification/Optimize.thy ===== *)
theory Optimize
  imports Model_Loading
begin

text \<open>
  Model of \<open>hypura optimize\<close> (\<open>src/cli/optimize.rs\<close>): the order of the experts computed from the
  co-activation counts, the rewriting of the fused tensors in a copy of the model file, and
  the permutations saved beside it.  A file is the list of its bytes; the co-activation file
  is an argument (\<open>None\<close> when it cannot be loaded); paths and messages are left out.
\<close>

section \<open>Order of the experts\<close>

text \<open>\<open>max_by_key\<close> over a key that may panic.\<close>

fun with_keys :: "('a \<Rightarrow> 'b outcome) \<Rightarrow> 'a list \<Rightarrow> ('a \<times> 'b) list outcome" where
  "with_keys f [] = Ret []"
| "with_keys f (x # xs) = obind (f x) (\<lambda>v. omap (\<lambda>rest. (x, v) # rest) (with_keys f xs))"

definition argmax :: "(nat \<Rightarrow> u32 outcome) \<Rightarrow> nat list \<Rightarrow> nat outcome" where
  "argmax f xs = omap (\<lambda>kvs. unwrap_or (map_option fst (max_by_key snd kvs)) 0) (with_keys f xs)"

definition count_at :: "u32 list list \<Rightarrow> nat \<Rightarrow> nat \<Rightarrow> u32 outcome" where
  "count_at plane a b = obind (at_index plane a) (\<lambda>row. at_index row b)"

fun visit_nearest :: "u32 list list \<Rightarrow> nat \<Rightarrow> nat \<Rightarrow> bool list \<Rightarrow> u32 list \<Rightarrow> u32 list outcome" where
  "visit_nearest plane ne 0 visited order = Ret order"
| "visit_nearest plane ne (Suc k) visited order =
     (let current = unat (last order)
      in obind (argmax (count_at plane current) (filter (\<lambda>e. \<not> visited ! e) [0..<ne])) (\<lambda>nxt.
           visit_nearest plane ne k (visited[nxt := True]) (order @ [of_nat nxt])))"

definition compute_optimal_expert_order :: "coactivation \<Rightarrow> u32 \<Rightarrow> u32 \<Rightarrow> u32 list outcome" where
  "compute_optimal_expert_order co layer num_experts =
     (let ne = unat num_experts; l = unat layer; counts = ca_layer_counts co
      in if length counts \<le> l \<or> ne = 0 then Ret (map of_nat [0..<ne])
         else let plane = counts ! l
              in obind (argmax (\<lambda>e. count_at plane e e) [0..<ne]) (\<lambda>start.
                   visit_nearest plane ne (ne - 1) ((replicate ne False)[start := True]) [of_nat start]))"

section \<open>Rewriting a tensor\<close>

definition slice_of :: "u8 list \<Rightarrow> usize \<Rightarrow> usize \<Rightarrow> u8 list outcome" where
  "slice_of xs a b = (if a \<le> b \<and> unat b \<le> length xs then Ret (take (unat b - unat a) (drop (unat a) xs)) else Panic)"

definition copy_into :: "u8 list \<Rightarrow> usize \<Rightarrow> usize \<Rightarrow> u8 list \<Rightarrow> u8 list outcome" where
  "copy_into xs a b seg =
     (if a \<le> b \<and> unat b \<le> length xs \<and> length seg = unat b - unat a
      then Ret (take (unat a) xs @ seg @ drop (unat b) xs) else Panic)"

fun place_experts :: "usize \<Rightarrow> u8 list \<Rightarrow> (nat \<times> u32) list \<Rightarrow> u8 list \<Rightarrow> u8 list outcome" where
  "place_experts stride original [] reordered = Ret reordered"
| "place_experts stride original ((new_pos, old_expert) # es) reordered =
     (let src_start = ucast old_expert * stride; dst_start = of_nat new_pos * stride
      in obind (slice_of original src_start (src_start + stride)) (\<lambda>seg.
           obind (copy_into reordered dst_start (dst_start + stride) seg) (place_experts stride original es)))"

definition byte_sum :: "u8 list \<Rightarrow> u64" where
  "byte_sum bs = sum_list (map ucast bs)"

datatype optimize_error = NoCoactivationData | InsufficientData | NotMoe | NoFusedTensors | FileTooShort | ChecksumMismatch

definition reorder_experts :: "usize \<Rightarrow> u32 list \<Rightarrow> u8 list \<Rightarrow> u8 list outcome" where
  "reorder_experts stride perm original =
     place_experts stride original (zip [0..<length perm] perm) (replicate (length original) 0)"

definition rewrite_tensor :: "u64 \<Rightarrow> u32 \<Rightarrow> u32 list \<Rightarrow> tensor_info \<Rightarrow> u8 list \<Rightarrow> (optimize_error + u8 list) outcome" where
  "rewrite_tensor data_offset num_experts perm t disk =
     (let stride = ti_size_bytes t div ucast num_experts;
          abs_offset = unat (data_offset + ti_offset t);
          n = unat (ti_size_bytes t)
      in if length disk < abs_offset + n then Ret (Inl FileTooShort)
         else let original = take n (drop abs_offset disk)
              in omap (\<lambda>reordered. if byte_sum original \<noteq> byte_sum reordered then Inl ChecksumMismatch
                       else Inr (take abs_offset disk @ reordered @ drop (abs_offset + n) disk))
                   (reorder_experts stride perm original))"

section \<open>The command\<close>

definition is_fused :: "tensor_info \<Rightarrow> bool" where
  "is_fused t \<longleftrightarrow> role_from_name (ti_name t) = MoeFusedExperts"

fun layer_orders :: "coactivation \<Rightarrow> u32 \<Rightarrow> tensor_info list \<Rightarrow> (u32, u32 list) hmap \<Rightarrow> (u32, u32 list) hmap outcome" where
  "layer_orders co num_experts [] perms = Ret perms"
| "layer_orders co num_experts (t # ts) perms =
     (if \<not> is_fused t then layer_orders co num_experts ts perms
      else case ti_layer_index t of
        None \<Rightarrow> layer_orders co num_experts ts perms
      | Some l \<Rightarrow> if hm_contains perms l then layer_orders co num_experts ts perms
          else obind (compute_optimal_expert_order co l num_experts) (\<lambda>perm.
                 layer_orders co num_experts ts (hm_insert l perm perms)))"

fun rewrite_all :: "u64 \<Rightarrow> u32 \<Rightarrow> (u32, u32 list) hmap \<Rightarrow> tensor_info list \<Rightarrow> u8 list \<Rightarrow> (optimize_error + u8 list) outcome" where
  "rewrite_all data_offset num_experts perms [] disk = Ret (Inr disk)"
| "rewrite_all data_offset num_experts perms (t # ts) disk =
     (case (if is_fused t then Option.bind (ti_layer_index t) (hm_get perms) else None) of
        None \<Rightarrow> rewrite_all data_offset num_experts perms ts disk
      | Some perm \<Rightarrow> obind (rewrite_tensor data_offset num_experts perm t disk) (\<lambda>r. case r of
            Inl e \<Rightarrow> Ret (Inl e)
          | Inr disk' \<Rightarrow> rewrite_all data_offset num_experts perms ts disk'))"

text \<open>The result is the new file and the permutations written beside it.\<close>

definition optimize :: "u8 list \<Rightarrow> gguf_file \<Rightarrow> coactivation option \<Rightarrow>
    (optimize_error + u8 list \<times> (u32, u32 list) hmap) outcome" where
  "optimize disk gguf co_act = (case co_act of
      None \<Rightarrow> Ret (Inl NoCoactivationData)
    | Some co \<Rightarrow>
        (if \<not> has_data co then Ret (Inl InsufficientData)
         else let num_experts = unwrap_or (get_u32 gguf ''expert_count'') 0
              in if num_experts = 0 then Ret (Inl NotMoe)
                 else obind (layer_orders co num_experts (gf_tensors gguf) []) (\<lambda>perms.
                   if perms = [] then Ret (Inl NoFusedTensors)
                   else omap (\<lambda>r. case r of Inl e \<Rightarrow> Inl e | Inr disk' \<Rightarrow> Inr (disk', perms))
                          (rewrite_all (gf_data_offset gguf) num_experts perms (gf_tensors gguf) disk))))"

section \<open>The order is a permutation\<close>

lemma with_keys_fst: "with_keys f xs = Ret kvs \<Longrightarrow> map fst kvs = xs"
  by (induction xs arbitrary: kvs) (auto simp: obind_Ret omap_Ret)

lemma argmax_in:
  assumes "argmax f xs = Ret n" "xs \<noteq> []" shows "n \<in> set xs"
proof -
  from assms(1) obtain kvs where k: "with_keys f xs = Ret kvs" "n = unwrap_or (map_option fst (max_by_key snd kvs)) 0"
    by (auto simp: argmax_def omap_Ret)
  have "kvs \<noteq> []" using with_keys_fst [OF k(1)] assms(2) by auto
  then obtain m where m: "max_by_key snd kvs = Some m" by (cases "max_by_key snd kvs") auto
  have "m \<in> set kvs" using max_by_key_Some [OF m] by simp
  with k(2) m with_keys_fst [OF k(1)] show ?thesis by auto
qed

definition visiting :: "nat \<Rightarrow> bool list \<Rightarrow> u32 list \<Rightarrow> bool" where
  "visiting ne visited order \<longleftrightarrow> length visited = ne \<and> distinct order \<and>
     (\<forall>x \<in> set order. unat x < ne) \<and> (\<forall>e < ne. visited ! e \<longleftrightarrow> e \<in> unat ` set order)"

lemma visiting_step:
  assumes "visiting ne visited order" "n < ne" "\<not> visited ! n" "ne < 2 ^ 32"
  shows "visiting ne (visited[n := True]) (order @ [of_nat n])"
proof -
  have n: "unat (of_nat n :: u32) = n" using assms(2,4) by (simp add: unsigned_of_nat take_bit_nat_eq_self_iff)
  have "of_nat n \<notin> set order" using assms(1-3) n by (force simp: visiting_def)
  moreover have "(visited[n := True]) ! e \<longleftrightarrow> e \<in> unat ` set (order @ [of_nat n])" if "e < ne" for e
    using assms(1,2) that n by (cases "e = n") (auto simp: visiting_def)
  ultimately show ?thesis using assms(1,2) n by (auto simp: visiting_def)
qed

lemma visiting_room:
  assumes "visiting ne visited order" "length order < ne"
  shows "filter (\<lambda>e. \<not> visited ! e) [0..<ne] \<noteq> []"
proof
  assume "filter (\<lambda>e. \<not> visited ! e) [0..<ne] = []"
  then have "{..<ne} \<subseteq> unat ` set order" using assms(1) by (auto simp: filter_empty_conv visiting_def)
  then have "ne \<le> card (unat ` set order)" using card_mono [of "unat ` set order" "{..<ne}"] by simp
  also have "\<dots> \<le> length order" by (rule order_trans [OF card_image_le card_length]) simp
  finally show False using assms(2) by simp
qed

lemma visit_nearest_perm:
  "visit_nearest plane ne k visited order = Ret res \<Longrightarrow> visiting ne visited order \<Longrightarrow> length order + k = ne \<Longrightarrow> ne < 2 ^ 32 \<Longrightarrow>
   is_perm ne res"
proof (induction k arbitrary: visited order)
  case (Suc k)
  from Suc.prems(1) obtain n where n: "argmax (count_at plane (unat (last order))) (filter (\<lambda>e. \<not> visited ! e) [0..<ne]) = Ret n"
    "visit_nearest plane ne k (visited[n := True]) (order @ [of_nat n]) = Ret res"
    by (auto simp: obind_Ret Let_def)
  have "length order < ne" using Suc.prems(3) by simp
  from argmax_in [OF n(1) visiting_room [OF Suc.prems(2) this]] have "n < ne" "\<not> visited ! n" by auto
  from visiting_step [OF Suc.prems(2) this Suc.prems(4)] Suc.IH [OF n(2)] Suc.prems(3,4) show ?case by simp
qed (auto simp: is_perm_def visiting_def)

lemma order_is_perm:
  assumes "compute_optimal_expert_order co l num = Ret res" shows "is_perm (unat num) res"
proof (cases "length (ca_layer_counts co) \<le> unat l \<or> unat num = 0")
  case True
  have small: "unat (of_nat i :: u32) = i" if "i < unat num" for i
    using that unsigned_less [of num, where ?'a = nat] by (simp add: unsigned_of_nat take_bit_nat_eq_self_iff)
  have "res = map of_nat [0..<unat num]" using assms True by (simp add: compute_optimal_expert_order_def Let_def del: upt_Suc)
  moreover have "distinct (map (of_nat :: nat \<Rightarrow> u32) [0..<unat num])"
    using small by (auto simp: distinct_map inj_on_def) metis
  ultimately show ?thesis using small by (auto simp: is_perm_def)
next
  case False
  let ?ne = "unat num" and ?plane = "ca_layer_counts co ! unat l"
  from assms False obtain n where n: "argmax (\<lambda>e. count_at ?plane e e) [0..<?ne] = Ret n"
    "visit_nearest ?plane ?ne (?ne - 1) ((replicate ?ne False)[n := True]) [of_nat n] = Ret res"
    by (auto simp: compute_optimal_expert_order_def Let_def obind_Ret simp del: upt_Suc)
  have "n < ?ne" using argmax_in [OF n(1)] False by simp
  moreover have ne: "?ne < 2 ^ 32" using unsigned_less [of num, where ?'a = nat] by simp
  ultimately have "visiting ?ne ((replicate ?ne False)[n := True]) ([] @ [of_nat n])"
    by (intro visiting_step) (auto simp: visiting_def)
  with visit_nearest_perm [OF n(2)] ne False show ?thesis by simp
qed

section \<open>Segments of a file\<close>

definition seg :: "'a list \<Rightarrow> nat \<Rightarrow> nat \<Rightarrow> 'a list" where
  "seg xs a n = take n (drop a xs)"

definition put_seg :: "'a list \<Rightarrow> nat \<Rightarrow> 'a list \<Rightarrow> 'a list" where
  "put_seg xs a ys = take a xs @ ys @ drop (a + length ys) xs"

lemma length_seg [simp]: "a + n \<le> length xs \<Longrightarrow> length (seg xs a n) = n"
  by (simp add: seg_def)

lemma length_put_seg [simp]: "a + length ys \<le> length xs \<Longrightarrow> length (put_seg xs a ys) = length xs"
  by (simp add: put_seg_def)

lemma seg_put_same: "a + length ys \<le> length xs \<Longrightarrow> seg (put_seg xs a ys) a (length ys) = ys"
  by (simp add: seg_def put_seg_def)

lemma nth_put_seg:
  assumes "a + length ys \<le> length xs" "i < length xs"
  shows "put_seg xs a ys ! i = (if a \<le> i \<and> i < a + length ys then ys ! (i - a) else xs ! i)"
  using assms by (auto simp: put_seg_def nth_append min_def)

lemma seg_cong:
  "length xs = length ys \<Longrightarrow> (\<And>i. a \<le> i \<Longrightarrow> i < a + n \<Longrightarrow> i < length xs \<Longrightarrow> xs ! i = ys ! i) \<Longrightarrow> seg xs a n = seg ys a n"
  by (rule nth_equalityI) (auto simp: seg_def)

lemma seg_put_other:
  assumes "a + length ys \<le> length xs" "b + n \<le> a \<or> a + length ys \<le> b"
  shows "seg (put_seg xs a ys) b n = seg xs b n"
  using assms by (intro seg_cong) (auto simp: nth_put_seg)

lemma seg_seg: "a + n \<le> m \<Longrightarrow> seg (seg xs b m) a n = seg xs (b + a) n"
  by (simp add: seg_def drop_take min_def add.commute)

section \<open>The rewritten tensor\<close>

lemma stride_word:
  fixes w st :: usize
  assumes "unat w < n" "n * unat st \<le> m" "m < 2 ^ 64"
  shows "unat (w * st) = unat w * unat st" "unat (w * st + st) = unat w * unat st + unat st"
    "unat w * unat st + unat st \<le> m"
proof -
  show le: "unat w * unat st + unat st \<le> m" using stride_end [OF assms(1,2)] .
  with assms(3) show p: "unat (w * st) = unat w * unat st" by (intro unat_mult_no_wrap) simp
  with le assms(3) show "unat (w * st + st) = unat w * unat st + unat st"
    using unat_plus_no_wrap [of "w * st" st] by simp
qed

lemma place_experts_spec:
  assumes "place_experts st orig es re = Ret res" "n * unat st \<le> length orig" "length orig < 2 ^ 64" "n < 2 ^ 64"
    "\<forall>e \<in> set es. fst e < n \<and> unat (snd e) < n" "distinct (map fst es)" "length re = length orig"
  shows "length res = length orig \<and>
    (\<forall>e \<in> set es. seg res (fst e * unat st) (unat st) = seg orig (unat (snd e) * unat st) (unat st)) \<and>
    (\<forall>a k. (\<forall>e \<in> set es. a + k \<le> fst e * unat st \<or> fst e * unat st + unat st \<le> a) \<longrightarrow> seg res a k = seg re a k)"
  using assms(1,5-7)
proof (induction es arbitrary: re)
  case (Cons e es)
  obtain pos x where e: "e = (pos, x)" by (cases e)
  let ?s = "unat st"
  have px: "pos < n" "unat x < n" using Cons.prems(2) by (simp_all add: e)
  have w: "unat (of_nat pos :: usize) = pos" "unat (ucast x :: usize) = unat x"
    using px(1) assms(4) by (simp_all add: unsigned_of_nat take_bit_nat_eq_self_iff)
  note src = stride_word [of "ucast x" n st, unfolded w, OF px(2) assms(2,3)]
  note dst = stride_word [of "of_nat pos" n st, unfolded w, OF px(1) assms(2,3)]
  have mono: "(ucast x * st :: usize) \<le> ucast x * st + st" "of_nat pos * st \<le> of_nat pos * st + st"
    using src dst by (simp_all add: word_le_nat_alt)
  let ?seg = "seg orig (unat x * ?s) ?s"
  let ?re = "put_seg re (pos * ?s) ?seg"
  have len: "length ?seg = ?s" using src(3) by simp
  have "slice_of orig (ucast x * st) (ucast x * st + st) = Ret ?seg"
    using mono src by (simp add: slice_of_def seg_def)
  moreover have "copy_into re (of_nat pos * st) (of_nat pos * st + st) ?seg = Ret ?re"
    using mono dst len Cons.prems(4) by (simp add: copy_into_def put_seg_def)
  ultimately have step: "place_experts st orig es ?re = Ret res" using Cons.prems(1) by (simp add: e Let_def)
  have re: "pos * ?s + length ?seg \<le> length re" using dst(3) len Cons.prems(4) by simp
  have IH: "length res = length orig \<and>
    (\<forall>e \<in> set es. seg res (fst e * ?s) ?s = seg orig (unat (snd e) * ?s) ?s) \<and>
    (\<forall>a k. (\<forall>e \<in> set es. a + k \<le> fst e * ?s \<or> fst e * ?s + ?s \<le> a) \<longrightarrow> seg res a k = seg ?re a k)"
    using Cons.prems re by (intro Cons.IH [OF step]) simp_all
  have apart: "pos * ?s + ?s \<le> fst d * ?s \<or> fst d * ?s + ?s \<le> pos * ?s" if "d \<in> set es" for d
  proof -
    have "fst d \<noteq> pos" using Cons.prems(3) that by (force simp: e)
    then consider "Suc pos \<le> fst d" | "Suc (fst d) \<le> pos" by linarith
    then show ?thesis
    proof cases
      case 1
      from mult_le_mono1 [OF this, of ?s] show ?thesis by simp
    next
      case 2
      from mult_le_mono1 [OF this, of ?s] show ?thesis by simp
    qed
  qed
  have "seg res (pos * ?s) ?s = seg ?re (pos * ?s) ?s" using IH apart by blast
  also have "\<dots> = ?seg" using seg_put_same [OF re] len by simp
  finally have new: "seg res (pos * ?s) ?s = ?seg" .
  have "seg res a k = seg re a k" if "\<forall>d \<in> set (e # es). a + k \<le> fst d * ?s \<or> fst d * ?s + ?s \<le> a" for a k
  proof -
    have "seg res a k = seg ?re a k" using IH that by simp
    also have "\<dots> = seg re a k" using that len re by (intro seg_put_other) (simp_all add: e)
    finally show ?thesis .
  qed
  with IH new show ?case by (simp add: e)
qed simp

lemma reorder_experts_spec:
  assumes "reorder_experts st perm orig = Ret res" "is_perm n perm" "n * unat st \<le> length orig" "length orig < 2 ^ 64" "n < 2 ^ 32" "p < n"
  shows "length res = length orig \<and> seg res (p * unat st) (unat st) = seg orig (unat (perm ! p) * unat st) (unat st)"
proof -
  have len: "length perm = n" using assms(2) by (simp add: is_perm_def)
  have "(p, perm ! p) \<in> set (zip [0..<length perm] perm)" using len assms(6) by (auto simp: in_set_zip intro: exI [of _ p])
  moreover have "\<forall>e \<in> set (zip [0..<length perm] perm). fst e < n \<and> unat (snd e) < n"
    using assms(2) by (auto simp: is_perm_def dest: set_zip_leftD set_zip_rightD)
  ultimately show ?thesis
    using place_experts_spec [OF assms(1) [unfolded reorder_experts_def] assms(3,4)] assms(5) len by fastforce
qed

section \<open>The rewritten file\<close>

definition tstart :: "u64 \<Rightarrow> tensor_info \<Rightarrow> nat" where
  "tstart data_offset t = unat (data_offset + ti_offset t)"

definition tensors_apart :: "u64 \<Rightarrow> tensor_info \<Rightarrow> tensor_info \<Rightarrow> bool" where
  "tensors_apart d t u \<longleftrightarrow>
     tstart d t + unat (ti_size_bytes t) \<le> tstart d u \<or> tstart d u + unat (ti_size_bytes u) \<le> tstart d t"

definition tstride :: "u32 \<Rightarrow> tensor_info \<Rightarrow> usize" where
  "tstride num t = ti_size_bytes t div ucast num"

lemma tstride_fits: "unat num * unat (tstride num t) \<le> unat (ti_size_bytes t)"
  by (simp add: tstride_def unat_div mult.commute [of "unat num"] div_times_less_eq_dividend)

lemma rewrite_tensor_Inr:
  assumes "rewrite_tensor d num perm t disk = Ret (Inr disk')"
  obtains res where "tstart d t + unat (ti_size_bytes t) \<le> length disk"
    "reorder_experts (tstride num t) perm (seg disk (tstart d t) (unat (ti_size_bytes t))) = Ret res"
    "disk' = take (tstart d t) disk @ res @ drop (tstart d t + unat (ti_size_bytes t)) disk"
  using assms
  by (auto simp: rewrite_tensor_def Let_def omap_Ret tstart_def tstride_def seg_def not_less split: if_splits)

lemma rewrite_tensor_put:
  assumes "rewrite_tensor d num perm t disk = Ret (Inr disk')" "is_perm (unat num) perm" "0 < num"
  obtains res where "tstart d t + unat (ti_size_bytes t) \<le> length disk"
    "reorder_experts (tstride num t) perm (seg disk (tstart d t) (unat (ti_size_bytes t))) = Ret res"
    "length res = unat (ti_size_bytes t)" "disk' = put_seg disk (tstart d t) res"
proof -
  from rewrite_tensor_Inr [OF assms(1)] obtain res where r: "tstart d t + unat (ti_size_bytes t) \<le> length disk"
    "reorder_experts (tstride num t) perm (seg disk (tstart d t) (unat (ti_size_bytes t))) = Ret res"
    "disk' = take (tstart d t) disk @ res @ drop (tstart d t + unat (ti_size_bytes t)) disk" .
  have "0 < unat num" using assms(3) by (simp add: word_less_nat_alt)
  moreover have "unat num < 2 ^ 32" "unat (ti_size_bytes t) < 2 ^ 64"
    using unsigned_less [of num, where ?'a = nat] unsigned_less [of "ti_size_bytes t", where ?'a = nat] by simp_all
  ultimately have "length res = unat (ti_size_bytes t)"
    using reorder_experts_spec [OF r(2) assms(2)] tstride_fits [of num t] r(1) by simp
  with that r show ?thesis by (simp add: put_seg_def)
qed

definition rewritten :: "(u32, u32 list) hmap \<Rightarrow> tensor_info \<Rightarrow> u32 list option" where
  "rewritten perms t = (if is_fused t then Option.bind (ti_layer_index t) (hm_get perms) else None)"

lemma rewrite_all_spec:
  assumes "rewrite_all d num perms ts disk = Ret (Inr disk')" "sorted_wrt (tensors_apart d) ts" "0 < num"
    "\<forall>l p. hm_get perms l = Some p \<longrightarrow> is_perm (unat num) p"
  shows "length disk' = length disk \<and>
    (\<forall>a k. (\<forall>t \<in> set ts. a + k \<le> tstart d t \<or> tstart d t + unat (ti_size_bytes t) \<le> a) \<longrightarrow> seg disk' a k = seg disk a k) \<and>
    (\<forall>t \<in> set ts. \<forall>p. rewritten perms t = Some p \<longrightarrow>
       tstart d t + unat (ti_size_bytes t) \<le> length disk \<and>
       reorder_experts (tstride num t) p (seg disk (tstart d t) (unat (ti_size_bytes t))) =
         Ret (seg disk' (tstart d t) (unat (ti_size_bytes t))))"
  using assms(1,2)
proof (induction ts arbitrary: disk)
  case (Cons t ts)
  let ?n = "unat (ti_size_bytes t)"
  show ?case
  proof (cases "rewritten perms t")
    case None
    with Cons show ?thesis by (simp add: rewritten_def)
  next
    case (Some p)
    from Some Cons.prems(1) obtain x where "rewrite_tensor d num p t disk = Ret x"
      "(case x of Inl e \<Rightarrow> Ret (Inl e) | Inr disk1 \<Rightarrow> rewrite_all d num perms ts disk1) = Ret (Inr disk')"
      by (auto simp: rewritten_def obind_Ret)
    then obtain disk1 where d1: "rewrite_tensor d num p t disk = Ret (Inr disk1)"
      "rewrite_all d num perms ts disk1 = Ret (Inr disk')"
      by (cases x) auto
    have "is_perm (unat num) p" using Some assms(4) by (auto simp: rewritten_def bind_eq_Some_conv split: if_splits)
    from rewrite_tensor_put [OF d1(1) this assms(3)] obtain res where r: "tstart d t + ?n \<le> length disk"
      "reorder_experts (tstride num t) p (seg disk (tstart d t) ?n) = Ret res"
      "length res = ?n" "disk1 = put_seg disk (tstart d t) res" .
    have other: "seg disk1 a k = seg disk a k" if "a + k \<le> tstart d t \<or> tstart d t + ?n \<le> a" for a k
      using that r by (simp add: seg_put_other)
    have same: "seg disk1 (tstart d t) ?n = res" using r seg_put_same [of "tstart d t" res disk] by simp
    have len1: "length disk1 = length disk" using r by simp
    have sorted: "sorted_wrt (tensors_apart d) ts" and ap: "\<forall>u \<in> set ts. tensors_apart d t u" using Cons.prems(2) by simp_all
    note IH = Cons.IH [OF d1(2) sorted]
    have "seg disk' (tstart d t) ?n = res"
    proof -
      have "\<forall>u \<in> set ts. tstart d t + ?n \<le> tstart d u \<or> tstart d u + unat (ti_size_bytes u) \<le> tstart d t"
        using ap by (auto simp: tensors_apart_def)
      with IH have "seg disk' (tstart d t) ?n = seg disk1 (tstart d t) ?n" by blast
      with same show ?thesis by simp
    qed
    moreover have "seg disk1 (tstart d u) (unat (ti_size_bytes u)) = seg disk (tstart d u) (unat (ti_size_bytes u))" if "u \<in> set ts" for u
      using ap that by (intro other) (auto simp: tensors_apart_def)
    ultimately show ?thesis using IH len1 other r(1,2) Some by (auto)
  qed
qed simp

lemma layer_orders_perm:
  "layer_orders co num ts perms = Ret perms' \<Longrightarrow> (\<forall>l p. hm_get perms l = Some p \<longrightarrow> is_perm (unat num) p) \<Longrightarrow>
   (\<forall>l p. hm_get perms' l = Some p \<longrightarrow> is_perm (unat num) p) \<and>
   (\<forall>l. hm_contains perms l \<longrightarrow> hm_contains perms' l) \<and>
   (\<forall>t \<in> set ts. \<forall>l. is_fused t \<and> ti_layer_index t = Some l \<longrightarrow> hm_contains perms' l)"
proof (induction ts arbitrary: perms)
  case (Cons t ts)
  consider (skip) "layer_orders co num ts perms = Ret perms'"
      "\<forall>l. is_fused t \<and> ti_layer_index t = Some l \<longrightarrow> hm_contains perms l"
    | (new) l p where "ti_layer_index t = Some l" "compute_optimal_expert_order co l num = Ret p"
      "layer_orders co num ts (hm_insert l p perms) = Ret perms'"
    using Cons.prems(1) by (auto simp: obind_Ret split: if_splits option.splits)
  then show ?case
  proof cases
    case skip
    with Cons.IH [OF skip(1) Cons.prems(2)] show ?thesis by auto
  next
    case (new l p)
    have "\<forall>k q. hm_get (hm_insert l p perms) k = Some q \<longrightarrow> is_perm (unat num) q"
      using Cons.prems(2) order_is_perm [OF new(2)] by (auto split: if_splits)
    from Cons.IH [OF new(3) this] new(1) show ?thesis by auto
  qed
qed simp

section \<open>Properties\<close>

lemma Inr_case_sum: "Inr y = (case r of Inl e \<Rightarrow> Inl e | Inr x \<Rightarrow> Inr (f x)) \<longleftrightarrow> (\<exists>x. r = Inr x \<and> y = f x)"
  by (cases r) auto

lemma optimize_Inr:
  assumes "optimize disk gguf (Some co) = Ret (Inr (disk', perms))"
  defines "num \<equiv> unwrap_or (get_u32 gguf ''expert_count'') 0"
  shows "0 < num" "layer_orders co num (gf_tensors gguf) [] = Ret perms"
    "rewrite_all (gf_data_offset gguf) num perms (gf_tensors gguf) disk = Ret (Inr disk')"
proof -
  have "num \<noteq> 0 \<and> layer_orders co num (gf_tensors gguf) [] = Ret perms \<and>
    rewrite_all (gf_data_offset gguf) num perms (gf_tensors gguf) disk = Ret (Inr disk')"
    using assms(1) unfolding optimize_def num_def Let_def option.case
    by (auto simp: obind_Ret omap_Ret Inr_case_sum split: if_splits)
  then show "0 < num" "layer_orders co num (gf_tensors gguf) [] = Ret perms"
    "rewrite_all (gf_data_offset gguf) num perms (gf_tensors gguf) disk = Ret (Inr disk')"
    by (simp_all add: word_neq_0_conv)
qed


text \<open>A model with two experts of two bytes each, in a file of eight bytes.\<close>

definition moe_tensor :: tensor_info where
  "moe_tensor = demo_tensor ''blk.0.ffn_gate_exps.weight'' 0 4"

definition moe_gguf :: gguf_file where
  "moe_gguf = \<lparr>gf_version = 3, gf_metadata = [(''expert_count'', Uint32 2)], gf_tensors = [moe_tensor], gf_data_offset = 1\<rparr>"

definition moe_coactivation :: coactivation where
  "moe_coactivation = \<lparr>ca_layer_counts = [[[1, 0], [0, 5]]], ca_cross_layer_counts = [[[0, 0], [0, 0]]],
     ca_observation_counts = [200], ca_num_layers = 1, ca_num_experts = 2\<rparr>"

definition moe_location :: tensor_location where
  "moe_location = \<lparr>tl_offset_in_buffer = 0, tl_size = 4, tl_file_offset = 1, tl_layer_index = Some 0\<rparr>"

lemma moe_optimized: "optimize demo_file moe_gguf (Some moe_coactivation) = Ret (Inr ([1, 4, 5, 2, 3, 6, 7, 8], [(0, [1, 0])]))"
  by code_simp


text \<open>The loader copies the region of an expert to the same position of the buffer, so position 0
  of the loaded tensor holds the weights of expert 1.\<close>

lemma optimized_buffer_order:
  "unat (expert_buffer_offset (mk_expert_layout 2 [(0, invert_permutation [1, 0])] moe_tensor 0 moe_location) 1) = 0"
  by code_simp

section \<open>The command succeeds\<close>

lemma with_keys_total: "(\<forall>x \<in> set xs. \<exists>v. f x = Ret v) \<Longrightarrow> \<exists>kvs. with_keys f xs = Ret kvs"
  by (induction xs) (auto simp: obind_Ret omap_Ret)

lemma argmax_total: "(\<forall>x \<in> set xs. \<exists>v. f x = Ret v) \<Longrightarrow> \<exists>n. argmax f xs = Ret n"
  using with_keys_total [of xs f] by (auto simp: argmax_def)

lemma visit_nearest_total:
  assumes "length plane = ne" "\<forall>row \<in> set plane. length row = ne" "ne < 2 ^ 32"
  shows "visiting ne visited order \<Longrightarrow> length order + k = ne \<Longrightarrow> order \<noteq> [] \<Longrightarrow> \<exists>res. visit_nearest plane ne k visited order = Ret res"
proof (induction k arbitrary: visited order)
  case (Suc k)
  have cur: "unat (last order) < ne" using Suc.prems(1,3) by (auto simp: visiting_def)
  have "\<forall>e \<in> set (filter (\<lambda>e. \<not> visited ! e) [0..<ne]). \<exists>v. count_at plane (unat (last order)) e = Ret v"
    using assms(1,2) cur by (simp add: count_at_def)
  from argmax_total [OF this] obtain n where n: "argmax (count_at plane (unat (last order))) (filter (\<lambda>e. \<not> visited ! e) [0..<ne]) = Ret n" by blast
  have "length order < ne" using Suc.prems(2) by simp
  from argmax_in [OF n visiting_room [OF Suc.prems(1) this]] have "n < ne" "\<not> visited ! n" by auto
  from Suc.IH [OF visiting_step [OF Suc.prems(1) this assms(3)]] Suc.prems(2) n show ?case by (simp add: Let_def)
qed simp

lemma order_total:
  assumes "ca_wf co" "ca_num_experts co = unat num"
  shows "\<exists>res. compute_optimal_expert_order co l num = Ret res"
proof (cases "length (ca_layer_counts co) \<le> unat l \<or> unat num = 0")
  case True
  then show ?thesis by (auto simp: compute_optimal_expert_order_def Let_def)
next
  case False
  let ?ne = "unat num" and ?plane = "ca_layer_counts co ! unat l"
  have ne: "?ne < 2 ^ 32" using unsigned_less [of num, where ?'a = nat] by simp
  have plane: "length ?plane = ?ne" "\<forall>row \<in> set ?plane. length row = ?ne"
    using assms False by (auto simp: ca_wf_def cube_def not_le)
  then obtain n where n: "argmax (\<lambda>e. count_at ?plane e e) [0..<?ne] = Ret n"
    using argmax_total [of "[0..<?ne]" "\<lambda>e. count_at ?plane e e"] by (auto simp: count_at_def)
  have "n < ?ne" using argmax_in [OF n] False by simp
  with ne have "visiting ?ne ((replicate ?ne False)[n := True]) ([] @ [of_nat n])"
    by (intro visiting_step) (auto simp: visiting_def)
  from visit_nearest_total [OF plane ne this] n False show ?thesis
    by (auto simp: compute_optimal_expert_order_def Let_def)
qed

lemma layer_orders_total:
  assumes "ca_wf co" "ca_num_experts co = unat num" shows "\<exists>perms'. layer_orders co num ts perms = Ret perms'"
proof (induction ts arbitrary: perms)
  case (Cons t ts)
  show ?case
  proof (cases "ti_layer_index t")
    case (Some l)
    from order_total [OF assms, of l] obtain res where "compute_optimal_expert_order co l num = Ret res" by blast
    with Some Cons show ?thesis by simp
  qed (simp add: Cons)
qed simp

text \<open>Equal segments in another order: the same bytes, so the same sum.\<close>

lemma segs_mset:
  "length xs = n * s \<Longrightarrow> mset xs = sum_list (map (\<lambda>i. mset (seg xs (i * s) s)) [0..<n])"
proof (induction n arbitrary: xs)
  case (Suc n)
  have "sum_list (map (\<lambda>i. mset (seg (take (n * s) xs) (i * s) s)) [0..<n]) = sum_list (map (\<lambda>i. mset (seg xs (i * s) s)) [0..<n])"
  proof (intro arg_cong [where f = sum_list] map_cong refl)
    fix i assume "i \<in> set [0..<n]"
    then have "i * s + s \<le> n * s" using stride_end [of i n s "n * s"] by simp
    then show "mset (seg (take (n * s) xs) (i * s) s) = mset (seg xs (i * s) s)"
      using seg_seg [of "i * s" s "n * s" xs 0] by (simp add: seg_def)
  qed
  moreover have "mset xs = mset (take (n * s) xs) + mset (seg xs (n * s) s)"
  proof -
    have "drop (n * s) xs = seg xs (n * s) s" using Suc.prems by (simp add: seg_def)
    then show ?thesis by (metis append_take_drop_id mset_append)
  qed
  ultimately show ?case using Suc.IH [of "take (n * s) xs"] Suc.prems by simp
qed simp

lemma perm_sum:
  assumes "is_perm n perm"
  shows "sum_list (map (\<lambda>p. f (unat (perm ! p))) [0..<n]) = sum_list (map f [0..<n] :: 'b::comm_monoid_add list)"
proof -
  have len: "length perm = n" using assms by (simp add: is_perm_def)
  have "set (map unat perm) = {..<n}"
  proof (rule card_subset_eq)
    show "set (map unat perm) \<subseteq> {..<n}" using assms by (auto simp: is_perm_def)
    have "distinct (map unat perm)" using assms by (auto simp: is_perm_def distinct_map intro!: inj_onI simp flip: word_unat_eq_iff)
    from distinct_card [OF this] len show "card (set (map unat perm)) = card {..<n}" by simp
  qed simp
  moreover have "distinct (map unat perm)" using assms by (auto simp: is_perm_def distinct_map intro!: inj_onI simp flip: word_unat_eq_iff)
  ultimately have "mset (map unat perm) = mset [0..<n]" by (intro set_eq_iff_mset_eq_distinct [THEN iffD1]) auto
  then have "mset (map f (map unat perm)) = mset (map f [0..<n])" by (simp only: mset_map)
  then have "sum_list (map f (map unat perm)) = sum_list (map f [0..<n])" by (metis sum_mset_sum_list)
  moreover have "map f (map unat perm) = map (\<lambda>p. f (unat (perm ! p))) [0..<n]"
    using len by (intro nth_equalityI) auto
  ultimately show ?thesis by simp
qed

lemma byte_sum_mset: "mset xs = mset ys \<Longrightarrow> byte_sum xs = byte_sum ys"
  unfolding byte_sum_def by (metis mset_map sum_mset_sum_list)

lemma place_experts_total:
  assumes "n * unat st \<le> length orig" "length orig < 2 ^ 64" "n < 2 ^ 64"
  shows "\<forall>e \<in> set es. fst e < n \<and> unat (snd e) < n \<Longrightarrow> length re = length orig \<Longrightarrow> \<exists>res. place_experts st orig es re = Ret res"
proof (induction es arbitrary: re)
  case (Cons e es)
  obtain pos x where e: "e = (pos, x)" by (cases e)
  have px: "pos < n" "unat x < n" using Cons.prems(1) by (simp_all add: e)
  have w: "unat (of_nat pos :: usize) = pos" "unat (ucast x :: usize) = unat x"
    using px(1) assms(3) by (simp_all add: unsigned_of_nat take_bit_nat_eq_self_iff)
  note src = stride_word [of "ucast x" n st, unfolded w, OF px(2) assms(1,2)]
  note dst = stride_word [of "of_nat pos" n st, unfolded w, OF px(1) assms(1,2)]
  obtain sg where sg: "slice_of orig (ucast x * st) (ucast x * st + st) = Ret sg" "length sg = unat st"
    using src by (simp add: slice_of_def word_le_nat_alt)
  then obtain re' where re': "copy_into re (of_nat pos * st) (of_nat pos * st + st) sg = Ret re'" "length re' = length orig"
    using dst Cons.prems(2) by (simp add: copy_into_def word_le_nat_alt)
  from Cons.IH [OF _ re'(2)] Cons.prems(1) sg re' show ?case by (simp add: e Let_def)
qed simp

lemma reorder_ok:
  assumes "is_perm n perm" "length orig = n * unat st" "length orig < 2 ^ 64" "n < 2 ^ 32"
  shows "\<exists>res. reorder_experts st perm orig = Ret res \<and> byte_sum res = byte_sum orig"
proof -
  have len: "length perm = n" using assms(1) by (simp add: is_perm_def)
  have "\<forall>e \<in> set (zip [0..<length perm] perm). fst e < n \<and> unat (snd e) < n"
    using assms(1) by (auto simp: is_perm_def dest: set_zip_leftD set_zip_rightD)
  then obtain res where res: "reorder_experts st perm orig = Ret res"
    using place_experts_total [of n st orig] assms(2-4) by (fastforce simp: reorder_experts_def)
  have spec: "length res = length orig" "\<And>p. p < n \<Longrightarrow> seg res (p * unat st) (unat st) = seg orig (unat (perm ! p) * unat st) (unat st)"
  proof -
    show "length res = length orig"
      using place_experts_spec [OF res [unfolded reorder_experts_def], of n] assms \<open>\<forall>e \<in> _. _\<close> len by simp
    show "seg res (p * unat st) (unat st) = seg orig (unat (perm ! p) * unat st) (unat st)" if "p < n" for p
      using reorder_experts_spec [OF res assms(1) _ assms(3,4) that] assms(2) by simp
  qed
  have "mset res = sum_list (map (\<lambda>i. mset (seg res (i * unat st) (unat st))) [0..<n])"
    using segs_mset [of res n] spec(1) assms(2) by simp
  also have "\<dots> = sum_list (map (\<lambda>p. mset (seg orig (unat (perm ! p) * unat st) (unat st))) [0..<n])"
    using spec(2) by (intro arg_cong [where f = sum_list] map_cong) auto
  also have "\<dots> = sum_list (map (\<lambda>i. mset (seg orig (i * unat st) (unat st))) [0..<n])" by (rule perm_sum [OF assms(1)])
  also have "\<dots> = mset orig" using segs_mset [of orig n "unat st"] assms(2) by simp
  finally show ?thesis using res byte_sum_mset by blast
qed

lemma rewrite_all_total:
  assumes "\<forall>l p. hm_get perms l = Some p \<longrightarrow> is_perm (unat num) p" "0 < num"
  shows "\<forall>t \<in> set ts. is_fused t \<longrightarrow> tstart d t + unat (ti_size_bytes t) \<le> length disk \<and> unat num dvd unat (ti_size_bytes t) \<Longrightarrow>
    \<exists>disk'. rewrite_all d num perms ts disk = Ret (Inr disk')"
proof (induction ts arbitrary: disk)
  case (Cons t ts)
  show ?case
  proof (cases "rewritten perms t")
    case None
    with Cons show ?thesis by (simp add: rewritten_def)
  next
    case (Some p)
    let ?n = "unat (ti_size_bytes t)" and ?orig = "seg disk (tstart d t) (unat (ti_size_bytes t))"
    have p: "is_perm (unat num) p" "is_fused t" using Some assms(1) by (auto simp: rewritten_def bind_eq_Some_conv split: if_splits)
    then have t: "tstart d t + ?n \<le> length disk" "unat num dvd ?n" using Cons.prems by simp_all
    have "unat num * unat (tstride num t) = ?n" using t(2) by (simp add: tstride_def unat_div)
    moreover have "?n < 2 ^ 64" "unat num < 2 ^ 32"
      using unsigned_less [of num, where ?'a = nat] unsigned_less [of "ti_size_bytes t", where ?'a = nat] by simp_all
    ultimately obtain res where res: "reorder_experts (tstride num t) p ?orig = Ret res" "byte_sum res = byte_sum ?orig"
      using reorder_ok [OF p(1), of ?orig "tstride num t"] t(1) by auto
    then have "rewrite_tensor d num p t disk = Ret (Inr (take (tstart d t) disk @ res @ drop (tstart d t + ?n) disk))"
      using t(1) by (simp add: rewrite_tensor_def Let_def tstart_def tstride_def seg_def)
    then obtain disk1 where d1: "rewrite_tensor d num p t disk = Ret (Inr disk1)" by blast
    from rewrite_tensor_put [OF this p(1) assms(2)] t(1) have "length disk1 = length disk" by (metis length_put_seg)
    with Cons d1 Some show ?thesis by (simp add: rewritten_def)
  qed
qed simp

text \<open>C36. \<open>optimize\<close> never panics and never fails its own check on a sound input: with a well-formed
  co-activation matrix that has data and the model's number of experts, and fused tensors
  that lie in the file and divide evenly into experts, it returns the optimized file; in
  particular the byte sums before and after always agree.\<close>

theorem optimize_succeeds:
  assumes "ca_wf co" "has_data co" "num = unwrap_or (get_u32 gguf ''expert_count'') 0" "ca_num_experts co = unat num" "0 < num"
    "\<forall>t \<in> set (gf_tensors gguf). is_fused t \<longrightarrow> tstart (gf_data_offset gguf) t + unat (ti_size_bytes t) \<le> length disk \<and>
       unat num dvd unat (ti_size_bytes t)"
    "\<exists>t \<in> set (gf_tensors gguf). is_fused t \<and> ti_layer_index t \<noteq> None"
  shows "\<exists>disk' perms. optimize disk gguf (Some co) = Ret (Inr (disk', perms))"
proof -
  obtain perms where perms: "layer_orders co num (gf_tensors gguf) [] = Ret perms" using layer_orders_total [OF assms(1,4)] by blast
  from layer_orders_perm [OF this] have ok: "\<forall>l p. hm_get perms l = Some p \<longrightarrow> is_perm (unat num) p" "perms \<noteq> []"
    using assms(7) by force+
  from rewrite_all_total [OF ok(1) assms(5,6)] obtain disk' where
    "rewrite_all (gf_data_offset gguf) num perms (gf_tensors gguf) disk = Ret (Inr disk')" by blast
  with perms ok(2) assms(2,3,5) show ?thesis by (auto simp: optimize_def Let_def)
qed

theorem optimize_succeeds_witness:
  "\<exists>disk' perms. optimize demo_file moe_gguf (Some moe_coactivation) = Ret (Inr (disk', perms))"
proof (rule optimize_succeeds)
  show "ca_wf moe_coactivation" by (simp add: ca_wf_def cube_def moe_coactivation_def)
  show "\<forall>t \<in> set (gf_tensors moe_gguf). is_fused t \<longrightarrow> tstart (gf_data_offset moe_gguf) t + unat (ti_size_bytes t) \<le> length demo_file \<and>
       unat (unwrap_or (get_u32 moe_gguf ''expert_count'') 0) dvd unat (ti_size_bytes t)" by code_simp
  show "\<exists>t \<in> set (gf_tensors moe_gguf). is_fused t \<and> ti_layer_index t \<noteq> None" by code_simp
qed code_simp+

end
