(* ===== verification/Llama_Ffi.thy ===== *)
theory Llama_Ffi
  imports Sched_Types
begin

text \<open>
  Model of the wrappers of \<open>src/compute/ffi.rs\<close>: the parameters a model and a context are
  created with, and the two calls that fill a buffer and are repeated when it was too small.
  The functions of llama.cpp are arguments.
\<close>

section \<open>Parameters\<close>

text \<open>The sampling parameters are \<open>f32\<close>; each is kept as the \<open>f64\<close> of the same value.  A positive
  literal is rounded to 24 bits.\<close>

definition f32_literal :: "rat \<Rightarrow> f64" where
  "f32_literal x = (let e = binexp x - 23 in Fin (of_int (rhe (x / 2 powi e)) * 2 powi e))"

record sampling_params =
  sp_temperature :: f64
  sp_top_k :: i32
  sp_top_p :: f64
  sp_min_p :: f64
  sp_seed :: u32
  sp_max_tokens :: u32

definition sampling_default :: sampling_params where
  "sampling_default = \<lparr>sp_temperature = f32_literal (8 / 10), sp_top_k = 40, sp_top_p = f32_literal (9 / 10), sp_min_p = f32_literal (5 / 100),
     sp_seed = 42, sp_max_tokens = 512\<rparr>"

text \<open>The stages of the sampler chain, in order.\<close>

datatype sampler_stage = TopK i32 | TopP f64 nat | MinP f64 nat | Temp f64 | Dist u32

definition sampler_chain :: "sampling_params \<Rightarrow> sampler_stage list" where
  "sampler_chain p = [TopK (sp_top_k p), TopP (sp_top_p p) 1, MinP (sp_min_p p) 1, Temp (sp_temperature p), Dist (sp_seed p)]"

record model_params =
  mq_n_gpu_layers :: i32
  mq_use_mmap :: bool
  mq_overrides :: "string list option"

datatype load_error = InvalidPath | LoadFailed | NoVocab | ContextFailed

text \<open>\<open>path\<close> is \<open>None\<close> when it is not UTF-8, and a path with a NUL byte has no C string;
  \<open>load\<close> gives the model or null, \<open>has_vocab\<close> whether its vocabulary is there.\<close>

definition load_with_overrides :: "(string \<Rightarrow> model_params \<Rightarrow> 'm option) \<Rightarrow> ('m \<Rightarrow> bool) \<Rightarrow> string option \<Rightarrow> i32 \<Rightarrow> bool \<Rightarrow>
    string list option \<Rightarrow> load_error + 'm" where
  "load_with_overrides load has_vocab path n_gpu_layers use_mmap overrides = (case path of
      None \<Rightarrow> Inl InvalidPath
    | Some p \<Rightarrow> if CHR 0x00 \<in> set p then Inl InvalidPath
        else case load p \<lparr>mq_n_gpu_layers = n_gpu_layers, mq_use_mmap = use_mmap, mq_overrides = overrides\<rparr> of
          None \<Rightarrow> Inl LoadFailed
        | Some m \<Rightarrow> if has_vocab m then Inr m else Inl NoVocab)"

definition load_plain :: "(string \<Rightarrow> model_params \<Rightarrow> 'm option) \<Rightarrow> ('m \<Rightarrow> bool) \<Rightarrow> string option \<Rightarrow> i32 \<Rightarrow> bool \<Rightarrow> load_error + 'm" where
  "load_plain load has_vocab path n_gpu_layers use_mmap = load_with_overrides load has_vocab path n_gpu_layers use_mmap None"

datatype ggml_kv_type = GgmlF16 | GgmlQ8_0 | GgmlQ4_0

fun kv_type :: "kv_quantization \<Rightarrow> ggml_kv_type" where
  "kv_type KvF16 = GgmlF16"
| "kv_type KvQ8_0 = GgmlQ8_0"
| "kv_type KvQ4_0 = GgmlQ4_0"

text \<open>\<open>None\<close> for a key or value type keeps the default; the last field says whether the evaluation
  callback is installed.\<close>

record context_params =
  cq_n_ctx :: u32
  cq_n_batch :: u32
  cq_n_ubatch :: u32
  cq_n_threads :: i32
  cq_n_threads_batch :: i32
  cq_offload_kqv :: bool
  cq_type_k :: "ggml_kv_type option"
  cq_type_v :: "ggml_kv_type option"
  cq_callback :: bool

definition context_params_of :: "u32 \<Rightarrow> u32 \<Rightarrow> i32 \<Rightarrow> bool \<Rightarrow> kv_quantization option \<Rightarrow> context_params" where
  "context_params_of n_ctx n_batch n_threads cb_eval kv_quant =
     \<lparr>cq_n_ctx = n_ctx, cq_n_batch = n_batch, cq_n_ubatch = n_batch, cq_n_threads = n_threads,
      cq_n_threads_batch = n_threads, cq_offload_kqv = True, cq_type_k = map_option kv_type kv_quant,
      cq_type_v = map_option kv_type kv_quant, cq_callback = cb_eval\<rparr>"

definition new_context :: "(context_params \<Rightarrow> 'c option) \<Rightarrow> u32 \<Rightarrow> u32 \<Rightarrow> i32 \<Rightarrow> bool \<Rightarrow> kv_quantization option \<Rightarrow> load_error + 'c" where
  "new_context init n_ctx n_batch n_threads cb_eval kv_quant =
     (case init (context_params_of n_ctx n_batch n_threads cb_eval kv_quant) of None \<Rightarrow> Inl ContextFailed | Some c \<Rightarrow> Inr c)"

section \<open>Calls that fill a buffer\<close>

text \<open>A call gets the capacity; it returns a count and writes some elements.  A negative count is
  the capacity that is needed, and the call is repeated with it.\<close>

type_synonym 'a filler = "i32 \<Rightarrow> i32 \<times> 'a list"

definition write_front :: "'a list \<Rightarrow> 'a list \<Rightarrow> 'a list" where
  "write_front ws buf = take (length buf) ws @ drop (length ws) buf"

definition resize :: "nat \<Rightarrow> 'a \<Rightarrow> 'a list \<Rightarrow> 'a list" where
  "resize n x buf = take n buf @ replicate (n - length buf) x"

definition fill_buffer :: "'a \<Rightarrow> 'a filler \<Rightarrow> i32 \<Rightarrow> 'a list" where
  "fill_buffer zero call cap =
     (case call cap of (n, ws) \<Rightarrow>
       (let buf = write_front ws (replicate (unat cap) zero)
        in if sint n < 0
           then (case call (- n) of (n2, ws2) \<Rightarrow>
                   take (nat (max (sint n2) 0)) (write_front ws2 (resize (unat (- n)) zero buf)))
           else take (unat n) buf))"

definition max_signed :: "i32 \<Rightarrow> i32 \<Rightarrow> i32" where
  "max_signed a b = (if sint a \<le> sint b then b else a)"

text \<open>The text becomes a C string, empty when it holds a NUL byte; its length is the text's.
  \<open>llama_tokenize\<close> is the C function for the vocabulary and the two flags of the caller.\<close>

definition tokenize :: "(string \<Rightarrow> i32 \<Rightarrow> i32 filler) \<Rightarrow> string \<Rightarrow> i32 list" where
  "tokenize llama_tokenize s =
     (let c_text = (if CHR 0x00 \<in> set s then [] else s); len = of_nat (length s)
      in fill_buffer 0 (llama_tokenize c_text len) (max_signed (len + 32) 64))"

definition token_to_piece :: "(u8 list \<Rightarrow> string) \<Rightarrow> (i32 \<Rightarrow> u8 filler) \<Rightarrow> i32 \<Rightarrow> string" where
  "token_to_piece from_utf8_lossy llama_token_to_piece token = from_utf8_lossy (fill_buffer 0 (llama_token_to_piece token) 128)"

section \<open>Nothing is cut off\<close>

text \<open>What the calls of llama.cpp document: with room for the result they write it and return its
  length, otherwise they return minus the length.\<close>

definition fills :: "'a list \<Rightarrow> 'a filler \<Rightarrow> bool" where
  "fills xs call \<longleftrightarrow> length xs < 2 ^ 31 \<and>
     (\<forall>cap. 0 \<le> sint cap \<longrightarrow>
        (if int (length xs) \<le> sint cap then call cap = (of_nat (length xs), xs)
         else fst (call cap) = - of_nat (length xs)))"

lemma sint_nonneg:
  assumes "0 \<le> sint (c :: i32)" shows "sint c = int (unat c)"
proof -
  have "sint c < 2 ^ 31" using sint_lt [of c] by simp
  with assms have "take_bit 32 (sint c) = sint c" by (simp add: take_bit_int_eq_self_iff)
  then show ?thesis by (simp add: uint_sint)
qed

lemma unat_of_length: "length xs < 2 ^ 31 \<Longrightarrow> unat (of_nat (length xs) :: i32) = length xs"
  by (simp add: unsigned_of_nat take_bit_nat_eq_self_iff)

lemma sint_of_length: "length xs < 2 ^ 31 \<Longrightarrow> sint (of_nat (length xs) :: i32) = int (length xs)"
  by (subst sint_small_u32) (simp_all add: unat_of_length)

lemma sint_minus_length:
  assumes "length xs < 2 ^ 31" "xs \<noteq> []" shows "sint (- of_nat (length xs) :: i32) < 0"
proof (rule ccontr)
  let ?w = "of_nat (length xs) :: i32"
  assume neg: "\<not> sint (- ?w) < 0"
  have "int (unat (- ?w)) < 2147483648"
    using sint_nonneg [of "- ?w"] neg sint_lt [of "- ?w"] by (simp del: of_nat_unat)
  then have "unat (- ?w) < 2147483648" by linarith
  moreover have "unat ?w = length xs" by (rule unat_of_length [OF assms(1)])
  moreover have "(unat (- ?w) + unat ?w) mod 2 ^ 32 = 0"
    using unat_word_ariths(1) [of "- ?w" ?w] by simp
  ultimately show False using assms by (cases xs) (simp_all add: mod_less)
qed

lemma write_front_all: "length xs \<le> length buf \<Longrightarrow> take (length xs) (write_front xs buf) = xs"
  by (simp add: write_front_def)

lemma fill_buffer_complete:
  assumes "fills xs call" "0 \<le> sint cap" shows "fill_buffer zero call cap = xs"
proof (cases "int (length xs) \<le> sint cap")
  case True
  then have "call cap = (of_nat (length xs), xs)" using assms by (simp add: fills_def)
  moreover have "length xs < 2 ^ 31" using assms(1) by (simp add: fills_def)
  moreover have "length xs \<le> unat cap"
    using True unfolding sint_nonneg [OF assms(2)] of_nat_le_iff .
  ultimately show ?thesis by (simp add: fill_buffer_def sint_of_length unat_of_length write_front_all)
next
  case False
  have len: "length xs < 2 ^ 31" "xs \<noteq> []" using assms False by (auto simp: fills_def)
  have n: "fst (call cap) = - of_nat (length xs)" using assms False by (simp add: fills_def)
  have "call (of_nat (length xs)) = (of_nat (length xs), xs)"
    using assms(1) sint_of_length [OF len(1)] by (simp add: fills_def)
  moreover have "length (resize (length xs) zero (write_front (snd (call cap)) (replicate (unat cap) zero))) = length xs"
    by (simp add: resize_def)
  ultimately show ?thesis
    using n sint_minus_length [OF len] unat_of_length [OF len(1)] sint_of_length [OF len(1)]
      write_front_all [of xs "resize (length xs) zero (write_front (snd (call cap)) (replicate (unat cap) zero))"]
    by (simp add: fill_buffer_def case_prod_unfold Let_def)
qed


definition demo_filler :: "'a list \<Rightarrow> 'a filler" where
  "demo_filler xs cap = (if int (length xs) \<le> sint cap then (of_nat (length xs), xs) else (- of_nat (length xs), []))"

lemma demo_fills: "length xs < 2 ^ 31 \<Longrightarrow> fills xs (demo_filler xs)"
  by (simp add: fills_def demo_filler_def)


end
