(* ===== verification/Kv_Cache.thy ===== *)
theory Kv_Cache
  imports Prelude
begin

text \<open>
  Model of \<open>KvCacheManager\<close> (\<open>src/cache/kv_cache.rs\<close>): the window of key/value positions kept
  for a long context.  The memory of the llama.cpp context is an argument, with its
  documented behaviour as the hypothesis \<open>memory_ok\<close>.
\<close>

section \<open>Manager\<close>

record kv_manager =
  kv_hot_window_tokens :: u32
  kv_current_pos :: u32
  kv_compact_interval :: u32
  kv_tokens_since_check :: u32

text \<open>\<open>llama_get_memory\<close> may return null; the least position stored for sequence 0; removing the
  positions of a half-open interval.\<close>

record 'm llama_memory =
  lm_is_null :: "'m \<Rightarrow> bool"
  lm_pos_min :: "'m \<Rightarrow> i32"
  lm_seq_rm :: "i32 \<Rightarrow> i32 \<Rightarrow> 'm \<Rightarrow> bool \<times> 'm"

definition kv_new :: "u32 \<Rightarrow> kv_manager" where
  "kv_new hot_window_tokens = \<lparr>kv_hot_window_tokens = hot_window_tokens, kv_current_pos = 0,
     kv_compact_interval = 256, kv_tokens_since_check = 0\<rparr>"

definition check_and_compact :: "'m llama_memory \<Rightarrow> kv_manager \<Rightarrow> 'm \<Rightarrow> bool \<times> 'm" where
  "check_and_compact lm kv m =
     (if kv_hot_window_tokens kv = 0 \<or> kv_current_pos kv \<le> kv_hot_window_tokens kv then (False, m)
      else let evict_before = kv_current_pos kv - kv_hot_window_tokens kv :: i32
           in if lm_is_null lm m then (False, m)
              else let pos_min = lm_pos_min lm m
                   in if sint evict_before \<le> sint pos_min then (False, m)
                      else lm_seq_rm lm pos_min evict_before m)"

definition kv_advance :: "'m llama_memory \<Rightarrow> kv_manager \<Rightarrow> 'm \<Rightarrow> bool \<times> kv_manager \<times> 'm" where
  "kv_advance lm kv m =
     (let kv1 = kv\<lparr>kv_current_pos := kv_current_pos kv + 1, kv_tokens_since_check := kv_tokens_since_check kv + 1\<rparr>
      in if kv_compact_interval kv1 \<le> kv_tokens_since_check kv1
         then let kv2 = kv1\<lparr>kv_tokens_since_check := 0\<rparr>
              in case check_and_compact lm kv2 m of (done, m') \<Rightarrow> (done, kv2, m')
         else (False, kv1, m))"

definition set_position :: "u32 \<Rightarrow> kv_manager \<Rightarrow> kv_manager" where
  "set_position pos kv = kv\<lparr>kv_current_pos := pos\<rparr>"

section \<open>The window\<close>

text \<open>\<open>cells m\<close> are the positions stored in the memory.  Removing an interval keeps the others;
  decoding one token stores the position after the last one.\<close>

definition memory_ok :: "'m llama_memory \<Rightarrow> ('m \<Rightarrow> 'm) \<Rightarrow> ('m \<Rightarrow> nat set) \<Rightarrow> bool" where
  "memory_ok lm decode1 cells \<longleftrightarrow>
     (\<forall>m. \<not> lm_is_null lm m) \<and>
     (\<forall>m a b. a < b \<and> cells m = {a..<b} \<and> b < 2 ^ 31 \<longrightarrow>
        sint (lm_pos_min lm m) = int a \<and> cells (decode1 m) = {a..<Suc b}) \<and>
     (\<forall>m x y. 0 \<le> sint x \<longrightarrow> (\<exists>m'. lm_seq_rm lm x y m = (True, m') \<and>
        cells m' = {p \<in> cells m. \<not> (sint x \<le> int p \<and> int p < sint y)}))"

definition kv_step :: "'m llama_memory \<Rightarrow> ('m \<Rightarrow> 'm) \<Rightarrow> kv_manager \<times> 'm \<Rightarrow> kv_manager \<times> 'm" where
  "kv_step lm decode1 s = (case kv_advance lm (fst s) (snd s) of (_, kv, m) \<Rightarrow> (kv, decode1 m))"

definition window_inv :: "('m \<Rightarrow> nat set) \<Rightarrow> u32 \<Rightarrow> nat \<Rightarrow> nat \<Rightarrow> kv_manager \<times> 'm \<Rightarrow> bool" where
  "window_inv cells hot prompt n s \<longleftrightarrow>
     kv_hot_window_tokens (fst s) = hot \<and> kv_compact_interval (fst s) = 256 \<and>
     unat (kv_current_pos (fst s)) = prompt + n \<and> unat (kv_tokens_since_check (fst s)) = n mod 256 \<and>
     (\<exists>lo. cells (snd s) = {lo..<prompt + n} \<and> lo < prompt + n \<and> lo \<le> prompt + n - unat hot \<and>
        prompt + n - lo \<le> max prompt (unat hot) + n mod 256)"

lemma mod_step: "Suc n mod 256 = (if n mod 256 + 1 = 256 then 0 else n mod 256 + 1)"
  by (simp add: mod_Suc)

lemma memory_okD:
  assumes "memory_ok lm decode1 cells"
  shows "\<not> lm_is_null lm m"
    "a < b \<Longrightarrow> cells m = {a..<b} \<Longrightarrow> b < 2 ^ 31 \<Longrightarrow> sint (lm_pos_min lm m) = int a"
    "a < b \<Longrightarrow> cells m = {a..<b} \<Longrightarrow> b < 2 ^ 31 \<Longrightarrow> cells (decode1 m) = {a..<Suc b}"
    "0 \<le> sint x \<Longrightarrow> \<exists>m'. lm_seq_rm lm x y m = (True, m') \<and> cells m' = {p \<in> cells m. \<not> (sint x \<le> int p \<and> int p < sint y)}"
  using assms unfolding memory_ok_def by blast+

lemma compact_cells:
  assumes ok: "memory_ok lm decode1 cells" and cells: "cells m = {lo..<q}" "lo < q"
    and kv: "unat (kv_current_pos kv) = Suc q" "Suc q < 2 ^ 31" "2 \<le> unat (kv_hot_window_tokens kv)"
    and lo: "lo \<le> q - unat (kv_hot_window_tokens kv)"
  shows "\<exists>lo'. cells (snd (check_and_compact lm kv m)) = {lo'..<q} \<and> lo' < q \<and>
    lo' \<le> Suc q - unat (kv_hot_window_tokens kv) \<and> Suc q - lo' \<le> unat (kv_hot_window_tokens kv)"
proof (cases "Suc q \<le> unat (kv_hot_window_tokens kv)")
  case True
  then have "check_and_compact lm kv m = (False, m)" using kv by (simp add: check_and_compact_def word_le_nat_alt)
  with True cells lo show ?thesis by (intro exI [of _ lo]) auto
next
  case False
  let ?h = "unat (kv_hot_window_tokens kv)"
  let ?e = "kv_current_pos kv - kv_hot_window_tokens kv"
  have "unat ?e = Suc q - ?h" using False kv by (subst unat_minus_no_wrap) (simp_all add: word_le_nat_alt)
  then have e: "sint ?e = int (Suc q - ?h)" using kv(2) by (subst sint_small_u32) simp_all
  have pm: "sint (lm_pos_min lm m) = int lo" "\<not> lm_is_null lm m"
    using memory_okD(1,2) [OF ok] cells kv(2) by simp_all
  have hot: "kv_hot_window_tokens kv \<noteq> 0" "\<not> kv_current_pos kv \<le> kv_hot_window_tokens kv"
    using kv False by (auto simp: word_le_nat_alt)
  show ?thesis
  proof (cases "Suc q - ?h \<le> lo")
    case True
    then have "sint ?e \<le> sint (lm_pos_min lm m)" unfolding pm(1) e of_nat_le_iff .
    then have "check_and_compact lm kv m = (False, m)" using hot pm(2) by (simp add: check_and_compact_def)
    with True cells lo False show ?thesis by (intro exI [of _ lo]) auto
  next
    case out: False
    have "0 \<le> sint (lm_pos_min lm m)" by (simp add: pm(1))
    from memory_okD(4) [OF ok this, of ?e m] obtain m' where m': "lm_seq_rm lm (lm_pos_min lm m) ?e m = (True, m')"
      "cells m' = {p \<in> cells m. \<not> (sint (lm_pos_min lm m) \<le> int p \<and> int p < sint ?e)}" by blast
    have "\<not> sint ?e \<le> sint (lm_pos_min lm m)" unfolding pm(1) e of_nat_le_iff by (rule out)
    then have "check_and_compact lm kv m = (True, m')" using hot pm(2) m'(1) by (simp add: check_and_compact_def)
    moreover have "cells m' = {Suc q - ?h..<q}"
    proof -
      define x where "x = Suc q - ?h"
      have "lo < x" using out by (simp add: x_def)
      then show ?thesis
        unfolding m'(2) [unfolded pm(1) e of_nat_le_iff of_nat_less_iff cells(1)] x_def [symmetric] by auto
    qed
    moreover have "Suc q - ?h < q" using kv(3) False by simp
    ultimately show ?thesis using False by (intro exI [of _ "Suc q - ?h"]) simp
  qed
qed

lemma window_step:
  assumes ok: "memory_ok lm decode1 cells" and hot: "2 \<le> unat hot" and inv: "window_inv cells hot prompt n s"
    and small: "prompt + Suc n < 2 ^ 31"
  shows "window_inv cells hot prompt (Suc n) (kv_step lm decode1 s)"
proof -
  obtain kv m where s: "s = (kv, m)" by (cases s)
  from inv obtain lo where kv: "kv_hot_window_tokens kv = hot" "kv_compact_interval kv = 256"
    "unat (kv_current_pos kv) = prompt + n" "unat (kv_tokens_since_check kv) = n mod 256"
    and lo: "cells m = {lo..<prompt + n}" "lo < prompt + n" "lo \<le> prompt + n - unat hot"
      "prompt + n - lo \<le> max prompt (unat hot) + n mod 256"
    by (auto simp: window_inv_def s)
  let ?kv1 = "kv\<lparr>kv_current_pos := kv_current_pos kv + 1, kv_tokens_since_check := kv_tokens_since_check kv + 1\<rparr>"
  have pos: "unat (kv_current_pos kv + 1) = prompt + Suc n" using kv(3) small by (subst unat_Suc_u32) simp_all
  have mod: "n mod 256 < 256" by simp
  have tok: "unat (kv_tokens_since_check kv + 1) = n mod 256 + 1" using kv(4) mod by (subst unat_Suc_u32) simp_all
  have dec: "cells (decode1 m') = {a..<Suc (prompt + n)}" if "cells m' = {a..<prompt + n}" "a < prompt + n" for m' a
    using memory_okD(3) [OF ok that(2,1)] small by simp
  show ?thesis
  proof (cases "n mod 256 + 1 = 256")
    case False
    then have "\<not> kv_compact_interval ?kv1 \<le> kv_tokens_since_check ?kv1" using tok mod kv(2) by (simp add: word_le_nat_alt)
    then have "kv_step lm decode1 s = (?kv1, decode1 m)" by (simp add: kv_step_def kv_advance_def s)
    moreover have "Suc n mod 256 = n mod 256 + 1" using False by (simp add: mod_step)
    moreover have "lo \<le> prompt + Suc n - unat hot" "prompt + Suc n - lo \<le> max prompt (unat hot) + (n mod 256 + 1)"
      using lo(3,4) by linarith+
    ultimately show ?thesis using kv pos tok dec [OF lo(1,2)] lo(2)
      by (simp add: window_inv_def) (intro exI [of _ lo], simp)
  next
    case True
    let ?kv2 = "?kv1\<lparr>kv_tokens_since_check := 0\<rparr>"
    have "kv_compact_interval ?kv1 \<le> kv_tokens_since_check ?kv1" using tok True kv(2) by (simp add: word_le_nat_alt)
    then have step: "kv_step lm decode1 s = (?kv2, decode1 (snd (check_and_compact lm ?kv2 m)))"
      by (simp add: kv_step_def kv_advance_def s case_prod_unfold Let_def)
    obtain lo' where lo': "cells (snd (check_and_compact lm ?kv2 m)) = {lo'..<prompt + n}" "lo' < prompt + n"
      "lo' \<le> Suc (prompt + n) - unat hot" "Suc (prompt + n) - lo' \<le> unat hot"
      using compact_cells [OF ok lo(1,2), of ?kv2] pos small hot lo(3) kv(1) by auto
    have "Suc n mod 256 = 0" using True by (simp add: mod_step)
    with step kv pos dec [OF lo'(1,2)] lo' show ?thesis by (auto simp: window_inv_def intro!: exI [of _ lo'])
  qed
qed


text \<open>A memory that keeps the list of its positions.\<close>

definition list_memory :: "nat list llama_memory" where
  "list_memory = \<lparr>lm_is_null = (\<lambda>_. False), lm_pos_min = (\<lambda>m. if m = [] then -1 else of_nat (Min (set m))),
     lm_seq_rm = (\<lambda>x y m. (True, filter (\<lambda>p. \<not> (sint x \<le> int p \<and> int p < sint y)) m))\<rparr>"

definition list_decode :: "nat list \<Rightarrow> nat list" where
  "list_decode m = m @ [if m = [] then 0 else Suc (Max (set m))]"

lemma list_memory_ok: "memory_ok list_memory list_decode set"
proof -
  have "sint (lm_pos_min list_memory m) = int a \<and> set (list_decode m) = {a..<Suc b}" if "a < b" "set m = {a..<b}" "b < 2 ^ 31" for m a b
  proof -
    have "Min {a..<b} = a" using that(1) by (intro Min_eqI) auto
    moreover have "Max {a..<b} = b - 1" using that(1) by (intro Max_eqI) auto
    ultimately have "m \<noteq> []" "Min (set m) = a" "Max (set m) = b - 1" using that(1,2) by auto
    moreover have "unat (of_nat a :: u32) = a" using that by (simp add: unsigned_of_nat take_bit_nat_eq_self_iff)
    moreover from this that have "sint (of_nat a :: u32) = int a" by (subst sint_small_u32) simp_all
    ultimately show ?thesis using that by (auto simp: list_memory_def list_decode_def)
  qed
  moreover have "\<not> lm_is_null list_memory m" for m by (simp add: list_memory_def)
  moreover have "\<exists>m'. lm_seq_rm list_memory x y m = (True, m') \<and> set m' = {p \<in> set m. \<not> (sint x \<le> int p \<and> int p < sint y)}" for x y m
    by (simp add: list_memory_def)
  ultimately show ?thesis unfolding memory_ok_def by blast
qed


end
