(* ===== verification/Generation.thy ===== *)
theory Generation
  imports Expert_Loading Eval_Callback Kv_Cache
begin

text \<open>
  Model of the generation loops of \<open>src/compute/inference.rs\<close> and of the wrappers of
  \<open>src/compute/ffi.rs\<close> they call.  llama.cpp is an argument: a record of its functions on a
  world that holds everything they may change (the context, the channel to the client, the
  prefetch state that the evaluation callback works on).
\<close>

section \<open>The foreign functions\<close>

record generated_token =
  gt_text :: string
  gt_token_id :: i32
  gt_tok_per_sec :: f64
  gt_is_eog :: bool

text \<open>\<open>la_decode\<close> is \<open>llama_decode\<close> with its return code; \<open>la_send\<close> is \<open>true\<close> while the receiver
  exists; \<open>la_emit\<close> is the telemetry channel; \<open>la_now\<close> is the clock in nanoseconds.\<close>

record 'w llama_api =
  la_decode :: "i32 list \<Rightarrow> 'w \<Rightarrow> i32 \<times> 'w"
  la_sample :: "'w \<Rightarrow> i32 \<times> 'w"
  la_is_eog :: "i32 \<Rightarrow> bool"
  la_piece :: "i32 \<Rightarrow> string"
  la_send :: "generated_token \<Rightarrow> 'w \<Rightarrow> bool \<times> 'w"
  la_emit :: "f64 \<Rightarrow> string \<Rightarrow> 'w \<Rightarrow> 'w"
  la_now :: "'w \<Rightarrow> nat"

datatype gen_error = EmptyPrompt | KvCacheFull | DecodeFailed i32

definition ctx_decode :: "'w llama_api \<Rightarrow> i32 list \<Rightarrow> 'w \<Rightarrow> gen_error option \<times> 'w" where
  "ctx_decode api tokens w = (case la_decode api tokens w of (ret, w') \<Rightarrow>
     (if ret = 0 then None else if ret = 1 then Some KvCacheFull else Some (DecodeFailed ret), w'))"

section \<open>The loop\<close>

record gen_state =
  gs_text :: string
  gs_n_generated :: u32

record generation_result =
  gr_text :: string
  gr_tokens_generated :: u32
  gr_prompt_tokens :: u32
  gr_tok_per_sec_avg :: f64
  gr_prompt_eval_ms :: f64

text \<open>What the three variants do around the calls of llama.cpp.\<close>

record 'w gen_hooks =
  gh_before_prompt :: "'w \<Rightarrow> 'w outcome"
  gh_after_prompt :: "u32 \<Rightarrow> 'w \<Rightarrow> 'w"
  gh_between :: "'w \<Rightarrow> 'w outcome"
  gh_decoded :: "f64 \<Rightarrow> 'w \<Rightarrow> 'w"

definition elapsed_secs :: "'w llama_api \<Rightarrow> nat \<Rightarrow> 'w \<Rightarrow> f64" where
  "elapsed_secs api start w = as_secs_f64 (la_now api w - start)"

definition token_rate :: "u32 \<Rightarrow> f64 \<Rightarrow> f64" where
  "token_rate n elapsed = (if f_lt (Fin 0) elapsed then f_div (f_of_word n) elapsed else Fin 0)"

text \<open>One token: sample it, count it, tell the client.  The flag says whether to go on.\<close>

definition emit_token :: "'w llama_api \<Rightarrow> nat \<Rightarrow> gen_state \<Rightarrow> 'w \<Rightarrow> i32 \<times> bool \<times> gen_state \<times> 'w" where
  "emit_token api start st w =
     (case la_sample api w of (token_id, w1) \<Rightarrow>
       (let eog = la_is_eog api token_id; piece = la_piece api token_id;
            st1 = \<lparr>gs_text = gs_text st @ piece, gs_n_generated = gs_n_generated st + 1\<rparr>;
            tok_per_sec = token_rate (gs_n_generated st1) (elapsed_secs api start w1);
            w2 = la_emit api tok_per_sec piece w1
        in case la_send api \<lparr>gt_text = piece, gt_token_id = token_id, gt_tok_per_sec = tok_per_sec, gt_is_eog = eog\<rparr> w2 of
             (open_channel, w3) \<Rightarrow> (token_id, open_channel \<and> \<not> eog, st1, w3)))"

fun gen_loop :: "'w llama_api \<Rightarrow> 'w gen_hooks \<Rightarrow> nat \<Rightarrow> nat \<Rightarrow> gen_state \<Rightarrow> 'w \<Rightarrow> (gen_error + gen_state \<times> 'w) outcome" where
  "gen_loop api hooks start 0 st w = Ret (Inr (st, w))"
| "gen_loop api hooks start (Suc k) st w =
     (case emit_token api start st w of (token_id, go_on, st1, w1) \<Rightarrow>
       (if \<not> go_on then Ret (Inr (st1, w1))
        else obind (gh_between hooks w1) (\<lambda>w2.
          case ctx_decode api [token_id] w2 of
            (Some e, w3) \<Rightarrow> Ret (Inl e)
          | (None, w3) \<Rightarrow> gen_loop api hooks start k st1
              (gh_decoded hooks (f_mul (as_secs_f64 (la_now api w3 - la_now api w2)) (Fin 1000)) w3))))"

fun decode_chunks :: "'w llama_api \<Rightarrow> i32 list list \<Rightarrow> 'w \<Rightarrow> gen_error option \<times> 'w" where
  "decode_chunks api [] w = (None, w)"
| "decode_chunks api (c # cs) w = (case ctx_decode api c w of
      (Some e, w1) \<Rightarrow> (Some e, w1)
    | (None, w1) \<Rightarrow> decode_chunks api cs w1)"

text \<open>The prompt is decoded in chunks of \<open>n_batch\<close> tokens; \<open>chunks(0)\<close> panics.\<close>

definition generate :: "'w llama_api \<Rightarrow> 'w gen_hooks \<Rightarrow> u32 \<Rightarrow> u32 \<Rightarrow> i32 list \<Rightarrow> 'w \<Rightarrow>
    (gen_error + generation_result \<times> 'w) outcome" where
  "generate api hooks n_batch max_tokens tokens w =
     (if tokens = [] then Ret (Inl EmptyPrompt)
      else obind (gh_before_prompt hooks w) (\<lambda>w1.
        if n_batch = 0 then Panic
        else case decode_chunks api (chunks (unat n_batch) tokens) w1 of
          (Some e, w2) \<Rightarrow> Ret (Inl e)
        | (None, w2) \<Rightarrow>
            (let prompt_len = of_nat (length tokens);
                 prompt_ms = f_mul (as_secs_f64 (la_now api w2 - la_now api w1)) (Fin 1000);
                 w3 = gh_after_prompt hooks prompt_len w2;
                 start = la_now api w3
             in omap (\<lambda>r. case r of
                  Inl e \<Rightarrow> Inl e
                | Inr (st, w4) \<Rightarrow> Inr (\<lparr>gr_text = gs_text st, gr_tokens_generated = gs_n_generated st,
                      gr_prompt_tokens = prompt_len,
                      gr_tok_per_sec_avg = token_rate (gs_n_generated st) (elapsed_secs api start w4),
                      gr_prompt_eval_ms = prompt_ms\<rparr>, w4))
                (gen_loop api hooks start (unat max_tokens) \<lparr>gs_text = [], gs_n_generated = 0\<rparr> w3))))"

section \<open>The three variants\<close>

text \<open>\<open>generate_blocking\<close>: nothing around the calls.\<close>

definition plain_hooks :: "'w gen_hooks" where
  "plain_hooks = \<lparr>gh_before_prompt = Ret, gh_after_prompt = (\<lambda>_ w. w), gh_between = Ret, gh_decoded = (\<lambda>_ w. w)\<rparr>"

definition generate_blocking :: "'w llama_api \<Rightarrow> u32 \<Rightarrow> u32 \<Rightarrow> i32 list \<Rightarrow> 'w \<Rightarrow> (gen_error + generation_result \<times> 'w) outcome" where
  "generate_blocking api n_batch max_tokens tokens w = generate api plain_hooks n_batch max_tokens tokens w"

text \<open>\<open>generate_from_loaded\<close>: the world holds the prefetch state of the loaded model, if any.\<close>

definition loaded_hooks :: "prefetch_config option \<Rightarrow> bool \<Rightarrow> (prefetch_state \<times> 'x) gen_hooks" where
  "loaded_hooks cfg keep_resident =
     (let prefetch = (\<lambda>(s, x). case cfg of None \<Rightarrow> (s, x) | Some c \<Rightarrow> (prefetch_all_nvme c s, x))
      in \<lparr>gh_before_prompt = (\<lambda>w. Ret (prefetch w)), gh_after_prompt = (\<lambda>_ w. w),
          gh_between = (\<lambda>w. Ret (if keep_resident then w else prefetch w)), gh_decoded = (\<lambda>_ w. w)\<rparr>)"

definition generate_from_loaded :: "(prefetch_state \<times> 'x) llama_api \<Rightarrow> prefetch_config option \<Rightarrow> bool \<Rightarrow> u32 \<Rightarrow> u32 \<Rightarrow>
    i32 list \<Rightarrow> prefetch_state \<times> 'x \<Rightarrow> (gen_error + generation_result \<times> prefetch_state \<times> 'x) outcome" where
  "generate_from_loaded api cfg keep_resident n_batch max_tokens tokens w =
     generate api (loaded_hooks cfg keep_resident) n_batch max_tokens tokens w"

text \<open>\<open>generate_with_nvme_scheduling\<close>: the cache window, and prefetching by mode.  \<open>early_layers\<close> are
  the first four streamed layers, those not yet on their way.\<close>

record stream_mode =
  sm_keep_resident :: bool
  sm_expert_streaming :: bool
  sm_dense_ffn_streaming :: bool

definition any_streaming :: "stream_mode \<Rightarrow> bool" where
  "any_streaming mode \<longleftrightarrow> sm_expert_streaming mode \<or> sm_dense_ffn_streaming mode"

definition first_streamed :: "prefetch_config \<Rightarrow> u32 \<Rightarrow> u32 list" where
  "first_streamed cfg num_layers =
     (let start = of_nat (length (pc_resident_ffn_layers cfg)); stop = min (start + 4) num_layers
      in filter (hm_contains (pc_dense_ffn_layouts cfg)) (map of_nat [unat start..<unat stop]))"

definition early_layers :: "prefetch_config \<Rightarrow> u32 \<Rightarrow> prefetch_state \<Rightarrow> u32 list" where
  "early_layers cfg num_layers s =
     filter (\<lambda>l. status_of s l \<noteq> Some Loaded \<and> status_of s l \<noteq> Some Loading) (first_streamed cfg num_layers)"

type_synonym 'm nvme_world = "prefetch_state \<times> kv_manager option \<times> 'm"

definition compact_window :: "'m llama_memory \<Rightarrow> kv_manager option \<Rightarrow> 'm \<Rightarrow> kv_manager option \<times> 'm" where
  "compact_window lm kv m = (case kv of
      None \<Rightarrow> (None, m)
    | Some k \<Rightarrow> (case kv_advance lm k m of (_, k', m') \<Rightarrow> (Some k', m')))"

definition nvme_between :: "'m llama_memory \<Rightarrow> prefetch_config \<Rightarrow> stream_mode \<Rightarrow> u32 \<Rightarrow> 'm nvme_world \<Rightarrow> 'm nvme_world outcome" where
  "nvme_between lm cfg mode num_layers w = (case w of (s, kv, m) \<Rightarrow>
     (let (kv', m') = compact_window lm kv m;
          s1 = (if \<not> sm_keep_resident mode \<and> \<not> any_streaming mode then prefetch_all_nvme cfg s else s)
      in omap (\<lambda>s2. (s2, kv', m'))
           (if sm_dense_ffn_streaming mode then prefetch_each cfg (early_layers cfg num_layers s1) s1 else Ret s1)))"

definition nvme_hooks :: "'m llama_memory \<Rightarrow> prefetch_config \<Rightarrow> stream_mode \<Rightarrow> u32 \<Rightarrow> ('m nvme_world) gen_hooks" where
  "nvme_hooks lm cfg mode num_layers =
     \<lparr>gh_before_prompt = Ret,
      gh_after_prompt = (\<lambda>prompt_len (s, kv, m). (s, map_option (set_position prompt_len) kv, m)),
      gh_between = nvme_between lm cfg mode num_layers,
      gh_decoded = (\<lambda>ms (s, x). (record_decode ms s, x))\<rparr>"

section \<open>Transcript\<close>

text \<open>To speak of what the loop asks of llama.cpp and tells the client, any API is wrapped so that
  it writes down its calls of \<open>decode\<close> and \<open>send\<close>.\<close>

datatype api_call = Decoded "i32 list" | Sent generated_token

definition logged :: "'w llama_api \<Rightarrow> ('w \<times> api_call list) llama_api" where
  "logged api =
     \<lparr>la_decode = (\<lambda>ts (w, calls). case la_decode api ts w of (r, w') \<Rightarrow> (r, (w', calls @ [Decoded ts]))),
      la_sample = (\<lambda>(w, calls). case la_sample api w of (t, w') \<Rightarrow> (t, (w', calls))),
      la_is_eog = la_is_eog api, la_piece = la_piece api,
      la_send = (\<lambda>t (w, calls). case la_send api t w of (r, w') \<Rightarrow> (r, (w', calls @ [Sent t]))),
      la_emit = (\<lambda>r p (w, calls). (la_emit api r p w, calls)),
      la_now = (\<lambda>(w, calls). la_now api w)\<rparr>"

definition lift_hooks :: "'w gen_hooks \<Rightarrow> ('w \<times> api_call list) gen_hooks" where
  "lift_hooks h =
     \<lparr>gh_before_prompt = (\<lambda>(w, calls). omap (\<lambda>w'. (w', calls)) (gh_before_prompt h w)),
      gh_after_prompt = (\<lambda>n (w, calls). (gh_after_prompt h n w, calls)),
      gh_between = (\<lambda>(w, calls). omap (\<lambda>w'. (w', calls)) (gh_between h w)),
      gh_decoded = (\<lambda>ms (w, calls). (gh_decoded h ms w, calls))\<rparr>"

fun decoded_of :: "api_call list \<Rightarrow> i32 list" where
  "decoded_of [] = []"
| "decoded_of (Decoded ts # cs) = ts @ decoded_of cs"
| "decoded_of (Sent t # cs) = decoded_of cs"

fun sent_of :: "api_call list \<Rightarrow> generated_token list" where
  "sent_of [] = []"
| "sent_of (Decoded ts # cs) = sent_of cs"
| "sent_of (Sent t # cs) = t # sent_of cs"

definition batches_ok :: "nat \<Rightarrow> api_call list \<Rightarrow> bool" where
  "batches_ok n cs \<longleftrightarrow> (\<forall>c \<in> set cs. case c of Decoded ts \<Rightarrow> 0 < length ts \<and> length ts \<le> n | Sent _ \<Rightarrow> True)"

lemma decoded_of_append [simp]: "decoded_of (a @ b) = decoded_of a @ decoded_of b"
  by (induction a rule: decoded_of.induct) auto

lemma sent_of_append [simp]: "sent_of (a @ b) = sent_of a @ sent_of b"
  by (induction a rule: sent_of.induct) auto

lemma batches_ok_append [simp]: "batches_ok n (a @ b) \<longleftrightarrow> batches_ok n a \<and> batches_ok n b"
  by (auto simp: batches_ok_def)

text \<open>What one run of the loop leaves behind: \<open>stopped\<close> says that it ended at an end-of-generation
  token or because the client left.\<close>

definition told :: "'w llama_api \<Rightarrow> i32 \<Rightarrow> generated_token \<Rightarrow> bool" where
  "told api t tok \<longleftrightarrow> gt_token_id tok = t \<and> gt_text tok = la_piece api t \<and> gt_is_eog tok = la_is_eog api t"

lemma told_text: "list_all2 (told api) toks sent \<Longrightarrow> concat (map gt_text sent) = concat (map (la_piece api) toks)"
  by (induction rule: list_all2_induct) (simp_all add: told_def)

definition run_ok :: "'w llama_api \<Rightarrow> nat \<Rightarrow> bool \<Rightarrow> i32 list \<Rightarrow> bool" where
  "run_ok api k stopped toks \<longleftrightarrow> length toks \<le> k \<and>
     (if stopped then toks \<noteq> [] \<and> (\<forall>t \<in> set (butlast toks). \<not> la_is_eog api t)
      else length toks = k \<and> (\<forall>t \<in> set toks. \<not> la_is_eog api t))"

lemma logged_emit:
  assumes "emit_token (logged api) start st (w, calls) = (t, go_on, st1, (w1, calls1))"
  shows "\<exists>tok. calls1 = calls @ [Sent tok] \<and> told api t tok \<and> gs_text st1 = gs_text st @ la_piece api t \<and> gs_n_generated st1 = gs_n_generated st + 1 \<and>
    (go_on \<longrightarrow> \<not> la_is_eog api t)"
  using assms by (auto simp: emit_token_def logged_def Let_def told_def split: prod.splits)

lemma logged_decode:
  assumes "ctx_decode (logged api) ts (w, calls) = (e, (w1, calls1))"
  shows "calls1 = calls @ [Decoded ts]"
  using assms by (auto simp: ctx_decode_def logged_def split: prod.splits)

lemma lift_hooks_sel:
  "gh_before_prompt (lift_hooks h) (w, calls) = omap (\<lambda>w'. (w', calls)) (gh_before_prompt h w)"
  "gh_after_prompt (lift_hooks h) n (w, calls) = (gh_after_prompt h n w, calls)"
  "gh_between (lift_hooks h) (w, calls) = omap (\<lambda>w'. (w', calls)) (gh_between h w)"
  "gh_decoded (lift_hooks h) ms (w, calls) = (gh_decoded h ms w, calls)"
  by (simp_all add: lift_hooks_def)

lemma gen_loop_transcript:
  assumes "gen_loop (logged api) (lift_hooks h) start k st (w, calls) = Ret (Inr (st', (w', calls')))" "0 < n"
  shows "\<exists>toks stopped new. calls' = calls @ new \<and> list_all2 (told api) toks (sent_of new) \<and>
    decoded_of new = (if stopped then butlast toks else toks) \<and> batches_ok n new \<and> run_ok api k stopped toks \<and>
    gs_text st' = gs_text st @ concat (map (la_piece api) toks) \<and>
    gs_n_generated st' = gs_n_generated st + of_nat (length toks)"
  using assms(1)
proof (induction k arbitrary: st w calls)
  case 0
  then show ?case by (intro exI [of _ "[]"] exI [of _ False]) (simp add: run_ok_def batches_ok_def)
next
  case (Suc k)
  obtain t go_on st1 w1 calls1 where e: "emit_token (logged api) start st (w, calls) = (t, go_on, st1, (w1, calls1))"
    by (metis prod.exhaust)
  from logged_emit [OF e] obtain tok where em: "calls1 = calls @ [Sent tok]" "told api t tok"
    "gs_text st1 = gs_text st @ la_piece api t" "gs_n_generated st1 = gs_n_generated st + 1" "go_on \<longrightarrow> \<not> la_is_eog api t" by blast
  show ?case
  proof (cases go_on)
    case False
    then have "st' = st1" "calls' = calls1" using Suc.prems e by simp_all
    with em show ?thesis
      by (intro exI [of _ "[t]"] exI [of _ True] exI [of _ "[Sent tok]"]) (simp add: run_ok_def batches_ok_def)
  next
    case True
    from Suc.prems e True obtain w2 where w2: "gh_between h w1 = Ret w2"
      "(case ctx_decode (logged api) [t] (w2, calls1) of (Some e, w3) \<Rightarrow> Ret (Inl e)
        | (None, w3) \<Rightarrow> gen_loop (logged api) (lift_hooks h) start k st1
            (gh_decoded (lift_hooks h) (f_mul (as_secs_f64 (la_now (logged api) w3 - la_now (logged api) (w2, calls1))) (Fin 1000)) w3)) =
       Ret (Inr (st', (w', calls')))"
      by (auto simp: obind_Ret omap_Ret lift_hooks_sel)
    obtain er w3 calls3 where d: "ctx_decode (logged api) [t] (w2, calls1) = (er, (w3, calls3))" by (metis prod.exhaust)
    from w2(2) d have "er = None" by (cases er) auto
    from w2(2) d this obtain w4 where "gen_loop (logged api) (lift_hooks h) start k st1 (w4, calls3) = Ret (Inr (st', (w', calls')))"
      by (auto simp: lift_hooks_sel)
    from Suc.IH [OF this] obtain toks stopped new where r: "calls' = calls3 @ new" "list_all2 (told api) toks (sent_of new)"
      "decoded_of new = (if stopped then butlast toks else toks)" "batches_ok n new" "run_ok api k stopped toks"
      "gs_text st' = gs_text st1 @ concat (map (la_piece api) toks)"
      "gs_n_generated st' = gs_n_generated st1 + of_nat (length toks)" by blast
    have "calls' = calls @ ([Sent tok, Decoded [t]] @ new)" using r(1) logged_decode [OF d] em by simp
    moreover have "run_ok api (Suc k) stopped (t # toks)" using r(5) em True by (auto simp: run_ok_def)
    moreover have "decoded_of ([Sent tok, Decoded [t]] @ new) = (if stopped then butlast (t # toks) else t # toks)"
      using r(3,5) by (auto simp: run_ok_def)
    ultimately show ?thesis using r em assms(2)
      by (intro exI [of _ "t # toks"] exI [of _ stopped] exI [of _ "[Sent tok, Decoded [t]] @ new"]) (simp add: batches_ok_def)
  qed
qed

lemma chunks_sizes: "c \<in> set (chunks n xs) \<Longrightarrow> 0 < n \<Longrightarrow> 0 < length c \<and> length c \<le> n"
proof (induction n xs rule: chunks.induct)
  case (1 n xs)
  then show ?case by (subst (asm) chunks.simps) (auto split: if_splits)
qed

lemma decode_chunks_transcript:
  assumes "decode_chunks (logged api) cs (w, calls) = (None, (w', calls'))"
  shows "\<exists>new. calls' = calls @ new \<and> sent_of new = [] \<and> decoded_of new = concat cs \<and>
    ((\<forall>c \<in> set cs. 0 < length c \<and> length c \<le> n) \<longrightarrow> batches_ok n new)"
  using assms
proof (induction cs arbitrary: w calls)
  case (Cons c cs)
  obtain er w1 calls1 where d: "ctx_decode (logged api) c (w, calls) = (er, (w1, calls1))" by (metis prod.exhaust)
  with Cons.prems have "decode_chunks (logged api) cs (w1, calls1) = (None, (w', calls'))" by (cases er) auto
  from Cons.IH [OF this] obtain new where "calls' = calls1 @ new" "sent_of new = []" "decoded_of new = concat cs"
    "(\<forall>c \<in> set cs. 0 < length c \<and> length c \<le> n) \<longrightarrow> batches_ok n new" by blast
  with logged_decode [OF d] show ?case by (intro exI [of _ "Decoded c # new"]) (auto simp: batches_ok_def)
qed (simp add: batches_ok_def)

lemma generate_calls:
  assumes "generate (logged api) (lift_hooks h) n_batch max_tokens tokens (w, []) = Ret (Inr (res, (w', calls)))"
  shows "\<exists>toks stopped. list_all2 (told api) toks (sent_of calls) \<and>
    decoded_of calls = tokens @ (if stopped then butlast toks else toks) \<and>
    batches_ok (unat n_batch) calls \<and> run_ok api (unat max_tokens) stopped toks \<and>
    gr_text res = concat (map (la_piece api) toks) \<and> unat (gr_tokens_generated res) = length toks"
proof -
  from assms obtain w1 where w1: "0 < n_batch"
    "(case decode_chunks (logged api) (chunks (unat n_batch) tokens) (w1, []) of
          (Some e, w2) \<Rightarrow> Ret (Inl e)
        | (None, w2) \<Rightarrow>
            (let prompt_len = of_nat (length tokens);
                 prompt_ms = f_mul (as_secs_f64 (la_now (logged api) w2 - la_now (logged api) (w1, []))) (Fin 1000);
                 w3 = gh_after_prompt (lift_hooks h) prompt_len w2;
                 start = la_now (logged api) w3
             in omap (\<lambda>r. case r of
                  Inl e \<Rightarrow> Inl e
                | Inr (st, w4) \<Rightarrow> Inr (\<lparr>gr_text = gs_text st, gr_tokens_generated = gs_n_generated st,
                      gr_prompt_tokens = prompt_len,
                      gr_tok_per_sec_avg = token_rate (gs_n_generated st) (elapsed_secs (logged api) start w4),
                      gr_prompt_eval_ms = prompt_ms\<rparr>, w4))
                (gen_loop (logged api) (lift_hooks h) start (unat max_tokens) \<lparr>gs_text = [], gs_n_generated = 0\<rparr> w3))) =
     Ret (Inr (res, (w', calls)))"
    by (auto simp: generate_def obind_Ret omap_Ret lift_hooks_sel word_neq_0_conv split: if_splits)
  obtain er w2 calls2 where d: "decode_chunks (logged api) (chunks (unat n_batch) tokens) (w1, []) = (er, (w2, calls2))"
    by (metis prod.exhaust)
  from w1(2) d have "er = None" by (cases er) auto
  obtain w3 where w3: "gh_after_prompt (lift_hooks h) (of_nat (length tokens)) (w2, calls2) = (w3, calls2)"
    by (simp add: lift_hooks_sel)
  define start where "start = la_now (logged api) (w3, calls2)"
  obtain x where x: "gen_loop (logged api) (lift_hooks h) start (unat max_tokens) \<lparr>gs_text = [], gs_n_generated = 0\<rparr> (w3, calls2) = Ret x"
    using w1(2) by (auto simp: d \<open>er = None\<close> w3 Let_def omap_Ret start_def)
  have "\<exists>st. x = Inr (st, (w', calls)) \<and> gr_text res = gs_text st \<and> gr_tokens_generated res = gs_n_generated st"
    using w1(2) by (cases x) (auto simp: d \<open>er = None\<close> w3 Let_def x [unfolded start_def])
  then obtain st where g: "gen_loop (logged api) (lift_hooks h) start (unat max_tokens) \<lparr>gs_text = [], gs_n_generated = 0\<rparr> (w3, calls2) =
      Ret (Inr (st, (w', calls)))" "gr_text res = gs_text st" "gr_tokens_generated res = gs_n_generated st"
    using x by auto
  have n: "0 < unat n_batch" using w1(1) by (simp add: word_less_nat_alt)
  from decode_chunks_transcript [of api _ w1 "[]" w2 calls2 "unat n_batch"] d \<open>er = None\<close>
  have p: "sent_of calls2 = []" "decoded_of calls2 = tokens" "batches_ok (unat n_batch) calls2"
    using chunks_sizes [OF _ n] concat_chunks [OF n] by auto
  from gen_loop_transcript [OF g(1) n] obtain toks stopped new where r: "calls = calls2 @ new" "list_all2 (told api) toks (sent_of new)"
    "decoded_of new = (if stopped then butlast toks else toks)" "batches_ok (unat n_batch) new"
    "run_ok api (unat max_tokens) stopped toks" "gs_text st = concat (map (la_piece api) toks)"
    "gs_n_generated st = of_nat (length toks)" by auto
  have "length toks < 2 ^ 32" using r(5) unsigned_less [of max_tokens, where ?'a = nat] by (auto simp: run_ok_def)
  then have "unat (gr_tokens_generated res) = length toks"
    by (simp add: g(3) r(7) unsigned_of_nat take_bit_nat_eq_self_iff)
  with r p g(2) show ?thesis by (intro exI [of _ toks] exI [of _ stopped]) simp
qed

text \<open>C28. Generation asks the model for exactly the right tokens and tells the client exactly what
  it generated.  In each of the three variants (whatever the surrounding prefetching does),
  when it returns: the prompt is decoded in order in batches of at most \<open>n_batch\<close>, then every
  generated token in order, except the one it stopped at; the client is sent exactly the
  generated tokens, with their pieces; the returned text is the concatenation of their pieces, the count is
  their number, at most \<open>max_tokens\<close>; none but the last is an end-of-generation token.\<close>

theorem generation_transcript:
  assumes "generate (logged api) (lift_hooks h) n_batch max_tokens tokens (w, []) = Ret (Inr (res, (w', calls)))"
  shows "\<exists>toks stopped. list_all2 (told api) toks (sent_of calls) \<and>
    decoded_of calls = tokens @ (if stopped then butlast toks else toks) \<and>
    batches_ok (unat n_batch) calls \<and> run_ok api (unat max_tokens) stopped toks \<and>
    gr_text res = concat (map (la_piece api) toks) \<and> unat (gr_tokens_generated res) = length toks"
  using assms by (rule generate_calls)

text \<open>A model that will answer with the tokens of a list; token 2 ends the generation.\<close>

definition script_api :: "i32 list llama_api" where
  "script_api = \<lparr>la_decode = (\<lambda>_ w. (0, w)), la_sample = (\<lambda>w. case w of [] \<Rightarrow> (2, []) | t # w' \<Rightarrow> (t, w')),
     la_is_eog = (\<lambda>t. t = 2), la_piece = (\<lambda>t. if t = 2 then [] else ''a''), la_send = (\<lambda>_ w. (True, w)),
     la_emit = (\<lambda>_ _ w. w), la_now = (\<lambda>_. 0)\<rparr>"

lemma script_run:
  "\<exists>res w' calls. generate (logged script_api) (lift_hooks plain_hooks) 2 10 [5, 6, 7] ([3, 4, 2], []) = Ret (Inr (res, (w', calls))) \<and>
     map gt_token_id (sent_of calls) = [3, 4, 2] \<and> length (decoded_of calls) = 5 \<and> gr_text res = ''aa''"
proof -
  have "(case generate (logged script_api) (lift_hooks plain_hooks) 2 10 [5, 6, 7] ([3, 4, 2], []) of
      Ret (Inr (res, (w', calls))) \<Rightarrow> map gt_token_id (sent_of calls) = [3, 4, 2] \<and> length (decoded_of calls) = 5 \<and> gr_text res = ''aa''
    | _ \<Rightarrow> False)"
    by code_simp
  then show ?thesis by (auto split: outcome.splits sum.splits prod.splits)
qed

theorem generation_transcript_witness:
  "\<exists>res w' calls. generate (logged script_api) (lift_hooks plain_hooks) 2 10 [5, 6, 7] ([3, 4, 2], []) = Ret (Inr (res, (w', calls))) \<and>
     decoded_of calls = [5, 6, 7, 3, 4] \<and> map gt_token_id (sent_of calls) = [3, 4, 2] \<and> gr_text res = ''aa''"
proof -
  obtain res w' calls where r: "generate (logged script_api) (lift_hooks plain_hooks) 2 10 [5, 6, 7] ([3, 4, 2], []) = Ret (Inr (res, (w', calls)))"
      "map gt_token_id (sent_of calls) = [3, 4, 2]" "length (decoded_of calls) = 5" "gr_text res = ''aa''"
    using script_run by (elim exE conjE) (rule that)
  from generation_transcript [OF r(1)] obtain toks stopped where t: "list_all2 (told script_api) toks (sent_of calls)"
    "decoded_of calls = [5, 6, 7] @ (if stopped then butlast toks else toks)" by blast
  have "toks = map gt_token_id (sent_of calls)" using t(1) by (induction rule: list_all2_induct) (simp_all add: told_def)
  then have "decoded_of calls = [5, 6, 7, 3, 4]"
    using t r(2,3) by (auto split: if_splits)
  with r show ?thesis by (intro exI [of _ res] exI [of _ w'] exI [of _ calls]) simp
qed

end
