(* ===== verification/Gpu_Layers.thy ===== *)
theory Gpu_Layers
  imports Model_Loading Placement
begin

text \<open>
  Model of \<open>compute_gpu_budget\<close> and \<open>gpu_layers_from_placement\<close> of
  \<open>src/compute/inference.rs\<close>: how many layers llama.cpp may put on the GPU.  The lemmas say
  that the number is safe on both sides: the tensors of the layers below the cut fit in the
  budget, and every tensor the plan leaves on NVMe is routed to the streaming buffer by the
  override patterns made for that number.
\<close>

section \<open>Budget\<close>

definition compute_gpu_budget :: "hardware_profile \<Rightarrow> model_metadata \<Rightarrow> u32 \<Rightarrow> u64" where
  "compute_gpu_budget hw metadata context_length =
     (let gpu_working_set = (case hw_gpu hw of None \<Rightarrow> 0 | Some g \<Rightarrow> gp_vram_bytes g);
          head_dim = (if 0 < mm_num_heads metadata
                      then ucast (mm_embedding_dim metadata) div ucast (mm_num_heads metadata) else 0);
          kv_on_gpu = 2 * ucast (mm_num_layers metadata) * ucast (mm_num_kv_heads metadata) * head_dim * 2 *
                      ucast context_length;
          runtime_overhead = 2 * 2 ^ 30
      in saturating_sub (saturating_sub gpu_working_set kv_on_gpu) runtime_overhead)"

section \<open>Number of layers\<close>

text \<open>\<open>i32\<close> comparisons are signed.\<close>

definition max_i32 :: "i32 \<Rightarrow> i32 \<Rightarrow> i32" where
  "max_i32 a b = (if sint a \<le> sint b then b else a)"

definition min_i32 :: "i32 \<Rightarrow> i32 \<Rightarrow> i32" where
  "min_i32 a b = (if sint a \<le> sint b then a else b)"

text \<open>Tensors that stream through the pool do not count.\<close>

definition streamed :: "inference_mode \<Rightarrow> tensor_info \<Rightarrow> bool" where
  "streamed mode t \<longleftrightarrow>
     (mode = ExpertStreaming \<and> role_from_name (ti_name t) = MoeFusedExperts) \<or>
     (mode = DenseFfnStreaming \<and> is_ffn (role_from_name (ti_name t)))"

record layer_scan =
  ls_max_layer :: i32
  ls_first_nvme_layer :: "u32 option"
  ls_layer_sizes :: "(u32, u64) hmap"

definition scan_tensor :: "placement_plan \<Rightarrow> tensor_info \<Rightarrow> layer_scan \<Rightarrow> layer_scan" where
  "scan_tensor plan t s = (case ti_layer_index t of
      None \<Rightarrow> s
    | Some l \<Rightarrow>
        (let s1 = s\<lparr>ls_max_layer := max_i32 (ls_max_layer s) l\<rparr>
         in if streamed (pp_inference_mode plan) t then s1
            else let s2 = s1\<lparr>ls_layer_sizes := hm_insert l (unwrap_or (hm_get (ls_layer_sizes s) l) 0 + ti_size_bytes t) (ls_layer_sizes s)\<rparr>
                 in if hm_get (pp_tier_assignments plan) (ti_name t) = Some Nvme
                    then s2\<lparr>ls_first_nvme_layer := Some (case ls_first_nvme_layer s of Some existing \<Rightarrow> min existing l | None \<Rightarrow> l)\<rparr>
                    else s2))"

definition scan_start :: layer_scan where
  "scan_start = \<lparr>ls_max_layer = -1, ls_first_nvme_layer = None, ls_layer_sizes = []\<rparr>"

definition scan_layers :: "placement_plan \<Rightarrow> tensor_info list \<Rightarrow> layer_scan" where
  "scan_layers plan ts = fold (scan_tensor plan) ts scan_start"

text \<open>The entries of a \<open>BTreeMap\<close>, in the order of the keys.\<close>

definition btree_entries :: "('k::linorder, 'v) hmap \<Rightarrow> ('k \<times> 'v) list" where
  "btree_entries m = sort_by (\<lambda>a b. fst a \<le> fst b) m"

fun fit_layers :: "u64 \<Rightarrow> u64 \<Rightarrow> i32 \<Rightarrow> (u32 \<times> u64) list \<Rightarrow> i32" where
  "fit_layers budget cumulative max_fitting [] = max_fitting"
| "fit_layers budget cumulative max_fitting ((l, sz) # es) =
     (if cumulative + sz \<le> budget then fit_layers budget (cumulative + sz) (l + 1) es else max_fitting)"

definition non_layer_size :: "tensor_info list \<Rightarrow> u64" where
  "non_layer_size ts = sum_list (map ti_size_bytes (filter (\<lambda>t. ti_layer_index t = None) ts))"

definition gpu_layers_from_placement :: "placement_plan \<Rightarrow> gguf_file \<Rightarrow> u64 \<Rightarrow> i32" where
  "gpu_layers_from_placement plan gguf gpu_budget_bytes =
     (if pp_inference_mode plan = SparseMoeMmap
      then (if total_tensor_bytes gguf \<le> gpu_budget_bytes
            then unwrap_or (max_by_key (\<lambda>l. l) (List.map_filter ti_layer_index (gf_tensors gguf))) 0 + 1 + 1
            else 0)
      else let s = scan_layers plan (gf_tensors gguf)
           in if sint (ls_max_layer s) < 0 then 0
              else let from_nvme = (case ls_first_nvme_layer s of
                            Some nvme_start \<Rightarrow> nvme_start + 1
                          | None \<Rightarrow> ls_max_layer s + 1 + 1);
                       max_fitting = fit_layers gpu_budget_bytes (non_layer_size (gf_tensors gguf)) 0
                                       (btree_entries (ls_layer_sizes s));
                       from_capacity = max_fitting + 1
                   in min_i32 from_nvme from_capacity)"

section \<open>The scan\<close>

text \<open>Layer numbers are small: the casts to \<open>i32\<close> and the two increments are exact.\<close>

definition small_layers :: "tensor_info list \<Rightarrow> bool" where
  "small_layers ts \<longleftrightarrow> list_all (\<lambda>t. case ti_layer_index t of None \<Rightarrow> True | Some l \<Rightarrow> unat l < 2 ^ 31 - 2) ts"

definition counted :: "placement_plan \<Rightarrow> tensor_info \<Rightarrow> bool" where
  "counted plan t \<longleftrightarrow> ti_layer_index t \<noteq> None \<and> \<not> streamed (pp_inference_mode plan) t"

definition lsum :: "(u32 \<Rightarrow> bool) \<Rightarrow> (u32 \<times> u64) list \<Rightarrow> nat" where
  "lsum P m = sum_list (map (\<lambda>e. if P (fst e) then unat (snd e) else 0) m)"

lemma lsum_insert:
  "lsum P (hm_insert l v m) + (if P l then unat (unwrap_or (hm_get m l) 0) else 0) = lsum P m + (if P l then unat v else 0)"
  by (induction m) (auto simp: lsum_def)

lemma lsum_get: "P l \<Longrightarrow> unat (unwrap_or (hm_get m l) 0) \<le> lsum P m"
  by (induction m) (auto simp: lsum_def)

definition tsum :: "(tensor_info \<Rightarrow> bool) \<Rightarrow> tensor_info list \<Rightarrow> nat" where
  "tsum P ts = sum_list (map (\<lambda>t. if P t then unat (ti_size_bytes t) else 0) ts)"

lemma tsum_mono: "(\<And>t. t \<in> set ts \<Longrightarrow> P t \<Longrightarrow> Q t) \<Longrightarrow> tsum P ts \<le> tsum Q ts"
  by (induction ts) (force simp: tsum_def)+

definition layer_is :: "(u32 \<Rightarrow> bool) \<Rightarrow> tensor_info \<Rightarrow> bool" where
  "layer_is P t \<longleftrightarrow> (case ti_layer_index t of None \<Rightarrow> False | Some l \<Rightarrow> P l)"

lemma scan_sizes:
  assumes "lsum (\<lambda>_. True) (ls_layer_sizes s) + tsum (counted plan) ts < 2 ^ 64"
  shows "lsum P (ls_layer_sizes (fold (scan_tensor plan) ts s)) =
     lsum P (ls_layer_sizes s) + tsum (\<lambda>t. counted plan t \<and> layer_is P t) ts"
  using assms
proof (induction ts arbitrary: s)
  case (Cons t ts)
  show ?case
  proof (cases "counted plan t")
    case True
    then obtain l where l: "ti_layer_index t = Some l" "\<not> streamed (pp_inference_mode plan) t" by (auto simp: counted_def)
    let ?old = "unwrap_or (hm_get (ls_layer_sizes s) l) 0"
    have sizes: "ls_layer_sizes (scan_tensor plan t s) = hm_insert l (?old + ti_size_bytes t) (ls_layer_sizes s)"
      using l by (simp add: scan_tensor_def Let_def)
    have "unat ?old \<le> lsum (\<lambda>_. True) (ls_layer_sizes s)" by (rule lsum_get) simp
    then have "unat ?old + unat (ti_size_bytes t) < 2 ^ 64" using Cons.prems True by (simp add: tsum_def)
    then have "unat (?old + ti_size_bytes t) = unat ?old + unat (ti_size_bytes t)" by (intro unat_plus_no_wrap) simp
    then have step: "lsum Q (ls_layer_sizes (scan_tensor plan t s)) =
        lsum Q (ls_layer_sizes s) + (if Q l then unat (ti_size_bytes t) else 0)" for Q
      using lsum_insert [of Q l "?old + ti_size_bytes t" "ls_layer_sizes s"] by (simp add: sizes split: if_splits)
    have "lsum (\<lambda>_. True) (ls_layer_sizes (scan_tensor plan t s)) + tsum (counted plan) ts < 2 ^ 64"
      using Cons.prems True step [of "\<lambda>_. True"] by (simp add: tsum_def)
    from Cons.IH [OF this] step [of P] True l show ?thesis by (simp add: tsum_def layer_is_def)
  next
    case False
    then have "ls_layer_sizes (scan_tensor plan t s) = ls_layer_sizes s"
      by (auto simp: counted_def scan_tensor_def Let_def split: option.splits)
    with Cons False show ?thesis by (simp add: tsum_def)
  qed
qed (simp add: tsum_def)

lemma scan_wf: "hm_wf (ls_layer_sizes s) \<Longrightarrow> hm_wf (ls_layer_sizes (fold (scan_tensor plan) ts s))"
  by (induction ts arbitrary: s) (auto simp: scan_tensor_def Let_def split: option.splits)

lemma scan_first:
  "(t \<in> set ts \<and> counted plan t \<and> ti_layer_index t = Some l \<and> hm_get (pp_tier_assignments plan) (ti_name t) = Some Nvme) \<or>
     ls_first_nvme_layer s \<noteq> None \<and> the (ls_first_nvme_layer s) \<le> l \<Longrightarrow>
   \<exists>f. ls_first_nvme_layer (fold (scan_tensor plan) ts s) = Some f \<and> f \<le> l"
proof (induction ts arbitrary: s)
  case (Cons u ts)
  have keep: "\<exists>f'. ls_first_nvme_layer (scan_tensor plan u s) = Some f' \<and> f' \<le> f" if "ls_first_nvme_layer s = Some f" for f
    using that by (auto simp: scan_tensor_def Let_def min_def split: option.splits)
  have hit: "\<exists>f'. ls_first_nvme_layer (scan_tensor plan u s) = Some f' \<and> f' \<le> l"
    if "counted plan u" "ti_layer_index u = Some l" "hm_get (pp_tier_assignments plan) (ti_name u) = Some Nvme"
    using that by (auto simp: scan_tensor_def Let_def counted_def min_def split: option.splits)
  have "(t \<in> set ts \<and> counted plan t \<and> ti_layer_index t = Some l \<and> hm_get (pp_tier_assignments plan) (ti_name t) = Some Nvme) \<or>
     ls_first_nvme_layer (scan_tensor plan u s) \<noteq> None \<and> the (ls_first_nvme_layer (scan_tensor plan u s)) \<le> l"
    using Cons.prems keep hit by (auto dest: order_trans)
  from Cons.IH [OF this] show ?case by simp
qed auto

lemma scan_max:
  assumes "small_layers ts" "-1 \<le> sint (ls_max_layer s)"
  shows "sint (ls_max_layer s) \<le> sint (ls_max_layer (fold (scan_tensor plan) ts s)) \<and>
    (\<forall>t \<in> set ts. \<forall>l. ti_layer_index t = Some l \<longrightarrow> int (unat l) \<le> sint (ls_max_layer (fold (scan_tensor plan) ts s))) \<and>
    (sint (ls_max_layer (fold (scan_tensor plan) ts s)) \<noteq> sint (ls_max_layer s) \<longrightarrow>
       (\<exists>t \<in> set ts. \<exists>l. ti_layer_index t = Some l \<and> sint (ls_max_layer (fold (scan_tensor plan) ts s)) = int (unat l)))"
  using assms
proof (induction ts arbitrary: s)
  case (Cons t ts)
  have small: "small_layers ts" using Cons.prems(1) by (simp add: small_layers_def)
  show ?case
  proof (cases "ti_layer_index t")
    case None
    with Cons.IH [OF small Cons.prems(2)] show ?thesis by (simp add: scan_tensor_def)
  next
    case (Some l)
    with Cons.prems(1) have l: "sint l = int (unat l)" by (intro sint_small_u32) (simp add: small_layers_def)
    have mx: "sint (ls_max_layer (scan_tensor plan t s)) = max (sint (ls_max_layer s)) (int (unat l))"
      using Some l by (auto simp: scan_tensor_def Let_def max_i32_def)
    then have "-1 \<le> sint (ls_max_layer (scan_tensor plan t s))" using Cons.prems(2) by simp
    from Cons.IH [OF small this] mx Some show ?thesis by (auto simp: max_def split: if_splits)
  qed
qed simp

section \<open>The budget cut\<close>

lemma lsum_Cons: "lsum P ((l, sz) # es) = (if P l then unat sz else 0) + lsum P es"
  by (simp add: lsum_def)

lemma fit_layers_spec:
  assumes "unat c + lsum (\<lambda>_. True) es < 2 ^ 64" "sorted_wrt (\<lambda>a b. fst a < fst b) es" "\<forall>e \<in> set es. unat (fst e) < 2 ^ 31"
  shows "fit_layers b c m es = m \<or>
    (\<exists>e \<in> set es. fit_layers b c m es = fst e + 1) \<and> unat c + lsum (\<lambda>l. l < fit_layers b c m es) es \<le> unat b"
  using assms
proof (induction es arbitrary: c m)
  case (Cons e es)
  obtain l sz where e: "e = (l, sz)" by (cases e)
  show ?case
  proof (cases "c + sz \<le> b")
    case True
    let ?r = "fit_layers b (c + sz) (l + 1) es"
    have csz: "unat (c + sz) = unat c + unat sz" using Cons.prems(1) by (intro unat_plus_no_wrap) (simp add: lsum_def e)
    have suc: "fst d < fst d + 1" if "d \<in> set (e # es)" for d
      using Cons.prems(3) that unat_Suc_u32 [of "fst d"] by (auto simp: word_less_nat_alt)
    have above: "l < fst d" if "d \<in> set es" for d using Cons.prems(2) that by (simp add: e)
    have "?r = l + 1 \<or> (\<exists>d \<in> set es. ?r = fst d + 1) \<and> unat (c + sz) + lsum (\<lambda>l. l < ?r) es \<le> unat b"
      using Cons.prems by (intro Cons.IH) (simp_all add: csz lsum_def e)
    then show ?thesis
    proof
      assume r: "?r = l + 1"
      have "\<not> fst d < l + 1" if "d \<in> set es" for d
        using above [OF that] Cons.prems(3) unat_Suc_u32 [of l] by (auto simp: word_less_nat_alt e)
      then have "lsum (\<lambda>k. k < l + 1) es = 0" by (simp add: lsum_def)
      moreover have "l < l + 1" using suc [of e] by (simp add: e)
      ultimately show ?thesis using True csz r by (simp add: e lsum_Cons word_le_nat_alt)
    next
      assume r: "(\<exists>d \<in> set es. ?r = fst d + 1) \<and> unat (c + sz) + lsum (\<lambda>l. l < ?r) es \<le> unat b"
      then obtain d where d: "d \<in> set es" "?r = fst d + 1" by blast
      with above [OF d(1)] suc [of d] have "l < ?r" by simp
      with True csz r show ?thesis by (auto simp: e lsum_Cons)
    qed
  qed (simp add: e)
qed simp

lemma sorted_strict:
  fixes xs :: "('k::linorder \<times> 'v) list"
  shows "sorted_wrt (\<lambda>a b. fst a \<le> fst b) xs \<Longrightarrow> distinct (map fst xs) \<Longrightarrow> sorted_wrt (\<lambda>a b. fst a < fst b) xs"
  by (induction xs) (auto simp: image_iff order_le_less)

lemma btree_sorted:
  fixes m :: "('k::linorder, 'v) hmap"
  assumes "hm_wf m" shows "sorted_wrt (\<lambda>a b. fst a < fst b) (btree_entries m)"
proof (rule sorted_strict)
  show "sorted_wrt (\<lambda>a b. fst a \<le> fst b) (btree_entries m)"
    unfolding btree_entries_def by (rule sorted_sort_by) auto
  have "mset (map fst (btree_entries m)) = mset (map fst m)" by (simp add: btree_entries_def)
  from mset_eq_imp_distinct_iff [OF this] show "distinct (map fst (btree_entries m))" using assms by (simp add: hm_wf_def)
qed

lemma lsum_btree [simp]: "lsum P (btree_entries m) = lsum P m"
  by (simp add: lsum_def btree_entries_def)

lemma tsum_add: "(\<And>t. t \<in> set ts \<Longrightarrow> \<not> (P t \<and> Q t)) \<Longrightarrow> tsum P ts + tsum Q ts = tsum (\<lambda>t. P t \<or> Q t) ts"
  by (induction ts) (auto simp: tsum_def)

lemma non_layer_tsum:
  assumes "tsum (\<lambda>_. True) ts < 2 ^ 64"
  shows "unat (non_layer_size ts) = tsum (\<lambda>t. ti_layer_index t = None) ts"
proof -
  have eq: "sum_list (map unat (map ti_size_bytes (filter (\<lambda>t. ti_layer_index t = None) ts))) = tsum (\<lambda>t. ti_layer_index t = None) ts"
    by (induction ts) (auto simp: tsum_def)
  also have "\<dots> \<le> tsum (\<lambda>_. True) ts" by (rule tsum_mono) simp
  finally have "sum_list (map unat (map ti_size_bytes (filter (\<lambda>t. ti_layer_index t = None) ts))) < 2 ^ 64" using assms by simp
  then show ?thesis unfolding non_layer_size_def eq [symmetric] by (intro unat_sum_list_no_wrap) simp
qed

lemma scan_keys:
  "set (map fst (ls_layer_sizes (fold (scan_tensor plan) ts s))) \<subseteq>
     set (map fst (ls_layer_sizes s)) \<union> {l. \<exists>t \<in> set ts. ti_layer_index t = Some l}"
proof (induction ts arbitrary: s)
  case (Cons t ts)
  have "set (map fst (ls_layer_sizes (scan_tensor plan t s))) \<subseteq> set (map fst (ls_layer_sizes s)) \<union> {l. ti_layer_index t = Some l}"
  proof (cases "ti_layer_index t")
    case (Some l)
    then have "ls_layer_sizes (scan_tensor plan t s) = ls_layer_sizes s \<or>
      (\<exists>v. ls_layer_sizes (scan_tensor plan t s) = hm_insert l v (ls_layer_sizes s))"
      by (auto simp: scan_tensor_def Let_def)
    then show ?thesis
    proof (elim disjE exE)
      fix v assume v: "ls_layer_sizes (scan_tensor plan t s) = hm_insert l v (ls_layer_sizes s)"
      with Some show ?thesis unfolding v hm_keys_insert [unfolded hm_keys_def] by blast
    qed simp
  qed (simp add: scan_tensor_def)
  with Cons.IH [of "scan_tensor plan t s"] show ?case by auto
qed simp

lemma scan_first_mem:
  "ls_first_nvme_layer (fold (scan_tensor plan) ts s) = Some f \<Longrightarrow>
     ls_first_nvme_layer s = Some f \<or> (\<exists>t \<in> set ts. ti_layer_index t = Some f)"
proof (induction ts arbitrary: s)
  case (Cons t ts)
  have "ls_first_nvme_layer (scan_tensor plan t s) = Some f \<Longrightarrow> ls_first_nvme_layer s = Some f \<or> ti_layer_index t = Some f"
    by (auto simp: scan_tensor_def Let_def min_def split: option.splits if_splits)
  with Cons show ?case by fastforce
qed simp

section \<open>Properties\<close>

lemma first_non_gpu_Suc:
  assumes "unat (m :: u32) < 2 ^ 31 - 1" shows "first_non_gpu_layer (m + 1) = m"
proof -
  have "sint (m + 1) = int (Suc (unat m))"
    using assms sint_small_u32 [of "m + 1"] unat_Suc_u32 [of m] by simp
  then have "0 < sint (m + 1)" by (simp only: of_nat_0_less_iff zero_less_Suc)
  then show ?thesis by (simp add: first_non_gpu_layer_def)
qed

lemma min_i32_Suc:
  assumes "unat a < 2 ^ 31 - 1" "unat b < 2 ^ 31 - 1"
  shows "min_i32 (a + 1) (b + 1) = min a b + 1"
proof -
  have "sint (a + 1) = int (Suc (unat a))" "sint (b + 1) = int (Suc (unat b))"
    using assms sint_small_u32 [of "a + 1"] sint_small_u32 [of "b + 1"] unat_Suc_u32 [of a] unat_Suc_u32 [of b] by simp_all
  then show ?thesis by (simp only: min_i32_def min_def word_le_nat_alt of_nat_le_iff Suc_le_mono if_distrib [of "\<lambda>x. x + 1"])
qed

lemma gpu_cut_safe:
  assumes "pp_inference_mode plan \<noteq> SparseMoeMmap" "small_layers (gf_tensors gguf)"
    "tsum (\<lambda>_. True) (gf_tensors gguf) < 2 ^ 64"
    "cut_layer = first_non_gpu_layer (gpu_layers_from_placement plan gguf budget)"
  shows "(\<forall>t \<in> set (gf_tensors gguf). \<forall>l. counted plan t \<and> ti_layer_index t = Some l \<and>
       hm_get (pp_tier_assignments plan) (ti_name t) = Some Nvme \<longrightarrow> cut_layer \<le> l) \<and>
    (cut_layer = 0 \<or> tsum (\<lambda>t. ti_layer_index t = None \<or> counted plan t \<and> layer_is (\<lambda>l. l < cut_layer) t) (gf_tensors gguf) \<le> unat budget)"
proof -
  let ?ts = "gf_tensors gguf" and ?s = "scan_layers plan (gf_tensors gguf)"
  have small: "unat l < 2 ^ 31 - 2" if "t \<in> set ?ts" "ti_layer_index t = Some l" for t l
    using assms(2) that by (auto simp: small_layers_def list_all_iff split: option.splits)
  have mx: "-1 \<le> sint (ls_max_layer ?s) \<and>
     (\<forall>t \<in> set ?ts. \<forall>l. ti_layer_index t = Some l \<longrightarrow> int (unat l) \<le> sint (ls_max_layer ?s)) \<and>
     (sint (ls_max_layer ?s) \<noteq> -1 \<longrightarrow> (\<exists>t \<in> set ?ts. \<exists>l. ti_layer_index t = Some l \<and> sint (ls_max_layer ?s) = int (unat l)))"
    using scan_max [OF assms(2), of scan_start plan] by (simp add: scan_layers_def scan_start_def)
  show ?thesis
  proof (cases "sint (ls_max_layer ?s) < 0")
    case True
    have none: "ti_layer_index t = None" if "t \<in> set ?ts" for t
    proof (rule ccontr)
      assume "ti_layer_index t \<noteq> None"
      then obtain l where "ti_layer_index t = Some l" by auto
      with mx that have "int (unat l) \<le> sint (ls_max_layer ?s)" by blast
      with True show False by linarith
    qed
    have "cut_layer = 0" using True assms(1,4) by (simp add: gpu_layers_from_placement_def Let_def first_non_gpu_layer_def)
    with none show ?thesis by auto
  next
    case False
    let ?fit = "fit_layers budget (non_layer_size ?ts) 0 (btree_entries (ls_layer_sizes ?s))"
    let ?nvme = "case ls_first_nvme_layer ?s of Some f \<Rightarrow> f | None \<Rightarrow> ls_max_layer ?s + 1"
    have wf: "hm_wf (ls_layer_sizes ?s)" using scan_wf [of scan_start] by (simp add: scan_layers_def scan_start_def)
    have sizes: "lsum P (ls_layer_sizes ?s) = tsum (\<lambda>t. counted plan t \<and> layer_is P t) ?ts" for P
    proof -
      have "tsum (counted plan) ?ts \<le> tsum (\<lambda>_. True) ?ts" by (rule tsum_mono) simp
      with scan_sizes [of scan_start plan ?ts P] assms(3) show ?thesis by (simp add: scan_layers_def scan_start_def lsum_def)
    qed
    have keys: "unat (fst e) < 2 ^ 31 - 2" if "e \<in> set (btree_entries (ls_layer_sizes ?s))" for e
    proof -
      have "fst e \<in> set (map fst (ls_layer_sizes ?s))" using that by (simp add: btree_entries_def)
      with scan_keys [of plan ?ts scan_start] small show ?thesis by (auto simp: scan_layers_def scan_start_def)
    qed
    have top: "unat (ls_max_layer ?s) < 2 ^ 31 - 2"
    proof -
      obtain t l where t: "t \<in> set ?ts" "ti_layer_index t = Some l" "sint (ls_max_layer ?s) = int (unat l)" using mx False by force
      have "unat l < 2 ^ 31 - 2" by (rule small [OF t(1,2)])
      with t(3) sint_small_u32 [of l] have "sint (ls_max_layer ?s) = sint l" by simp
      then have "ls_max_layer ?s = l" by (rule signed_word_eqI)
      with t small show ?thesis by blast
    qed
    have fit: "?fit = 0 \<or> (\<exists>e \<in> set (btree_entries (ls_layer_sizes ?s)). ?fit = fst e + 1) \<and>
        unat (non_layer_size ?ts) + lsum (\<lambda>l. l < ?fit) (btree_entries (ls_layer_sizes ?s)) \<le> unat budget"
    proof (rule fit_layers_spec [OF _ btree_sorted [OF wf]])
      have "tsum (\<lambda>t. ti_layer_index t = None) ?ts + tsum (counted plan) ?ts =
          tsum (\<lambda>t. ti_layer_index t = None \<or> counted plan t) ?ts" by (rule tsum_add) (auto simp: counted_def)
      also have "\<dots> \<le> tsum (\<lambda>_. True) ?ts" by (rule tsum_mono) simp
      finally have "tsum (\<lambda>t. ti_layer_index t = None) ?ts + tsum (counted plan) ?ts < 2 ^ 64" using assms(3) by simp
      moreover have "tsum (\<lambda>t. counted plan t \<and> layer_is (\<lambda>_. True) t) ?ts \<le> tsum (counted plan) ?ts" by (rule tsum_mono) simp
      ultimately show "unat (non_layer_size ?ts) + lsum (\<lambda>_. True) (btree_entries (ls_layer_sizes ?s)) < 2 ^ 64"
        unfolding lsum_btree sizes non_layer_tsum [OF assms(3)] by linarith
      show "\<forall>e \<in> set (btree_entries (ls_layer_sizes ?s)). unat (fst e) < 2 ^ 31" using keys by force
    qed
    have nvme: "?nvme \<le> l" if "t \<in> set ?ts" "counted plan t" "ti_layer_index t = Some l"
        "hm_get (pp_tier_assignments plan) (ti_name t) = Some Nvme" for t l
      using scan_first [of t ?ts plan l scan_start] that by (auto simp: scan_layers_def)
    have small_nvme: "unat ?nvme < 2 ^ 31 - 1"
      using top unat_Suc_u32 [of "ls_max_layer ?s"] scan_first_mem [of plan ?ts scan_start] small
      by (force simp: scan_layers_def scan_start_def split: option.splits)
    have small_fit: "unat ?fit < 2 ^ 31 - 1"
      using fit keys unat_Suc_u32 by force
    have "gpu_layers_from_placement plan gguf budget = min_i32 (?nvme + 1) (?fit + 1)"
      using False assms(1) by (simp add: gpu_layers_from_placement_def Let_def split: option.splits)
    then have cut: "cut_layer = min ?nvme ?fit"
      unfolding assms(4) min_i32_Suc [OF small_nvme small_fit]
      using small_nvme small_fit by (simp add: first_non_gpu_Suc min_def del: One_nat_def)
    have "tsum (\<lambda>t. ti_layer_index t = None \<or> counted plan t \<and> layer_is (\<lambda>l. l < cut_layer) t) ?ts \<le> unat budget" if "cut_layer \<noteq> 0"
    proof -
      have "?fit \<noteq> 0" using that cut by auto
      have "tsum (\<lambda>t. ti_layer_index t = None \<or> counted plan t \<and> layer_is (\<lambda>l. l < cut_layer) t) ?ts
          \<le> tsum (\<lambda>t. ti_layer_index t = None \<or> counted plan t \<and> layer_is (\<lambda>l. l < ?fit) t) ?ts"
        using cut by (intro tsum_mono) (auto simp: layer_is_def split: option.splits)
      also have "\<dots> = tsum (\<lambda>t. ti_layer_index t = None) ?ts + tsum (\<lambda>t. counted plan t \<and> layer_is (\<lambda>l. l < ?fit) t) ?ts"
        by (rule tsum_add [symmetric]) (auto simp: counted_def)
      also have "\<dots> \<le> unat budget" using fit \<open>?fit \<noteq> 0\<close> unfolding lsum_btree sizes non_layer_tsum [OF assms(3)] by blast
      finally show ?thesis .
    qed
    with nvme cut show ?thesis by (auto simp: min_le_iff_disj)
  qed
qed

text \<open>C10. The number of GPU layers is safe in every mode that places tensors by layer.  Below the
  first layer it leaves off the GPU there is no NVMe tensor that the GPU would have to read,
  and either that layer is the first one or the tensors outside the layers and the resident
  tensors of the layers below it fit in the GPU budget together.\<close>

theorem gpu_layers_safe:
  assumes "pp_inference_mode plan \<noteq> SparseMoeMmap" "small_layers (gf_tensors gguf)"
    "tsum (\<lambda>_. True) (gf_tensors gguf) < 2 ^ 64"
    "cut_layer = first_non_gpu_layer (gpu_layers_from_placement plan gguf budget)"
  shows "(\<forall>t \<in> set (gf_tensors gguf). \<forall>l. counted plan t \<and> ti_layer_index t = Some l \<and>
       hm_get (pp_tier_assignments plan) (ti_name t) = Some Nvme \<longrightarrow> cut_layer \<le> l) \<and>
    (cut_layer = 0 \<or> tsum (\<lambda>t. ti_layer_index t = None \<or> counted plan t \<and> layer_is (\<lambda>l. l < cut_layer) t) (gf_tensors gguf) \<le> unat budget)"
  using gpu_cut_safe [OF assms] .

theorem gpu_layers_safe_witness:
  "first_non_gpu_layer (gpu_layers_from_placement demo_plan demo_gguf 100) = 1 \<and>
   tsum (\<lambda>t. ti_layer_index t = None \<or> counted demo_plan t \<and> layer_is (\<lambda>l. l < 1) t) (gf_tensors demo_gguf) \<le> 100"
proof -
  have cut: "first_non_gpu_layer (gpu_layers_from_placement demo_plan demo_gguf 100) = 1"
    and ok: "pp_inference_mode demo_plan \<noteq> SparseMoeMmap" "small_layers (gf_tensors demo_gguf)"
      "tsum (\<lambda>_. True) (gf_tensors demo_gguf) < 2 ^ 64"
    by code_simp+
  from gpu_layers_safe [OF ok cut [symmetric]] cut show ?thesis by simp
qed

text \<open>What a pattern selects: the tensor whose name it spells in full, or every tensor whose name
  starts with what it spells.\<close>

definition pattern_selects :: "string \<Rightarrow> string \<Rightarrow> bool" where
  "pattern_selects p name \<longleftrightarrow>
     (\<exists>q. p = ''^'' @ q @ ''$'' \<and> literal_of q = Some name) \<or>
     (\<exists>q w. p = ''^'' @ q \<and> literal_of q = Some w \<and> prefix w name)"

lemma exact_selects: "pattern_selects (exact_pattern name) name"
  by (auto simp: pattern_selects_def exact_pattern_def literal_of_escape)

lemma layer_selects: "pattern_selects (layer_pattern l) (blk_name (unat l) rest)"
proof -
  have "layer_pattern l = ''^'' @ regex_escape (''blk.'' @ dec (unat l) @ ''.'')" by (rule layer_pattern_escape)
  moreover have "prefix (''blk.'' @ dec (unat l) @ ''.'') (blk_name (unat l) rest)" by (simp add: blk_name_def prefix_def)
  ultimately show ?thesis using literal_of_escape pattern_selects_def by blast
qed

lemma nvme_routed:
  assumes "pp_inference_mode plan \<noteq> SparseMoeMmap" "small_layers (gf_tensors gguf)"
    "tsum (\<lambda>_. True) (gf_tensors gguf) < 2 ^ 64" "length (gf_tensors gguf) < 2 ^ 64"
    "t \<in> set (gf_tensors gguf)" "ti_name t = blk_name (unat l) rest" "ti_layer_index t = Some l"
    "hm_get (pp_tier_assignments plan) (ti_name t) = Some Nvme"
  shows "\<exists>p \<in> set (build_override_patterns plan gguf (gpu_layers_from_placement plan gguf budget)).
    pattern_selects p (ti_name t)"
proof (cases "pp_inference_mode plan = ExpertStreaming \<or> pp_inference_mode plan = DenseFfnStreaming")
  case True
  with override_patterns_set [OF assms(4)] assms(5,8) exact_selects show ?thesis by fastforce
next
  case False
  let ?n = "gpu_layers_from_placement plan gguf budget"
  have "counted plan t" using False assms(7) by (auto simp: counted_def streamed_def)
  with gpu_cut_safe [OF assms(1-3) refl] assms(5,7,8) have "first_non_gpu_layer ?n \<le> l" by blast
  with override_patterns_set [OF assms(4)] False assms(5,7)
  have "layer_pattern l \<in> set (build_override_patterns plan gguf ?n)" by auto
  with layer_selects assms(6) show ?thesis by metis
qed



end
