(* ===== verification/Session.thy ===== *)
theory Session
  imports Generation Gpu_Layers Metadata
begin

text \<open>
  Model of how \<open>src/compute/inference.rs\<close> sets up a session: \<open>load_model\<close> of the server and
  \<open>generate_with_nvme_scheduling\<close> of the command line.  What the machine, the C side and the
  side files give are fields of \<open>machine\<close>; what loading the model does to the buffer
  controller is an argument.
\<close>

section \<open>Inputs and errors\<close>

record machine =
  mc_total_ram :: u64
  mc_performance_cores :: i32
  mc_has_buffer :: bool
  mc_pool_ok :: bool
  mc_pool_base :: ptr
  mc_scratch_base :: ptr
  mc_resident_base :: ptr
  mc_file_opens :: bool
  mc_context_ok :: bool
  mc_permutations :: "(u32, u32 list) hmap"
  mc_saved_coactivation :: "coactivation option"
  mc_memory :: mem

datatype session_error = ModelLoad | PoolActivation activation_error | IoPoolStart | ContextCreation | Generation gen_error

text \<open>The model's number of layers, the controller after the load callbacks, the tensor data pointers.\<close>

type_synonym model_load = "buft_controller \<Rightarrow> (u32 \<times> buft_controller \<times> (nat, ptr) hmap) option"

section \<open>Residency\<close>

definition has_nvme :: "placement_plan \<Rightarrow> bool" where
  "has_nvme plan \<longleftrightarrow> list_ex (\<lambda>e. snd e = Nvme) (pp_tier_assignments plan)"

definition tier_of :: "placement_plan \<Rightarrow> tensor_info \<Rightarrow> storage_tier option" where
  "tier_of plan t = hm_get (pp_tier_assignments plan) (ti_name t)"

definition nvme_layers_of :: "placement_plan \<Rightarrow> gguf_file \<Rightarrow> u32 list" where
  "nvme_layers_of plan gguf = remdups (List.map_filter ti_layer_index (filter (\<lambda>t. tier_of plan t = Some Nvme) (gf_tensors gguf)))"

definition bytes_where :: "(tensor_info \<Rightarrow> bool) \<Rightarrow> gguf_file \<Rightarrow> u64" where
  "bytes_where P gguf = sum_list (map ti_size_bytes (filter P (gf_tensors gguf)))"

record residency =
  rs_nvme_bytes :: u64
  rs_gpu_bytes :: u64
  rs_estimated_committed :: u64
  rs_keep_resident :: bool
  rs_should_preload :: bool

definition residency_of :: "u64 \<Rightarrow> placement_plan \<Rightarrow> gguf_file \<Rightarrow> residency" where
  "residency_of total_ram plan gguf =
     (let nvme_bytes = bytes_where (\<lambda>t. tier_of plan t = Some Nvme) gguf;
          model_total_bytes = total_tensor_bytes gguf;
          buffer_bytes = bytes_where (\<lambda>t. tier_of plan t = Some Nvme \<or> tier_of plan t = Some Ram) gguf;
          gpu_bytes = saturating_sub model_total_bytes buffer_bytes;
          gpu_committed_estimate = gpu_bytes * 60 div 100;
          runtime_overhead = 5 * 2 ^ 29;
          estimated_committed = gpu_committed_estimate + buffer_bytes + runtime_overhead;
          headroom = 4 * 2 ^ 30;
          keep_resident = (0 < nvme_bytes \<and> estimated_committed + nvme_bytes \<le> saturating_sub total_ram headroom);
          should_preload = (keep_resident \<and> estimated_committed + nvme_bytes \<le> saturating_sub total_ram (6 * 2 ^ 30))
      in \<lparr>rs_nvme_bytes = nvme_bytes, rs_gpu_bytes = gpu_bytes, rs_estimated_committed = estimated_committed,
          rs_keep_resident = keep_resident, rs_should_preload = should_preload\<rparr>)"

text \<open>The cast to \<open>usize\<close> sign-extends.\<close>

definition num_io_workers :: "i32 \<Rightarrow> usize outcome" where
  "num_io_workers cores = clamp ((scast cores :: usize) div 2) 2 4"

section \<open>Loading for the server\<close>

type_synonym 'a session = "(session_error + 'a) option outcome"

definition start_workers :: "machine \<Rightarrow> prefetch_state \<Rightarrow> (session_error + prefetch_state) outcome" where
  "start_workers mc s = omap (\<lambda>n. case start_io_pool (mc_file_opens mc) (unat n) s of
       None \<Rightarrow> Inl IoPoolStart | Some s1 \<Rightarrow> Inr s1) (num_io_workers (mc_performance_cores mc))"

definition disable_if :: "bool \<Rightarrow> prefetch_state \<Rightarrow> prefetch_state" where
  "disable_if b s = (if b then s\<lparr>ps_prefetch_enabled := False\<rparr> else s)"

text \<open>\<open>None\<close> for the state of a model without NVMe tensors.\<close>

definition load_model :: "machine \<Rightarrow> env \<Rightarrow> model_load \<Rightarrow> placement_plan \<Rightarrow> gguf_file \<Rightarrow>
    ((prefetch_config \<times> prefetch_state) option \<times> bool) session" where
  "load_model mc env load plan gguf =
     (case load (hb_new gguf) of
        None \<Rightarrow> Ret (Some (Inl ModelLoad))
      | Some (num_layers, c, data) \<Rightarrow>
          (if \<not> has_nvme plan then Ret (Some (Inr (None, False)))
           else let (cfg, s0) = build_prefetch_state gguf num_layers (nvme_layers_of plan gguf) (mc_permutations mc)
                                  (mc_saved_coactivation mc) (mc_memory mc) data c;
                    r = residency_of (mc_total_ram mc) plan gguf
                in omap (\<lambda>started. case started of
                     Inl e \<Rightarrow> Some (Inl e)
                   | Inr s2 \<Rightarrow>
                       Option.bind (if rs_should_preload r then preload_ram_layers cfg env s2 else Some s2) (\<lambda>s3.
                         Some (Inr (Some (cfg, disable_if (rs_keep_resident r) (prefetch_all_nvme cfg s3)), rs_keep_resident r))))
                   (start_workers mc (s0\<lparr>ps_keep_nvme_resident := rs_keep_resident r\<rparr>))))"

section \<open>Setting up the command line's session\<close>

definition expert_slot_size :: "gguf_file \<Rightarrow> u64" where
  "expert_slot_size gguf = unwrap_or (max_by_key (\<lambda>x. x)
     (map ti_size_bytes (filter (\<lambda>t. role_from_name (ti_name t) = MoeFusedExperts) (gf_tensors gguf)))) 1"

definition ffn_slot_size :: "gguf_file \<Rightarrow> u64" where
  "ffn_slot_size gguf = unwrap_or (max_by_key (\<lambda>x. x)
     (map ti_size_bytes (filter (\<lambda>t. is_ffn (role_from_name (ti_name t))) (gf_tensors gguf)))) 1"

definition session_budget :: "machine \<Rightarrow> placement_plan \<Rightarrow> gguf_file \<Rightarrow> model_metadata \<Rightarrow> u32 \<Rightarrow> u32 \<Rightarrow> bool \<Rightarrow> memory_budget" where
  "session_budget mc plan gguf md num_layers n_ctx use_mmap =
     (let head_dim = (if 0 < mm_num_heads md then ucast (mm_embedding_dim md) div ucast (mm_num_heads md) else 0)
      in mb_compute (mc_total_ram mc) (rs_gpu_bytes (residency_of (mc_total_ram mc) plan gguf)) use_mmap num_layers
           (mm_num_kv_heads md) head_dim n_ctx (kp_kv_quantization (pp_kv_cache_plan plan)))"

definition lookahead_of :: "usize \<Rightarrow> u32" where
  "lookahead_of num_slots = ucast (max (saturating_sub (num_slots div 3) 1) 1)"

definition mode_of :: "placement_plan \<Rightarrow> bool \<Rightarrow> stream_mode" where
  "mode_of plan keep_resident = \<lparr>sm_keep_resident = keep_resident,
     sm_expert_streaming = (pp_inference_mode plan = ExpertStreaming),
     sm_dense_ffn_streaming = (pp_inference_mode plan = DenseFfnStreaming)\<rparr>"

definition install_pool :: "ptr \<Rightarrow> expert_pool \<Rightarrow> (nat, ptr) hmap \<Rightarrow> buft_controller \<Rightarrow> prefetch_config \<times> prefetch_state \<Rightarrow> prefetch_config \<times> prefetch_state" where
  "install_pool pool_base pool data c cs = (case cs of (cfg, s) \<Rightarrow>
     (cfg\<lparr>pc_fused_tensor_ptrs := map (\<lambda>(n, t). (n, Some t)) (fst (take_tensor_ptrs c))\<rparr>,
      s\<lparr>ps_expert_pool := Some pool, ps_pool_base := pool_base, ps_tensor_data := data\<rparr>))"

definition activate_mode :: "machine \<Rightarrow> placement_plan \<Rightarrow> gguf_file \<Rightarrow> memory_budget \<Rightarrow> bool \<Rightarrow> buft_controller \<Rightarrow>
    prefetch_config \<times> prefetch_state \<Rightarrow> (session_error + prefetch_config \<times> prefetch_state) outcome" where
  "activate_mode mc plan gguf budget keep_resident c cs =
     (if pp_inference_mode plan = ExpertStreaming
      then obind (pool_slots budget (expert_slot_size gguf) 6 18) (\<lambda>num_slots.
        case activate_expert_pool gguf (mc_has_buffer mc) (mc_pool_ok mc) (mc_pool_base mc) num_slots c (ps_tensor_data (snd cs)) of
          Inl e \<Rightarrow> Ret (Inl (PoolActivation e))
        | Inr (new_pool, data) \<Rightarrow> omap (\<lambda>pool. case install_pool (mc_pool_base mc) pool data c cs of
              (cfg, s) \<Rightarrow> Inr (cfg, s\<lparr>ps_expert_streaming := True\<rparr>)) new_pool)
      else if pp_inference_mode plan = DenseFfnStreaming
      then obind (pool_slots budget (ffn_slot_size gguf) 6 24) (\<lambda>num_slots.
        case activate_dense_ffn_pool gguf (mc_has_buffer mc) (mc_pool_ok mc) (mc_pool_base mc) num_slots c (ps_tensor_data (snd cs)) of
          Inl e \<Rightarrow> Ret (Inl (PoolActivation e))
        | Inr (new_pool, data, c') \<Rightarrow> omap (\<lambda>pool. case install_pool (mc_pool_base mc) pool data c' cs of
              (cfg, s) \<Rightarrow> Inr (cfg\<lparr>pc_dense_ffn_lookahead := lookahead_of num_slots\<rparr>, s\<lparr>ps_dense_ffn_streaming := True\<rparr>)) new_pool)
      else Ret (Inr (fst cs, (snd cs)\<lparr>ps_keep_nvme_resident := keep_resident\<rparr>)))"

section \<open>Resident layers and the first prefetches\<close>

definition per_layer_ffn :: "prefetch_config \<Rightarrow> u64" where
  "per_layer_ffn cfg = (case pc_dense_ffn_layouts cfg of [] \<Rightarrow> 0 | (_, layouts) # _ \<Rightarrow> sum_list (map df_size layouts))"

definition resident_count :: "memory_budget \<Rightarrow> u64 \<Rightarrow> u32 \<Rightarrow> u64 \<Rightarrow> u32" where
  "resident_count budget total_ram num_layers per_layer =
     (if per_layer = 0 then 0
      else let num_resident = min (ucast (mb_available budget div per_layer)) (num_layers div 4);
               min_available = total_ram * 75 div 100
           in if 4 \<le> num_resident \<and> min_available < mb_available budget then num_resident else 0)"

definition activate_residency :: "machine \<Rightarrow> env \<Rightarrow> memory_budget \<Rightarrow> u32 \<Rightarrow> prefetch_config \<Rightarrow> prefetch_state \<Rightarrow>
    (prefetch_config \<times> prefetch_state) option" where
  "activate_residency mc env budget num_layers cfg s =
     (let pool_bytes = (case ps_expert_pool s of None \<Rightarrow> 0 | Some p \<Rightarrow> ep_pool_size p);
          n = resident_count (with_pool pool_bytes budget) (mc_total_ram mc) num_layers (per_layer_ffn cfg)
      in if n = 0 then Some (cfg, s)
         else map_option (\<lambda>(s1, r). case r of
                None \<Rightarrow> (cfg, s1)
              | Some (base, _, layers, offs) \<Rightarrow> (cfg\<lparr>pc_resident_ffn_base := base, pc_resident_ffn_layers := layers,
                    pc_resident_ffn_offsets := offs\<rparr>, s1))
              (activate_resident_ffn cfg env (mc_resident_base mc) n s))"

definition eager_prefetch :: "stream_mode \<Rightarrow> prefetch_config \<Rightarrow> env \<Rightarrow> u32 \<Rightarrow> prefetch_state \<Rightarrow> prefetch_state blocking" where
  "eager_prefetch mode cfg env num_layers s =
     (if sm_expert_streaming mode then warm_cache_from_coactivation cfg env s
      else if sm_dense_ffn_streaming mode then omap Some (prefetch_each cfg (first_streamed cfg num_layers) s)
      else Ret (Some (prefetch_all_nvme cfg s)))"

text \<open>The state in which the first token is decoded.\<close>

definition sbind :: "'a session \<Rightarrow> ('a \<Rightarrow> 'b session) \<Rightarrow> 'b session" where
  "sbind m f = obind m (\<lambda>r. case r of None \<Rightarrow> Ret None | Some (Inl e) \<Rightarrow> Ret (Some (Inl e)) | Some (Inr x) \<Rightarrow> f x)"

definition nvme_session :: "machine \<Rightarrow> env \<Rightarrow> model_load \<Rightarrow> placement_plan \<Rightarrow> gguf_file \<Rightarrow> model_metadata \<Rightarrow> u32 \<Rightarrow> bool \<Rightarrow>
    (prefetch_config \<times> prefetch_state \<times> stream_mode \<times> u32) session" where
  "nvme_session mc env load plan gguf md n_ctx has_prompt =
     (let c0 = (if pp_inference_mode plan = DenseFfnStreaming
                then enable_dense_ffn_scratch (mc_scratch_base mc) gguf (hb_new gguf) else hb_new gguf)
      in case load c0 of
        None \<Rightarrow> Ret (Some (Inl ModelLoad))
      | Some (num_layers, c, data) \<Rightarrow>
          (let cs = build_prefetch_state gguf num_layers (nvme_layers_of plan gguf) (mc_permutations mc)
                      (mc_saved_coactivation mc) (mc_memory mc) data c;
               r = residency_of (mc_total_ram mc) plan gguf;
               mode = mode_of plan (rs_keep_resident r);
               budget = session_budget mc plan gguf md num_layers n_ctx (\<not> any_streaming mode)
           in sbind (omap Some (activate_mode mc plan gguf budget (rs_keep_resident r) c cs)) (\<lambda>(cfg, s1).
              sbind (omap Some (start_workers mc s1)) (\<lambda>s2.
              sbind (Ret (map_option Inr (if \<not> any_streaming mode \<and> rs_should_preload r then preload_ram_layers cfg env s2 else Some s2))) (\<lambda>s3.
                if \<not> mc_context_ok mc then Ret (Some (Inl ContextCreation))
                else if \<not> has_prompt then Ret (Some (Inl (Generation EmptyPrompt)))
                else let s4 = (if \<not> rs_keep_resident r \<or> any_streaming mode then enable_trace s3 else s3)
                     in sbind (Ret (map_option Inr (if sm_dense_ffn_streaming mode
                                then activate_residency mc env budget num_layers cfg s4 else Some (cfg, s4)))) (\<lambda>(cfg, s5).
                        sbind (omap (map_option Inr) (eager_prefetch mode cfg env num_layers s5)) (\<lambda>s6.
                          Ret (Some (Inr (cfg, disable_if (rs_keep_resident r \<and> \<not> any_streaming mode) s6, mode, num_layers))))))))))"

text \<open>\<open>wind_down\<close> is what the workers do while the pool is stopped.\<close>

definition generate_with_nvme_scheduling :: "machine \<Rightarrow> env \<Rightarrow> env \<Rightarrow> model_load \<Rightarrow> 'm llama_api \<Rightarrow> ('m nvme_world) llama_api \<Rightarrow>
    'm llama_memory \<Rightarrow> placement_plan \<Rightarrow> gguf_file \<Rightarrow> model_metadata \<Rightarrow> u32 \<Rightarrow> u32 \<Rightarrow> u32 \<Rightarrow> i32 list \<Rightarrow> 'm \<Rightarrow>
    (generation_result \<times> prefetch_state option) session" where
  "generate_with_nvme_scheduling mc env wind_down load plain_api api lm plan gguf md n_ctx n_batch max_tokens tokens m =
     (if \<not> has_nvme plan
      then omap (\<lambda>r. Some (case r of Inl e \<Rightarrow> Inl (Generation e) | Inr (res, _) \<Rightarrow> Inr (res, None)))
             (generate_blocking plain_api n_batch max_tokens tokens m)
      else sbind (nvme_session mc env load plan gguf md n_ctx (tokens \<noteq> [])) (\<lambda>(cfg, s, mode, num_layers).
        let kv = (if 0 < kp_warm_window_tokens (pp_kv_cache_plan plan)
                  then Some (kv_new (kp_hot_window_tokens (pp_kv_cache_plan plan))) else None)
        in omap (\<lambda>r. Some (case r of Inl e \<Rightarrow> Inl (Generation e)
             | Inr (res, (s', _, _)) \<Rightarrow> Inr (res, Some (stop_io_pool wind_down s'))))
             (generate api (nvme_hooks lm cfg mode num_layers) n_batch max_tokens tokens (s, kv, m))))"

section \<open>A loaded model is in the protocol\<close>

lemma request_all_steps:
  "(sys_step cfg disk)\<^sup>*\<^sup>* (Free, s) (Free, fold (\<lambda>l. request_prefetch cfg (LayerRequest l)) ls s)"
proof (induction ls arbitrary: s)
  case (Cons l ls)
  have "sys_step cfg disk (Free, s) (Free, request_prefetch cfg (LayerRequest l) s)" by (rule sys_step.request)
  with Cons.IH show ?case by (simp add: converse_rtranclp_into_rtranclp)
qed simp

lemma wait_all_steps:
  assumes "wait_all env ls s = Some s'" "env_ok disk env"
  shows "(sys_step cfg disk)\<^sup>*\<^sup>* (Free, s) (Free, s')"
  using assms(1)
proof (induction ls arbitrary: s)
  case (Cons l ls)
  then obtain s1 where s1: "wait_loaded env l s = Some s1" "wait_all env ls s1 = Some s'" by (auto simp: bind_eq_Some_conv)
  have "(sys_step cfg disk)\<^sup>*\<^sup>* (Free, s) (Free, s1)"
    using wait_loaded_reaches [OF s1(1) assms(2)] background_sys by blast
  with Cons.IH [OF s1(2)] show ?case by (rule rtranclp_trans [rotated])
qed simp

lemma preload_steps:
  "preload_ram_layers cfg env s = Some s' \<Longrightarrow> env_ok disk env \<Longrightarrow> (sys_step cfg disk)\<^sup>*\<^sup>* (Free, s) (Free, s')"
  unfolding preload_ram_layers_def using request_all_steps wait_all_steps by (metis rtranclp_trans)

lemma start_workers_Inr:
  assumes "start_workers mc s = Ret (Inr s1)"
  shows "\<exists>w. 0 < w \<and> start_io_pool (mc_file_opens mc) w s = Some s1"
proof -
  from assms obtain n where n: "num_io_workers (mc_performance_cores mc) = Ret n" "start_io_pool (mc_file_opens mc) (unat n) s = Some s1"
    by (auto simp: start_workers_def omap_Ret split: option.splits)
  then have "2 \<le> n" by (auto simp: num_io_workers_def clamp_def split: if_splits)
  then have "0 < unat n" by (simp add: word_le_nat_alt)
  with n show ?thesis by blast
qed

lemma load_model_steps:
  assumes "loads_ok disk gguf base calls" "dense_gguf gguf" "env_ok disk env"
    "load_model mc env (\<lambda>c. Some (num_layers, load_calls calls c, data)) plan gguf = Ret (Some (Inr (Some (cfg, s), k)))"
  shows "dense_layout disk cfg \<and> k = rs_keep_resident (residency_of (mc_total_ram mc) plan gguf) \<and>
    (\<exists>s'. reachable cfg disk base (Free, s') \<and> s = disable_if k s')"
proof -
  let ?r = "residency_of (mc_total_ram mc) plan gguf"
  obtain cfg0 s0 where b: "build_prefetch_state gguf num_layers (nvme_layers_of plan gguf) (mc_permutations mc)
      (mc_saved_coactivation mc) (mc_memory mc) data (load_calls calls (hb_new gguf)) = (cfg0, s0)" by fastforce
  let ?start = "start_workers mc (s0\<lparr>ps_keep_nvme_resident := rs_keep_resident ?r\<rparr>)"
  let ?rest = "\<lambda>s2. Option.bind (if rs_should_preload ?r then preload_ram_layers cfg0 env s2 else Some s2) (\<lambda>s3.
    Some (Inr (Some (cfg0, disable_if (rs_keep_resident ?r) (prefetch_all_nvme cfg0 s3)), rs_keep_resident ?r)))"
  have "omap (\<lambda>started. case started of Inl e \<Rightarrow> Some (Inl e) | Inr s2 \<Rightarrow> ?rest s2) ?start = Ret (Some (Inr (Some (cfg, s), k)))"
    using assms(4) b by (simp add: load_model_def Let_def split: if_splits)
  then obtain x where x: "?start = Ret x" "Some (Inr (Some (cfg, s), k)) = (case x of Inl e \<Rightarrow> Some (Inl e) | Inr s2 \<Rightarrow> ?rest s2)"
    by (auto simp only: omap_Ret)
  have "\<exists>s2. x = Inr s2" using x(2) by (cases x) simp_all
  then obtain s2 where "x = Inr s2" ..
  note s2 = x [unfolded this sum.case]
  from s2(1) s2(2) [symmetric] obtain s3 where s: "start_workers mc (s0\<lparr>ps_keep_nvme_resident := rs_keep_resident ?r\<rparr>) = Ret (Inr s2)"
    "(if rs_should_preload ?r then preload_ram_layers cfg0 env s2 else Some s2) = Some s3"
    "cfg = cfg0" "s = disable_if (rs_keep_resident ?r) (prefetch_all_nvme cfg s3)" "k = rs_keep_resident ?r"
    by (auto simp only: bind_eq_Some_conv option.inject sum.inject prod.inject)
  from start_workers_Inr [OF s(1)] obtain w where w: "0 < w"
    "start_io_pool (mc_file_opens mc) w (s0\<lparr>ps_keep_nvme_resident := rs_keep_resident ?r\<rparr>) = Some s2" by blast
  have init: "initial base s2"
    using built_config [OF assms(1,2) b] w by (auto simp: start_io_pool_def initial_def list_all_iff split: if_splits)
  have "(sys_step cfg disk)\<^sup>*\<^sup>* (Free, s2) (Free, s3)"
    using s(2,3) preload_steps [OF _ assms(3)] by (auto split: if_splits)
  moreover have "(sys_step cfg disk)\<^sup>*\<^sup>* (Free, s3) (Free, prefetch_all_nvme cfg s3)"
    unfolding prefetch_all_nvme_def by (rule request_all_steps)
  ultimately have "reachable cfg disk base (Free, prefetch_all_nvme cfg s3)"
    using init by (auto simp: reachable_def intro: rtranclp_trans)
  with s built_layout [OF assms(1,2) b] show ?thesis by blast
qed

section \<open>Properties\<close>

text \<open>C4. The server's loader hands over a state the protocol vouches for: for a dense model whose
  tensors were reported without overlap, with workers that do anything they can while the
  loader waits, the state \<open>load_model\<close> returns is one the layer protocol can reach with the
  thread free (up to the switch that turns the callback off in keep-resident mode), so a layer
  that \<open>ensure_layer_loaded\<close> returns for holds the file's bytes.\<close>

theorem load_model_in_protocol:
  assumes "loads_ok disk gguf base calls" "dense_gguf gguf" "env_ok disk env"
    "load_model mc env (\<lambda>c. Some (num_layers, load_calls calls c, data)) plan gguf = Ret (Some (Inr (Some (cfg, s), k)))"
  shows "\<exists>s'. reachable cfg disk base (Free, s') \<and> s = disable_if k s' \<and>
    (\<forall>l s''. ensure_layer_loaded cfg env l s' = Some s'' \<longrightarrow> list_all (holds disk (ps_mem s'') base) (layer_regs cfg l))"
proof -
  from load_model_steps [OF assms] obtain s' where s': "dense_layout disk cfg" "reachable cfg disk base (Free, s')" "s = disable_if k s'" by blast
  have base: "base \<noteq> Null" using assms(1) by (simp add: loads_ok_def)
  have "list_all (holds disk (ps_mem s'') base) (layer_regs cfg l)" if "ensure_layer_loaded cfg env l s' = Some s''" for l s''
  proof -
    have "reachable cfg disk base (Computing l, s'')"
      using s'(2) ensure_reaches [OF that assms(3)] by (auto simp: reachable_def intro: rtranclp_trans)
    from reachable_inv [OF s'(1) base this] show ?thesis
      by (auto simp: list_all_iff sys_inv_def proto_inv_def data_ok_def split: option.splits)
  qed
  with s' show ?thesis by blast
qed

text \<open>A machine with 1 GiB for the model of \<open>Model_Loading\<close>.\<close>

definition demo_machine :: machine where
  "demo_machine = \<lparr>mc_total_ram = 2 ^ 30, mc_performance_cores = 4, mc_has_buffer = True, mc_pool_ok = True,
     mc_pool_base = Ptr 7 0, mc_scratch_base = Null, mc_resident_base = Null, mc_file_opens = True, mc_context_ok = True,
     mc_permutations = [], mc_saved_coactivation = None, mc_memory = (\<lambda>_. None)\<rparr>"

lemma demo_load_model:
  "\<exists>cfg s. load_model demo_machine demo_env (\<lambda>c. Some (2, load_calls demo_calls c, [])) demo_plan demo_gguf = Ret (Some (Inr (Some (cfg, s), False)))"
proof -
  let ?r = "residency_of (mc_total_ram demo_machine) demo_plan demo_gguf"
  have bytes: "bytes_where (\<lambda>t. tier_of demo_plan t = Some Nvme) demo_gguf = 3"
      "bytes_where (\<lambda>t. tier_of demo_plan t = Some Nvme \<or> tier_of demo_plan t = Some Ram) demo_gguf = 3"
      "total_tensor_bytes demo_gguf = 5" by code_simp+
  have r: "rs_keep_resident ?r = False" "rs_should_preload ?r = False"
    by (simp_all add: residency_of_def Let_def bytes saturating_sub_def demo_machine_def)
  have w: "has_nvme demo_plan" "num_io_workers 4 = Ret 2" by code_simp+
  obtain cfg s0 where b: "build_prefetch_state demo_gguf 2 (nvme_layers_of demo_plan demo_gguf) [] None (\<lambda>_. None) []
      (load_calls demo_calls (hb_new demo_gguf)) = (cfg, s0)" by fastforce
  obtain s1 where "start_workers demo_machine (s0\<lparr>ps_keep_nvme_resident := False\<rparr>) = Ret (Inr s1)"
    by (simp add: start_workers_def demo_machine_def w(2) start_io_pool_def)
  with r w(1) b show ?thesis
    by (simp add: load_model_def demo_machine_def disable_if_def)
qed

theorem load_model_in_protocol_witness:
  "\<exists>cfg s. load_model demo_machine demo_env (\<lambda>c. Some (2, load_calls demo_calls c, [])) demo_plan demo_gguf = Ret (Some (Inr (Some (cfg, s), False))) \<and>
     reachable cfg demo_file (Ptr 0 100) (Free, s)"
proof -
  obtain cfg s where l: "load_model demo_machine demo_env (\<lambda>c. Some (2, load_calls demo_calls c, [])) demo_plan demo_gguf =
      Ret (Some (Inr (Some (cfg, s), False)))" using demo_load_model by blast
  from load_model_in_protocol [OF demo_loads demo_dense demo_env_ok this] l show ?thesis by (auto simp: disable_if_def)
qed

lemma fold_max_upper: "a \<le> fold max xs a \<and> (\<forall>x \<in> set xs. x \<le> fold max xs (a :: 'a::linorder))"
proof (induction xs arbitrary: a)
  case (Cons y ys)
  from Cons [of "max y a"] show ?case by auto
qed simp

lemma list_max_upper: "x \<in> set xs \<Longrightarrow> x \<le> list_max (xs :: 'a::len word list)"
  using fold_max_upper [of 0 xs] by (auto simp: list_max_def)

lemma lookahead_fits:
  assumes "6 \<le> n" "n \<le> 24"
  shows "1 \<le> unat (lookahead_of n) \<and> 3 * (unat (lookahead_of n) + 1) \<le> unat n"
proof -
  have n: "6 \<le> unat n" "unat n \<le> 24" using assms by (simp_all add: word_le_nat_alt)
  let ?a = "max (saturating_sub (n div 3) 1) 1"
  have "unat ?a = max (unat n div 3 - 1) 1"
    by (simp only: unat_max unat_saturating_sub unat_div) simp
  moreover have "2 \<le> unat n div 3" "unat n div 3 \<le> 8" using n by simp_all
  ultimately have a: "unat ?a = unat n div 3 - 1" "unat n div 3 - 1 < 2 ^ 32" by simp_all
  then have "unat (lookahead_of n) = unat n div 3 - 1"
    by (simp only: lookahead_of_def unsigned_ucast_eq take_bit_nat_eq_self_iff a) (use a(2) in simp)
  with n show ?thesis by simp
qed

text \<open>C39. The pool of a dense streaming session fits its tensors and its lookahead: the session's
  pool is a well-formed pool, every FFN tensor of the model fits in a slot, and it has room
  for three tensors of the current layer and of every layer of the lookahead, which is at
  least one.\<close>

theorem dense_session_pool:
  assumes "activate_mode mc plan gguf budget keep c cs = Ret (Inr (cfg, s))" "pp_inference_mode plan = DenseFfnStreaming"
    "24 * unat (max_ffn_size gguf) < 2 ^ 64"
  shows "\<exists>p. ps_expert_pool s = Some p \<and> pool_inv p \<and> 1 \<le> unat (pc_dense_ffn_lookahead cfg) \<and>
    3 * (unat (pc_dense_ffn_lookahead cfg) + 1) \<le> ep_num_slots p \<and>
    (\<forall>t \<in> set (gf_tensors gguf). is_ffn (role_from_name (ti_name t)) \<longrightarrow> ti_size_bytes t \<le> ep_slot_size p)"
proof -
  let ?slot = "max_ffn_size gguf"
  from assms(1,2) obtain n where n: "pool_slots budget (ffn_slot_size gguf) 6 24 = Ret n"
    "(case activate_dense_ffn_pool gguf (mc_has_buffer mc) (mc_pool_ok mc) (mc_pool_base mc) n c (ps_tensor_data (snd cs)) of
          Inl e \<Rightarrow> Ret (Inl (PoolActivation e))
        | Inr (new_pool, data, c') \<Rightarrow> omap (\<lambda>pool. case install_pool (mc_pool_base mc) pool data c' cs of
              (cfg, s) \<Rightarrow> Inr (cfg\<lparr>pc_dense_ffn_lookahead := lookahead_of n\<rparr>, s\<lparr>ps_dense_ffn_streaming := True\<rparr>)) new_pool) = Ret (Inr (cfg, s))"
    by (auto simp: activate_mode_def obind_Ret)
  from n(2) obtain p where p: "pool_new (n * ?slot) ?slot = Ret p" "ps_expert_pool s = Some p" "pc_dense_ffn_lookahead cfg = lookahead_of n"
    by (auto simp: activate_dense_ffn_pool_def activate_pool_def install_pool_def Let_def omap_Ret split: if_splits prod.splits)
  have bounds: "6 \<le> n" "n \<le> 24" using n(1) by (auto simp: pool_slots_def clamp_def split: if_splits)
  have slot: "?slot \<noteq> 0" "ep_slot_size p = ?slot" "ep_num_slots p = unat (n * ?slot div ?slot)"
    using p(1) by (auto simp: pool_new_def Let_def split: if_splits)
  have "unat n * unat ?slot \<le> 24 * unat ?slot" using bounds(2) by (intro mult_le_mono1) (simp add: word_le_nat_alt)
  with assms(3) have "unat n * unat ?slot < 2 ^ 64" by linarith
  then have "unat (n * ?slot) = unat n * unat ?slot" by (intro unat_mult_no_wrap) simp
  moreover have "0 < unat ?slot" using slot(1) by (simp add: unat_gt_0)
  ultimately have "ep_num_slots p = unat n" by (simp add: slot(3) unat_div)
  moreover have "ti_size_bytes t \<le> ?slot" if "t \<in> set (gf_tensors gguf)" "is_ffn (role_from_name (ti_name t))" for t
    unfolding max_ffn_size_def by (rule list_max_upper) (use that in auto)
  ultimately show ?thesis
    using lookahead_fits [OF bounds] pool_new_inv [OF p(1)] p(2,3) slot(2) by auto
qed

definition ffn_gguf :: gguf_file where
  "ffn_gguf = demo_gguf\<lparr>gf_tensors := [demo_tensor ''blk.0.attn_q.weight'' 0 2, demo_tensor ''blk.1.ffn_up.weight'' 2 3]\<rparr>"

definition ffn_budget :: memory_budget where
  "ffn_budget = mb_compute (2 ^ 33) 0 False 2 1 1 128 None"

lemma ffn_gguf_facts: "max_ffn_size ffn_gguf = 3" "ffn_slot_size ffn_gguf = 3" "pool_slots ffn_budget 3 6 24 = Ret 24"
proof -
  show "max_ffn_size ffn_gguf = 3" "ffn_slot_size ffn_gguf = 3" by code_simp+
  show "pool_slots ffn_budget 3 6 24 = Ret 24"
    by (simp add: pool_slots_def ffn_budget_def mb_compute_def Let_def clamp_def saturating_sub_def METAL_COMPUTE_OVERHEAD_def OS_RESERVED_def)
qed

theorem dense_session_pool_witness:
  "\<exists>cfg s p. activate_mode demo_machine (demo_plan\<lparr>pp_inference_mode := DenseFfnStreaming\<rparr>) ffn_gguf ffn_budget False
       (hb_new ffn_gguf) demo_built = Ret (Inr (cfg, s)) \<and> ps_expert_pool s = Some p \<and> pool_inv p \<and>
     3 * (unat (pc_dense_ffn_lookahead cfg) + 1) \<le> ep_num_slots p \<and> 3 \<le> ep_slot_size p"
proof -
  let ?plan = "demo_plan\<lparr>pp_inference_mode := DenseFfnStreaming\<rparr>"
  obtain cfg0 s0 where d: "demo_built = (cfg0, s0)" by fastforce
  obtain cfg s where a: "activate_mode demo_machine ?plan ffn_gguf ffn_budget False (hb_new ffn_gguf) demo_built = Ret (Inr (cfg, s))"
    by (simp add: d activate_mode_def ffn_gguf_facts activate_dense_ffn_pool_def activate_pool_def
        pool_new_def demo_machine_def install_pool_def)
  have t: "demo_tensor ''blk.1.ffn_up.weight'' 2 3 \<in> set (gf_tensors ffn_gguf)" by (simp add: ffn_gguf_def)
  have f: "is_ffn (role_from_name (ti_name (demo_tensor ''blk.1.ffn_up.weight'' 2 3)))" by code_simp
  have "pp_inference_mode ?plan = DenseFfnStreaming" "24 * unat (max_ffn_size ffn_gguf) < 2 ^ 64"
    by (simp_all add: ffn_gguf_facts)
  from dense_session_pool [OF a this] obtain p where p: "ps_expert_pool s = Some p" "pool_inv p"
    "3 * (unat (pc_dense_ffn_lookahead cfg) + 1) \<le> ep_num_slots p"
    "\<forall>t \<in> set (gf_tensors ffn_gguf). is_ffn (role_from_name (ti_name t)) \<longrightarrow> ti_size_bytes t \<le> ep_slot_size p" by blast
  from bspec [OF p(4) t] f have "3 \<le> ep_slot_size p" by (simp add: demo_tensor_def)
  with a p(1-3) show ?thesis by blast
qed

end
