(* ===== verification/Server.thy ===== *)
theory Server
  imports Generation Llama_Ffi
begin

text \<open>
  Model of the Ollama-compatible server: \<open>src/server/chat.rs\<close>, \<open>src/server/ollama_types.rs\<close>,
  \<open>src/server/routes.rs\<close> and \<open>src/server/streaming.rs\<close>.  A request runs as three processes,
  the thread that generates, the task that turns tokens into lines and the client, connected
  by an unbounded channel of tokens, a slot for the result and a bounded channel of lines.
  Text is JSON by an argument (\<open>serde_json\<close>); timestamps are arguments.
\<close>

section \<open>Chat prompt\<close>

record chat_message =
  cm_role :: string
  cm_content :: string

definition im_start :: string where "im_start = ''<|im_start|>''"
definition im_end :: string where "im_end = ''<|im_end|>''"
definition newline :: char where "newline = CHR 0x0A"

definition format_message :: "chat_message \<Rightarrow> string" where
  "format_message m = im_start @ cm_role m @ [newline] @ cm_content m @ im_end @ [newline]"

definition format_chat_prompt :: "chat_message list \<Rightarrow> string" where
  "format_chat_prompt messages = concat (map format_message messages) @ im_start @ ''assistant'' @ [newline]"

section \<open>Requests\<close>

record generate_options =
  go_temperature :: "f64 option"
  go_top_k :: "i32 option"
  go_top_p :: "f64 option"
  go_num_predict :: "u32 option"
  go_seed :: "u32 option"

definition options_default :: generate_options where
  "options_default = \<lparr>go_temperature = None, go_top_k = None, go_top_p = None, go_num_predict = None, go_seed = None\<rparr>"

definition build_sampling :: "generate_options \<Rightarrow> sampling_params" where
  "build_sampling opts =
     (let s0 = sampling_default;
          s1 = (case go_temperature opts of None \<Rightarrow> s0 | Some t \<Rightarrow> s0\<lparr>sp_temperature := t\<rparr>);
          s2 = (case go_top_k opts of None \<Rightarrow> s1 | Some k \<Rightarrow> s1\<lparr>sp_top_k := k\<rparr>);
          s3 = (case go_top_p opts of None \<Rightarrow> s2 | Some p \<Rightarrow> s2\<lparr>sp_top_p := p\<rparr>);
          s4 = (case go_num_predict opts of None \<Rightarrow> s3 | Some n \<Rightarrow> s3\<lparr>sp_max_tokens := n\<rparr>)
      in case go_seed opts of None \<Rightarrow> s4 | Some seed \<Rightarrow> s4\<lparr>sp_seed := seed\<rparr>)"

text \<open>\<open>stream\<close> and \<open>options\<close> may be missing from the JSON; the tools are ignored.\<close>

record generate_request =
  rq_model :: string
  rq_prompt :: string
  rq_stream :: "bool option"
  rq_options :: "generate_options option"

record chat_request =
  cr_model :: string
  cr_messages :: "chat_message list"
  cr_stream :: "bool option"
  cr_options :: "generate_options option"

section \<open>Responses\<close>

record chunk_stats =
  cs_done :: bool
  cs_done_reason :: "string option"
  cs_total_duration :: "u64 option"
  cs_load_duration :: "u64 option"
  cs_prompt_eval_count :: "u32 option"
  cs_prompt_eval_duration :: "u64 option"
  cs_eval_count :: "u32 option"
  cs_eval_duration :: "u64 option"

record generate_chunk = chunk_stats +
  gc_model :: string
  gc_created_at :: string
  gc_response :: string

record chat_chunk = chunk_stats +
  cc_model :: string
  cc_created_at :: string
  cc_message :: chat_message

definition eval_duration_of :: "generation_result \<Rightarrow> u64" where
  "eval_duration_of r =
     (if f_lt (Fin 0) (gr_tok_per_sec_avg r)
      then f_to_word (f_mul (f_div (f_of_word (gr_tokens_generated r)) (gr_tok_per_sec_avg r)) (Fin (10 ^ 9))) else 0)"

definition prompt_duration_of :: "generation_result \<Rightarrow> u64" where
  "prompt_duration_of r = f_to_word (f_mul (gr_prompt_eval_ms r) (Fin (10 ^ 6)))"

definition generate_token_chunk :: "string \<Rightarrow> string \<Rightarrow> string \<Rightarrow> generate_chunk" where
  "generate_token_chunk model now txt =
     \<lparr>cs_done = False, cs_done_reason = None, cs_total_duration = None, cs_load_duration = None,
      cs_prompt_eval_count = None, cs_prompt_eval_duration = None, cs_eval_count = None, cs_eval_duration = None,
      gc_model = model, gc_created_at = now, gc_response = txt\<rparr>"

definition generate_final_chunk :: "string \<Rightarrow> string \<Rightarrow> string \<Rightarrow> u64 \<Rightarrow> u64 \<Rightarrow> generation_result option \<Rightarrow> generate_chunk" where
  "generate_final_chunk model now txt total_ns load_ns result =
     \<lparr>cs_done = True, cs_done_reason = Some ''stop'', cs_total_duration = Some total_ns, cs_load_duration = Some load_ns,
      cs_prompt_eval_count = map_option gr_prompt_tokens result,
      cs_prompt_eval_duration = map_option prompt_duration_of result,
      cs_eval_count = map_option gr_tokens_generated result, cs_eval_duration = map_option eval_duration_of result,
      gc_model = model, gc_created_at = now, gc_response = txt\<rparr>"

definition chat_token_chunk :: "string \<Rightarrow> string \<Rightarrow> string \<Rightarrow> chat_chunk" where
  "chat_token_chunk model now txt =
     \<lparr>cs_done = False, cs_done_reason = None, cs_total_duration = None, cs_load_duration = None,
      cs_prompt_eval_count = None, cs_prompt_eval_duration = None, cs_eval_count = None, cs_eval_duration = None,
      cc_model = model, cc_created_at = now, cc_message = \<lparr>cm_role = ''assistant'', cm_content = txt\<rparr>\<rparr>"

definition chat_final_chunk :: "string \<Rightarrow> string \<Rightarrow> string \<Rightarrow> u64 \<Rightarrow> u64 \<Rightarrow> generation_result option \<Rightarrow> chat_chunk" where
  "chat_final_chunk model now txt total_ns load_ns result =
     \<lparr>cs_done = True, cs_done_reason = Some ''stop'', cs_total_duration = Some total_ns, cs_load_duration = Some load_ns,
      cs_prompt_eval_count = map_option gr_prompt_tokens result,
      cs_prompt_eval_duration = map_option prompt_duration_of result,
      cs_eval_count = map_option gr_tokens_generated result, cs_eval_duration = map_option eval_duration_of result,
      cc_model = model, cc_created_at = now, cc_message = \<lparr>cm_role = ''assistant'', cm_content = txt\<rparr>\<rparr>"

text \<open>Without streaming the tokens are collected; \<open>result\<close> is what the one-shot channel gives.\<close>

definition collect_generate :: "string \<Rightarrow> string \<Rightarrow> u64 \<Rightarrow> u64 \<Rightarrow> generated_token list \<Rightarrow> generation_result option \<Rightarrow> generate_chunk" where
  "collect_generate model now total_ns load_ns tokens result =
     generate_final_chunk model now (concat (map gt_text tokens)) total_ns load_ns result"

definition collect_chat :: "string \<Rightarrow> string \<Rightarrow> u64 \<Rightarrow> u64 \<Rightarrow> generated_token list \<Rightarrow> generation_result option \<Rightarrow> chat_chunk" where
  "collect_chat model now total_ns load_ns tokens result =
     chat_final_chunk model now (concat (map gt_text tokens)) total_ns load_ns result"

text \<open>One line of newline-delimited JSON; a chunk that does not serialize is the empty text.\<close>

definition ndjson_line :: "('c \<Rightarrow> string option) \<Rightarrow> 'c \<Rightarrow> string" where
  "ndjson_line to_json c = unwrap_or (to_json c) [] @ [newline]"

section \<open>A streaming request\<close>

text \<open>The thread: sending the tokens it still has, about to hand in its result, finished.  The
  task: waiting for a token, with a line to send, waiting for the result (the total time is
  taken), with the last line to send, gone.\<close>

datatype producer = Generating "generated_token list" | Reporting | Finished
datatype forwarder = Forwarding | Sending string | Awaiting u64 | SendingLast string | Ended

record stream_state =
  st_producer :: producer
  st_tokens :: "generated_token list"
  st_slot :: "generation_result option"
  st_task :: forwarder
  st_lines :: "string list"
  st_connected :: bool
  st_received :: "string list"

record line_format =
  lf_token :: "string \<Rightarrow> string \<Rightarrow> string"
  lf_last :: "string \<Rightarrow> u64 \<Rightarrow> generation_result option \<Rightarrow> string"

definition generate_format :: "(generate_chunk \<Rightarrow> string option) \<Rightarrow> string \<Rightarrow> u64 \<Rightarrow> line_format" where
  "generate_format to_json model load_ns =
     \<lparr>lf_token = (\<lambda>now txt. ndjson_line to_json (generate_token_chunk model now txt)),
      lf_last = (\<lambda>now total_ns result. ndjson_line to_json (generate_final_chunk model now [] total_ns load_ns result))\<rparr>"

definition chat_format :: "(chat_chunk \<Rightarrow> string option) \<Rightarrow> string \<Rightarrow> u64 \<Rightarrow> line_format" where
  "chat_format to_json model load_ns =
     \<lparr>lf_token = (\<lambda>now txt. ndjson_line to_json (chat_token_chunk model now txt)),
      lf_last = (\<lambda>now total_ns result. ndjson_line to_json (chat_final_chunk model now [] total_ns load_ns result))\<rparr>"

definition line_capacity :: nat where "line_capacity = 64"

text \<open>\<open>result\<close> is what the thread hands in: nothing when the generation failed.  When the token
  channel is closed the thread leaves its loop at the next send; what it hands in then is
  never read.\<close>

inductive stream_step :: "line_format \<Rightarrow> generation_result option \<Rightarrow> stream_state \<Rightarrow> stream_state \<Rightarrow> bool"
  for lf :: line_format and result :: "generation_result option" where
  produce: "st_producer s = Generating (t # ts) \<Longrightarrow> st_task s \<noteq> Ended \<Longrightarrow>
    stream_step lf result s (s\<lparr>st_producer := Generating ts, st_tokens := st_tokens s @ [t]\<rparr>)"
| produce_closed: "st_producer s = Generating (t # ts) \<Longrightarrow> st_task s = Ended \<Longrightarrow>
    stream_step lf result s (s\<lparr>st_producer := Reporting\<rparr>)"
| produce_done: "st_producer s = Generating [] \<Longrightarrow> stream_step lf result s (s\<lparr>st_producer := Reporting\<rparr>)"
| report: "st_producer s = Reporting \<Longrightarrow> stream_step lf result s (s\<lparr>st_producer := Finished, st_slot := result\<rparr>)"
| recv: "st_task s = Forwarding \<Longrightarrow> st_tokens s = t # ts \<Longrightarrow>
    stream_step lf result s (s\<lparr>st_task := Sending (lf_token lf now (gt_text t)), st_tokens := ts\<rparr>)"
| recv_end: "st_task s = Forwarding \<Longrightarrow> st_tokens s = [] \<Longrightarrow> st_producer s = Reporting \<or> st_producer s = Finished \<Longrightarrow>
    stream_step lf result s (s\<lparr>st_task := Awaiting total_ns\<rparr>)"
| send: "st_task s = Sending l \<Longrightarrow> st_connected s \<Longrightarrow> length (st_lines s) < line_capacity \<Longrightarrow>
    stream_step lf result s (s\<lparr>st_task := Forwarding, st_lines := st_lines s @ [l]\<rparr>)"
| send_closed: "st_task s = Sending l \<Longrightarrow> \<not> st_connected s \<Longrightarrow> stream_step lf result s (s\<lparr>st_task := Ended\<rparr>)"
| await: "st_task s = Awaiting total_ns \<Longrightarrow> st_producer s = Finished \<Longrightarrow>
    stream_step lf result s (s\<lparr>st_task := SendingLast (lf_last lf now total_ns (st_slot s))\<rparr>)"
| send_last: "st_task s = SendingLast l \<Longrightarrow> st_connected s \<Longrightarrow> length (st_lines s) < line_capacity \<Longrightarrow>
    stream_step lf result s (s\<lparr>st_task := Ended, st_lines := st_lines s @ [l]\<rparr>)"
| send_last_closed: "st_task s = SendingLast l \<Longrightarrow> \<not> st_connected s \<Longrightarrow> stream_step lf result s (s\<lparr>st_task := Ended\<rparr>)"
| client_read: "st_connected s \<Longrightarrow> st_lines s = l # ls \<Longrightarrow>
    stream_step lf result s (s\<lparr>st_lines := ls, st_received := st_received s @ [l]\<rparr>)"
| client_leave: "st_connected s \<Longrightarrow> stream_step lf result s (s\<lparr>st_connected := False, st_lines := []\<rparr>)"

definition stream_start :: "generated_token list \<Rightarrow> stream_state" where
  "stream_start ts = \<lparr>st_producer = Generating ts, st_tokens = [], st_slot = None, st_task = Forwarding,
     st_lines = [], st_connected = True, st_received = []\<rparr>"

section \<open>What the client gets\<close>

definition token_lines :: "line_format \<Rightarrow> string list \<Rightarrow> generated_token list \<Rightarrow> bool" where
  "token_lines lf = list_all2 (\<lambda>l t. \<exists>now. l = lf_token lf now (gt_text t))"

definition full_response :: "line_format \<Rightarrow> generation_result option \<Rightarrow> generated_token list \<Rightarrow> string list \<Rightarrow> bool" where
  "full_response lf result ts xs \<longleftrightarrow> (\<exists>ys now total_ns. xs = ys @ [lf_last lf now total_ns result] \<and> token_lines lf ys ts)"

definition response_prefix :: "line_format \<Rightarrow> generation_result option \<Rightarrow> generated_token list \<Rightarrow> string list \<Rightarrow> bool" where
  "response_prefix lf result ts xs \<longleftrightarrow> (\<exists>zs. full_response lf result ts (xs @ zs))"

lemma token_lines_ex: "\<exists>ys. token_lines lf ys ts"
  by (induction ts) (auto simp: token_lines_def list_all2_Cons2)

lemma token_lines_prefix: "token_lines lf xs ts1 \<Longrightarrow> response_prefix lf result (ts1 @ ts2) xs"
proof -
  assume a: "token_lines lf xs ts1"
  obtain ys where "token_lines lf ys ts2" using token_lines_ex by blast
  with a have "full_response lf result (ts1 @ ts2) (xs @ ys @ [lf_last lf [] 0 result])"
    by (auto simp: full_response_def token_lines_def intro!: exI [of _ "xs @ ys"] list_all2_appendI)
  then show ?thesis unfolding response_prefix_def by blast
qed

lemma response_prefixD: "response_prefix lf result ts (xs @ ys) \<Longrightarrow> response_prefix lf result ts xs"
  unfolding response_prefix_def by auto

lemma full_prefix: "full_response lf result ts (xs @ ys) \<Longrightarrow> response_prefix lf result ts xs"
  unfolding response_prefix_def by blast

text \<open>The tokens still to be taken by the task, and the lines on their way to the client.\<close>

definition to_come :: "stream_state \<Rightarrow> generated_token list" where
  "to_come s = st_tokens s @ (case st_producer s of Generating ts \<Rightarrow> ts | _ \<Rightarrow> [])"

definition in_flight :: "stream_state \<Rightarrow> string list" where
  "in_flight s = st_received s @ st_lines s @ (case st_task s of Sending l \<Rightarrow> [l] | SendingLast l \<Rightarrow> [l] | _ \<Rightarrow> [])"

definition connected_inv :: "line_format \<Rightarrow> generation_result option \<Rightarrow> generated_token list \<Rightarrow> stream_state \<Rightarrow> bool" where
  "connected_inv lf result ts s \<longleftrightarrow> (case st_task s of
      Forwarding \<Rightarrow> \<exists>done. ts = done @ to_come s \<and> token_lines lf (in_flight s) done
    | Sending l \<Rightarrow> \<exists>done. ts = done @ to_come s \<and> token_lines lf (in_flight s) done
    | Awaiting n \<Rightarrow> token_lines lf (in_flight s) ts
    | SendingLast l \<Rightarrow> full_response lf result ts (in_flight s)
    | Ended \<Rightarrow> full_response lf result ts (in_flight s))"

definition stream_inv :: "line_format \<Rightarrow> generation_result option \<Rightarrow> generated_token list \<Rightarrow> stream_state \<Rightarrow> bool" where
  "stream_inv lf result ts s \<longleftrightarrow> (st_producer s = Finished \<longrightarrow> st_slot s = result) \<and>
     length (st_lines s) \<le> line_capacity \<and>
     (if st_connected s then connected_inv lf result ts s else response_prefix lf result ts (st_received s))"

lemma connected_prefix:
  assumes "connected_inv lf result ts s" shows "response_prefix lf result ts (in_flight s)"
proof (cases "st_task s")
  case (Awaiting n)
  with assms token_lines_prefix [of lf "in_flight s" ts result "[]"] show ?thesis by (simp add: connected_inv_def)
qed (use assms in \<open>auto simp: connected_inv_def intro: token_lines_prefix full_prefix [of _ _ _ _ "[]", simplified]\<close>)

lemma in_flight_received: "response_prefix lf result ts (in_flight s) \<Longrightarrow> response_prefix lf result ts (st_received s)"
  unfolding in_flight_def by (rule response_prefixD)

lemma stream_inv_start: "stream_inv lf result ts (stream_start ts)"
  by (simp add: stream_inv_def connected_inv_def stream_start_def to_come_def in_flight_def token_lines_def)

lemma token_lines_snoc: "token_lines lf xs ts \<Longrightarrow> token_lines lf (xs @ [lf_token lf now (gt_text t)]) (ts @ [t])"
  unfolding token_lines_def by (intro list_all2_appendI) auto

lemma stream_step_inv:
  assumes "stream_step lf result s s'" "stream_inv lf result ts s"
  shows "stream_inv lf result ts s'"
  using assms
proof (induction rule: stream_step.induct)
  case (recv s t rest now)
  show ?case
  proof (cases "st_connected s")
    case True
    with recv obtain sent where "ts = sent @ to_come s" "token_lines lf (in_flight s) sent"
      by (auto simp: stream_inv_def connected_inv_def)
    with recv.hyps token_lines_snoc [of lf "in_flight s" sent now t] True recv.prems show ?thesis
      by (auto simp: stream_inv_def connected_inv_def to_come_def in_flight_def intro!: exI [of _ "sent @ [t]"])
  qed (use recv in \<open>simp add: stream_inv_def\<close>)
next
  case (client_leave s)
  then have "response_prefix lf result ts (st_received s)"
    using in_flight_received [OF connected_prefix] by (auto simp: stream_inv_def)
  with client_leave show ?case by (simp add: stream_inv_def)
next
  case (await s n now)
  then show ?case by (auto simp: stream_inv_def connected_inv_def in_flight_def full_response_def)
qed (auto simp: stream_inv_def connected_inv_def to_come_def in_flight_def split: if_splits forwarder.splits producer.splits)

lemma stream_reachable_inv:
  "(stream_step lf result)\<^sup>*\<^sup>* (stream_start ts) s \<Longrightarrow> stream_inv lf result ts s"
  by (induction rule: rtranclp_induct) (auto intro: stream_inv_start stream_step_inv)

section \<open>Every request ends\<close>

definition stream_work :: "stream_state \<Rightarrow> nat" where
  "stream_work s =
     (case st_producer s of Generating ts \<Rightarrow> 5 * length ts + 2 | Reporting \<Rightarrow> 1 | Finished \<Rightarrow> 0) + 4 * length (st_tokens s) +
     (case st_task s of Forwarding \<Rightarrow> 4 | Sending l \<Rightarrow> 6 | Awaiting n \<Rightarrow> 3 | SendingLast l \<Rightarrow> 2 | Ended \<Rightarrow> 0) +
     length (st_lines s) + (if st_connected s then 1 else 0)"

lemma stream_step_work: "stream_step lf result s s' \<Longrightarrow> stream_work s' < stream_work s"
  by (induction rule: stream_step.induct) (auto simp: stream_work_def)

lemma stream_run_work: "(stream_step lf result ^^ n) s s' \<Longrightarrow> stream_work s' + n \<le> stream_work s"
proof (induction n arbitrary: s')
  case (Suc n)
  then obtain s1 where s1: "(stream_step lf result ^^ n) s s1" "stream_step lf result s1 s'" by auto
  from Suc.IH [OF s1(1)] stream_step_work [OF s1(2)] show ?case by simp
qed simp

text \<open>No step but the client's leaving.\<close>

definition quiet :: "line_format \<Rightarrow> generation_result option \<Rightarrow> stream_state \<Rightarrow> bool" where
  "quiet lf result s \<longleftrightarrow> (\<forall>s'. stream_step lf result s s' \<longrightarrow> st_connected s \<and> \<not> st_connected s')"

lemma quiet_ended:
  assumes "quiet lf result s"
  shows "st_producer s = Finished \<and> st_task s = Ended \<and> (st_connected s \<longrightarrow> st_lines s = [])"
proof -
  have no: False if "stream_step lf result s s'" "st_connected s' = st_connected s" for s'
    using assms that by (auto simp: quiet_def)
  have p: "st_producer s = Finished"
  proof (cases "st_producer s")
    case (Generating ts)
    show ?thesis
    proof (cases ts)
      case (Cons t rest)
      with Generating no [OF produce] no [OF produce_closed] show ?thesis by (cases "st_task s = Ended") auto
    qed (use Generating no [OF produce_done] in auto)
  qed (use no [OF report] in auto)
  moreover have l: "st_lines s = []" if "st_connected s"
    using no [OF client_read [OF that]] that by (cases "st_lines s") auto
  moreover have "st_task s = Ended"
  proof (cases "st_task s")
    case Forwarding
    with p no [OF recv] no [OF recv_end] show ?thesis by (cases "st_tokens s") auto
  next
    case (Sending x)
    with l no [OF send] no [OF send_closed] show ?thesis by (cases "st_connected s") (auto simp: line_capacity_def)
  next
    case (Awaiting n)
    with p no [OF await] show ?thesis by auto
  next
    case (SendingLast x)
    with l no [OF send_last] no [OF send_last_closed] show ?thesis by (cases "st_connected s") (auto simp: line_capacity_def)
  qed simp
  ultimately show ?thesis by blast
qed

text \<open>C13. A streaming client gets the right lines in the right order, however the thread, the task
  and the client are interleaved: in every reachable state the lines received are a prefix of
  one response, a line for each token in order and then the last line with the result; and
  when the body has ended and the client is still there, it has the whole response.\<close>

theorem stream_delivers:
  assumes "(stream_step lf result)\<^sup>*\<^sup>* (stream_start ts) s"
  shows "response_prefix lf result ts (st_received s) \<and>
    (st_connected s \<and> st_task s = Ended \<and> st_lines s = [] \<longrightarrow> full_response lf result ts (st_received s)) \<and>
    length (st_lines s) \<le> line_capacity"
proof -
  note i = stream_reachable_inv [OF assms]
  then have "response_prefix lf result ts (st_received s)"
    using in_flight_received [OF connected_prefix] by (auto simp: stream_inv_def split: if_splits)
  with i show ?thesis by (auto simp: stream_inv_def connected_inv_def in_flight_def split: if_splits)
qed

text \<open>C29. Every streaming request ends.  A run has at most five steps per token and seven more, whatever
  the order of the steps and whether or not the client leaves; and a state in which nothing
  can happen but the client's leaving is one where thread and task are finished and, if the
  client is there, the response is complete: a slow client, a full line channel or a failed
  generation never leaves the request hanging.\<close>

theorem stream_ends:
  assumes "(stream_step lf result ^^ n) (stream_start ts) s"
  shows "n \<le> 5 * length ts + 7 \<and>
    (quiet lf result s \<longrightarrow> st_producer s = Finished \<and> st_task s = Ended \<and>
       (st_connected s \<longrightarrow> full_response lf result ts (st_received s)))"
proof -
  have "n \<le> 5 * length ts + 7" using stream_run_work [OF assms] by (simp add: stream_work_def stream_start_def)
  moreover have "stream_inv lf result ts s"
    using stream_reachable_inv [OF relpowp_imp_rtranclp [OF assms]] .
  ultimately show ?thesis
    using quiet_ended [of lf result s] by (auto simp: stream_inv_def connected_inv_def in_flight_def)
qed

section \<open>The text of the response\<close>

lemma sent_text:
  assumes "generate (logged api) (lift_hooks h) n_batch max_tokens tokens (w, []) = Ret (Inr (res, (w', calls)))"
  shows "concat (map gt_text (sent_of calls)) = gr_text res \<and> length (sent_of calls) = unat (gr_tokens_generated res)"
proof -
  from generate_calls [OF assms] obtain toks where "list_all2 (told api) toks (sent_of calls)"
    "gr_text res = concat (map (la_piece api) toks)" "unat (gr_tokens_generated res) = length toks" by blast
  then show ?thesis using told_text [of api toks "sent_of calls"] list_all2_lengthD [of "told api" toks "sent_of calls"] by simp
qed

lemma token_lines_chunks:
  assumes "list_all2 (\<lambda>l t. \<exists>now. l = f (mk now (gt_text t))) ys ts"
  shows "\<exists>nows. length nows = length ts \<and> ys = map f (map2 (\<lambda>now t. mk now (gt_text t)) nows ts)"
  using assms
proof (induction rule: list_all2_induct)
  case (Cons y ys t ts)
  then obtain now nows where "y = f (mk now (gt_text t))" "length nows = length ts"
    "ys = map f (map2 (\<lambda>now t. mk now (gt_text t)) nows ts)" by blast
  then show ?case by (intro exI [of _ "now # nows"]) simp
qed simp

lemma map2_texts:
  "length nows = length ts \<Longrightarrow> (\<And>now txt. get (mk now txt) = txt) \<Longrightarrow> map get (map2 (\<lambda>now t. mk now (gt_text t)) nows ts) = map gt_text ts"
  by (induction nows ts rule: list_induct2) simp_all

text \<open>A response in chunks: the texts add up, only the last chunk is done, and it has the count.\<close>

definition says :: "('c chunk_stats_scheme \<Rightarrow> string) \<Rightarrow> generation_result \<Rightarrow> 'c chunk_stats_scheme list \<Rightarrow> bool" where
  "says get res cs \<longleftrightarrow> cs \<noteq> [] \<and> (\<forall>c \<in> set (butlast cs). \<not> cs_done c) \<and> cs_done (last cs) \<and>
     cs_eval_count (last cs) = Some (gr_tokens_generated res) \<and> length cs = unat (gr_tokens_generated res) + 1 \<and>
     concat (map get cs) = gr_text res"

lemma response_says:
  assumes "generate (logged api) (lift_hooks h) n_batch max_tokens tokens (w, []) = Ret (Inr (res, (w', calls)))"
    "lf = \<lparr>lf_token = (\<lambda>now txt. f (mk now txt)), lf_last = (\<lambda>now total_ns result. f (fin now total_ns result))\<rparr>"
    "full_response lf (Some res) (sent_of calls) lines"
    "\<And>now txt. get (mk now txt) = txt \<and> \<not> cs_done (mk now txt)"
    "\<And>now total_ns. get (fin now total_ns (Some res)) = [] \<and> cs_done (fin now total_ns (Some res)) \<and>
       cs_eval_count (fin now total_ns (Some res)) = Some (gr_tokens_generated res)"
  shows "\<exists>cs. lines = map f cs \<and> says get res cs"
proof -
  let ?ts = "sent_of calls"
  from assms(2,3) obtain ys now total_ns where y: "lines = ys @ [f (fin now total_ns (Some res))]"
    "list_all2 (\<lambda>l t. \<exists>now. l = f (mk now (gt_text t))) ys ?ts"
    by (auto simp: full_response_def token_lines_def)
  from token_lines_chunks [where f = f and mk = mk, OF y(2)] obtain nows where n: "length nows = length ?ts"
    "ys = map f (map2 (\<lambda>now t. mk now (gt_text t)) nows ?ts)" by blast
  define cs where "cs = map2 (\<lambda>now t. mk now (gt_text t)) nows ?ts"
  have c: "map get cs = map gt_text ?ts" "\<forall>c \<in> set cs. \<not> cs_done c" "length cs = length ?ts"
    using map2_texts [where get = get and mk = mk, OF n(1)] assms(4) n(1) by (auto simp: cs_def)
  define l where "l = fin now total_ns (Some res)"
  have "get l = [] \<and> cs_done l \<and> cs_eval_count l = Some (gr_tokens_generated res)" unfolding l_def by (rule assms(5))
  with c sent_text [OF assms(1)] have "says get res (cs @ [l])" by (simp add: says_def)
  moreover have "lines = map f (cs @ [l])" using y(1) n(2) by (simp add: cs_def l_def)
  ultimately show ?thesis by blast
qed


section \<open>A run\<close>

definition st :: "producer \<Rightarrow> generated_token list \<Rightarrow> generation_result option \<Rightarrow> forwarder \<Rightarrow> string list \<Rightarrow> string list \<Rightarrow> stream_state" where
  "st p ts slot task ls got = \<lparr>st_producer = p, st_tokens = ts, st_slot = slot, st_task = task, st_lines = ls,
     st_connected = True, st_received = got\<rparr>"

definition one_token :: generated_token where
  "one_token = \<lparr>gt_text = ''hi'', gt_token_id = 7, gt_tok_per_sec = Fin 0, gt_is_eog = True\<rparr>"

definition plain_format :: line_format where
  "plain_format = \<lparr>lf_token = (\<lambda>now txt. txt), lf_last = (\<lambda>now total_ns result. ''.'')\<rparr>"

text \<open>One token, with the thread ahead of the task and the client behind.\<close>

definition run_states :: "stream_state list" where
  "run_states =
     [st (Generating []) [one_token] None Forwarding [] [],
      st Reporting [one_token] None Forwarding [] [],
      st Reporting [] None (Sending ''hi'') [] [],
      st Finished [] None (Sending ''hi'') [] [],
      st Finished [] None Forwarding [''hi''] [],
      st Finished [] None (Awaiting 5) [''hi''] [],
      st Finished [] None (SendingLast ''.'') [''hi''] [],
      st Finished [] None Ended [''hi'', ''.''] [],
      st Finished [] None Ended [''.''] [''hi''],
      st Finished [] None Ended [] [''hi'', ''.'']]"

definition last_state :: stream_state where "last_state = st Finished [] None Ended [] [''hi'', ''.'']"

lemma relpowp_chain:
  "successively R (x # xs) \<Longrightarrow> (R ^^ length xs) x (last (x # xs))"
proof (induction xs arbitrary: x)
  case (Cons y ys)
  then have "R x y" "(R ^^ length ys) y (last (y # ys))" by (simp_all add: successively_Cons)
  then show ?case by (metis length_Cons last_ConsR list.distinct(1) relpowp_Suc_I2)
qed simp

inductive_simps stream_step_iff: "stream_step lf result s s'"

lemma demo_stream_run: "(stream_step plain_format None ^^ 10) (stream_start [one_token]) last_state"
proof -
  have "successively (stream_step plain_format None) (stream_start [one_token] # run_states)"
    unfolding run_states_def stream_start_def st_def successively.simps
    by (intro conjI TrueI) (simp_all add: stream_step_iff plain_format_def line_capacity_def one_token_def)
  moreover have "length run_states = 10" "last (stream_start [one_token] # run_states) = last_state"
    by (simp_all add: run_states_def last_state_def)
  ultimately show ?thesis using relpowp_chain by metis
qed

lemma last_state_quiet: "quiet plain_format None last_state"
  by (simp add: quiet_def stream_step_iff last_state_def st_def)

theorem stream_delivers_witness:
  "(stream_step plain_format None)\<^sup>*\<^sup>* (stream_start [one_token]) last_state \<and>
   full_response plain_format None [one_token] (st_received last_state)"
proof -
  have r: "(stream_step plain_format None)\<^sup>*\<^sup>* (stream_start [one_token]) last_state"
    using relpowp_imp_rtranclp [OF demo_stream_run] .
  then show ?thesis using stream_delivers [OF r] by (simp add: last_state_def st_def)
qed

theorem stream_ends_witness:
  "(stream_step plain_format None ^^ 10) (stream_start [one_token]) last_state \<and> (10::nat) \<le> 5 * length [one_token] + 7 \<and>
   full_response plain_format None [one_token] (st_received last_state)"
  using stream_ends [OF demo_stream_run] demo_stream_run last_state_quiet by (simp add: last_state_def st_def)


text \<open>A failed generation looks finished: whatever was sent before the error, the last chunk is
  marked done with the reason \<open>stop\<close>; only the counts are missing.\<close>

lemma failed_request_looks_done:
  assumes "full_response (generate_format to_json model load_ns) None ts lines"
  shows "\<exists>c. last lines = ndjson_line to_json c \<and> cs_done c \<and> cs_done_reason c = Some ''stop'' \<and> cs_eval_count c = None"
proof -
  from assms obtain ys now total_ns where "lines = ys @ [ndjson_line to_json (generate_final_chunk model now [] total_ns load_ns None)]"
    by (auto simp: full_response_def generate_format_def)
  then show ?thesis by (intro exI [of _ "generate_final_chunk model now [] total_ns load_ns None"]) (simp add: generate_final_chunk_def)
qed

section \<open>The prompt can be read back\<close>

lemma im_end_nth: "i < 10 \<Longrightarrow> im_end ! i = CHR 0x3C \<longleftrightarrow> i = 0" for i :: nat
  by (simp add: im_end_def less_Suc_eq eval_nat_numeral) auto

lemma split_at_im_end:
  assumes "c @ im_end @ r = c' @ im_end @ r'" "length c \<le> length c'" "\<not> str_contains c' im_end"
  shows "c = c'"
proof -
  have len: "length im_end = 10" by (simp add: im_end_def)
  have "c = take (length c) (c' @ im_end @ r')" using arg_cong [OF assms(1), of "take (length c)"] by simp
  then have c: "c = take (length c) c'" using assms(2) by simp
  define d where "d = drop (length c) c'"
  have d: "c' = c @ d" using c append_take_drop_id [of "length c" c'] by (simp add: d_def)
  with assms(1) have d2: "im_end @ r = d @ im_end @ r'" by simp
  have "d = []"
  proof (rule ccontr)
    assume "d \<noteq> []"
    show False
    proof (cases "length d < 10")
      case True
      have "im_end ! length d = (im_end @ r) ! length d" using True len by (simp add: nth_append)
      also have "\<dots> = CHR 0x3C" unfolding d2 by (simp add: nth_append im_end_def)
      finally show False using True \<open>d \<noteq> []\<close> im_end_nth by simp
    next
      case False
      have "prefix d (im_end @ r)" unfolding d2 by simp
      with False have "prefix im_end d" using len prefix_length_prefix [of im_end "im_end @ r" d] by simp
      then show False using assms(3) d by (auto simp: str_contains_def prefix_def sublist_def)
    qed
  qed
  with d show ?thesis by simp
qed

text \<open>A role on one line, a content without the end marker.\<close>

definition clean_message :: "chat_message \<Rightarrow> bool" where
  "clean_message m \<longleftrightarrow> newline \<notin> set (cm_role m) \<and> \<not> str_contains (cm_content m) im_end"

lemma split_at_newline:
  assumes "a @ newline # r = a' @ newline # r'" "newline \<notin> set a" "newline \<notin> set a'"
  shows "a = a' \<and> r = r'"
  using assms(1,2,3)
proof (induction a arbitrary: a')
  case Nil
  then show ?case by (cases a') auto
next
  case (Cons x xs)
  then show ?case by (cases a') auto
qed

lemma clean_unique:
  assumes "format_message m @ r = format_message m' @ r'" "clean_message m" "clean_message m'"
  shows "m = m' \<and> r = r'"
proof -
  from assms have a: "cm_role m = cm_role m' \<and> cm_content m @ im_end @ newline # r = cm_content m' @ im_end @ newline # r'"
    by (intro split_at_newline) (simp_all add: format_message_def clean_message_def)
  have "cm_content m = cm_content m'"
  proof (cases "length (cm_content m) \<le> length (cm_content m')")
    case True
    with a assms(3) split_at_im_end [of "cm_content m" "newline # r" "cm_content m'" "newline # r'"] show ?thesis
      by (simp add: clean_message_def)
  next
    case False
    with a assms(2) split_at_im_end [of "cm_content m'" "newline # r'" "cm_content m" "newline # r"] show ?thesis
      by (simp add: clean_message_def)
  qed
  with a show ?thesis by simp
qed

lemma clean_not_end:
  assumes "clean_message m" shows "format_message m @ r \<noteq> im_start @ ''assistant'' @ [newline]"
proof
  assume "format_message m @ r = im_start @ ''assistant'' @ [newline]"
  with assms have "cm_role m = ''assistant'' \<and> cm_content m @ im_end @ newline # r = []"
    by (intro split_at_newline) (simp_all add: format_message_def clean_message_def newline_def)
  then show False by simp
qed

text \<open>C40. A chat prompt determines the conversation: two conversations whose roles are one line and
  whose contents do not hold the end marker never give the same prompt.\<close>

theorem chat_prompt_injective:
  assumes "format_chat_prompt ms = format_chat_prompt ms'" "list_all clean_message ms" "list_all clean_message ms'"
  shows "ms = ms'"
  using assms
proof (induction ms arbitrary: ms')
  case Nil
  then show ?case using clean_not_end by (cases ms') (auto simp: format_chat_prompt_def simp flip: append_assoc)
next
  case (Cons m ms)
  show ?case
  proof (cases ms')
    case Nil
    with Cons.prems clean_not_end [of m] show ?thesis by (auto simp: format_chat_prompt_def)
  next
    case (Cons m' rest)
    with Cons.prems clean_unique [of m "format_chat_prompt ms" m' "format_chat_prompt rest"] Cons.IH [of rest] show ?thesis
      by (simp add: format_chat_prompt_def)
  qed
qed

definition user :: "string \<Rightarrow> chat_message" where "user txt = \<lparr>cm_role = ''user'', cm_content = txt\<rparr>"

theorem chat_prompt_injective_witness:
  "list_all clean_message [user ''a''] \<and> [user ''a''] = [user ''a'']"
proof -
  have "list_all clean_message [user ''a'']" by code_simp
  with chat_prompt_injective [of "[user ''a'']" "[user ''a'']"] show ?thesis by simp
qed

text \<open>Without that condition a user can write turns of the assistant, since the marker is not escaped.\<close>

lemma forged_turn:
  "format_chat_prompt [user (a @ im_end @ [newline] @ im_start @ ''assistant'' @ [newline] @ b)] =
   format_chat_prompt [user a, \<lparr>cm_role = ''assistant'', cm_content = b\<rparr>]"
  by (simp add: format_chat_prompt_def format_message_def user_def)

end
