(* ===== verification/Profiler.thy ===== *)
theory Profiler
  imports Sched_Types Io_Pool
begin

text \<open>
  Model of the hardware profiler (\<open>src/profiler/\<close>): the look-up tables for Apple processors
  (\<open>cpu.rs\<close>, \<open>gpu.rs\<close>), the memory and storage benchmarks (\<open>memory.rs\<close>, \<open>storage.rs\<close>) and the
  assembly and ageing of a profile (\<open>mod.rs\<close>).  What the operating system answers and what the
  clock shows are arguments: the results of \<open>sysctl\<close>, the Metal device, \<open>pread\<close>, and elapsed
  times in nanoseconds.
\<close>

section \<open>Processor\<close>

definition int8_specs :: "(string \<times> f64) list" where
  "int8_specs =
     [(''M5 Ultra'', Fin 44), (''M5 Max'', Fin 22), (''M5 Pro'', Fin 11), (''M5'', Fin (11/2)),
      (''M4 Ultra'', Fin 40), (''M4 Max'', Fin 20), (''M4 Pro'', Fin 10), (''M4'', Fin 5),
      (''M3 Ultra'', Fin 32), (''M3 Max'', Fin 16), (''M3 Pro'', Fin 8), (''M3'', Fin 4),
      (''M2 Ultra'', Fin 24), (''M2 Max'', Fin 12), (''M2 Pro'', Fin 6), (''M2'', Fin 3),
      (''M1 Ultra'', Fin 20), (''M1 Max'', Fin 10), (''M1 Pro'', Fin 4), (''M1'', Fin 2)]"

definition estimate_int8_gflops :: "string \<Rightarrow> f64" where
  "estimate_int8_gflops model_name =
     (case find (\<lambda>(pattern, _). str_contains model_name pattern) int8_specs of
        Some (_, gflops) \<Rightarrow> gflops
      | None \<Rightarrow> Fin 2)"

text \<open>The answers of \<open>sysctl\<close>, \<open>None\<close> for an error.\<close>

record sysctl =
  sc_brand :: "string option"
  sc_ncpu :: "u32 option"
  sc_performance :: "u32 option"
  sc_efficiency :: "u32 option"
  sc_model :: "string option"
  sc_os_version :: "string option"

definition profile_cpu :: "bool \<Rightarrow> sysctl \<Rightarrow> cpu_profile" where
  "profile_cpu aarch64 sc =
     (let model_name = unwrap_or (sc_brand sc) ''Unknown'';
          total_cores = unwrap_or (sc_ncpu sc) 1;
          is_apple_silicon = aarch64 \<and> str_contains model_name ''Apple''
      in \<lparr>cp_model_name = model_name,
          cp_cores_performance = unwrap_or (sc_performance sc) total_cores,
          cp_cores_efficiency = unwrap_or (sc_efficiency sc) 0,
          cp_has_amx = is_apple_silicon, cp_has_neon = aarch64, cp_has_avx512 = False, cp_has_avx2 = False,
          cp_int8_gflops = estimate_int8_gflops model_name\<rparr>)"

section \<open>Graphics processor\<close>

record apple_silicon_spec =
  as_pattern :: string
  as_bandwidth_gb_s :: f64
  as_fp16_tflops :: f64

definition spec :: "string \<Rightarrow> rat \<Rightarrow> rat \<Rightarrow> apple_silicon_spec" where
  "spec p bw tf = \<lparr>as_pattern = p, as_bandwidth_gb_s = rnd bw, as_fp16_tflops = rnd tf\<rparr>"

definition apple_silicon_specs :: "apple_silicon_spec list" where
  "apple_silicon_specs =
     [spec ''M5 Ultra'' 900 40, spec ''M5 Max'' 600 20, spec ''M5 Pro'' 300 10, spec ''M5'' 120 (45/10),
      spec ''M4 Ultra'' 819 36, spec ''M4 Max'' 546 18, spec ''M4 Pro'' 273 9, spec ''M4'' 120 4,
      spec ''M3 Ultra'' 800 28, spec ''M3 Max'' 400 14, spec ''M3 Pro'' 150 7, spec ''M3'' 100 (35/10),
      spec ''M2 Ultra'' 800 (272/10), spec ''M2 Max'' 400 (136/10), spec ''M2 Pro'' 200 (68/10), spec ''M2'' 100 (36/10),
      spec ''M1 Ultra'' 800 (208/10), spec ''M1 Max'' 400 (104/10), spec ''M1 Pro'' 200 (52/10), spec ''M1'' (6825/100) (26/10)]"

definition lookup_apple_silicon :: "string \<Rightarrow> apple_silicon_spec option" where
  "lookup_apple_silicon name = find (\<lambda>sp. str_contains name (as_pattern sp)) apple_silicon_specs"

text \<open>The registered backends: null pointers, the name when there is one, and the devices with
  their description and total memory; a null device is \<open>None\<close>.\<close>

type_synonym metal_device = "string option \<times> u64"
type_synonym backend_reg = "(string option \<times> metal_device option list) option"

definition is_metal :: "backend_reg \<Rightarrow> bool" where
  "is_metal r = (case r of Some (Some name, _) \<Rightarrow> str_contains name ''MTL'' \<or> str_contains name ''Metal'' | _ \<Rightarrow> False)"

definition query_metal_device :: "backend_reg list \<Rightarrow> (string \<times> u64) option" where
  "query_metal_device regs = (case find is_metal regs of
      Some (Some (_, Some (desc, total_n) # _)) \<Rightarrow> Some (unwrap_or desc ''Unknown Metal GPU'', total_n)
    | _ \<Rightarrow> None)"

definition profile_gpu :: "backend_reg list \<Rightarrow> gpu_profile option" where
  "profile_gpu regs = (case query_metal_device regs of
      None \<Rightarrow> None
    | Some (name, vram_bytes) \<Rightarrow>
        (let (bandwidth, tflops) = (case lookup_apple_silicon name of
               Some sp \<Rightarrow> (f_to_word (f_mul (as_bandwidth_gb_s sp) (Fin 1000000000)), as_fp16_tflops sp)
             | None \<Rightarrow> (68250000000, rnd (26/10)))
         in Some \<lparr>gp_name = name, gp_vram_bytes = vram_bytes, gp_bandwidth_bytes_per_sec = bandwidth,
                  gp_fp16_tflops = tflops, gp_backend = Metal\<rparr>))"

section \<open>Memory\<close>

definition mem_buffer_size :: nat where
  "mem_buffer_size = 256 * 1024 * 1024"

definition memory_trial :: "nat \<times> nat \<Rightarrow> u64" where
  "memory_trial t = (case t of (iterations, ns) \<Rightarrow>
     f_to_word (f_div (f_mul (f_mul (f_of_nat iterations) (f_of_nat mem_buffer_size)) (Fin 2)) (as_secs_f64 ns)))"

definition median :: "u64 list \<Rightarrow> u64" where
  "median xs = sort xs ! (length xs div 2)"

text \<open>\<open>trial k\<close>: the copies made and the time taken in the \<open>k\<close>-th trial.\<close>

definition measure_memory_bandwidth :: "(nat \<Rightarrow> nat \<times> nat) \<Rightarrow> u64" where
  "measure_memory_bandwidth trial = median (map (\<lambda>k. memory_trial (trial k)) [0..<3])"

definition profile_memory :: "bool \<Rightarrow> u64 \<Rightarrow> u64 \<Rightarrow> u64 \<Rightarrow> (nat \<Rightarrow> nat \<times> nat) \<Rightarrow> memory_profile" where
  "profile_memory unified total_n avail free_n trial =
     \<lparr>mp_total_bytes = total_n, mp_available_bytes = (if 0 < avail then avail else free_n),
      mp_bandwidth_bytes_per_sec = measure_memory_bandwidth trial, mp_is_unified = unified\<rparr>"

section \<open>Storage\<close>

definition block_sizes :: "usize list" where
  "block_sizes = [4096, 65536, 131072, 1048576, 4194304]"

definition bench_file_size :: "u64 \<Rightarrow> usize" where
  "bench_file_size free_n = (if 5 * 2 ^ 30 < free_n then 2 ^ 30 else 256 * 2 ^ 20)"

text \<open>One pass over the file; \<open>pread\<close> returns the bytes of one call.\<close>

function read_pass :: "pread \<Rightarrow> nat \<Rightarrow> nat \<Rightarrow> nat \<Rightarrow> nat" where
  "read_pass pread block file_n total_read =
     (if total_read < file_n
      then case pread (min block (file_n - total_read)) total_read of
             None \<Rightarrow> total_read
           | Some bs \<Rightarrow> if bs = [] then total_read else read_pass pread block file_n (total_read + length bs)
      else total_read)"
  by pat_completeness auto

termination read_pass
proof (relation "measure (\<lambda>(_, _, n, rd). n - rd)", goal_cases)
  case (2 pread block n rd bs)
  from read_progress [OF 2(1) 2(3)] show ?case by (simp only: in_measure prod.case)
qed simp

declare read_pass.simps [simp del]

text \<open>A trial: whether opening the file or allocating the buffer failed, the reads, the time.\<close>

record seq_trial =
  tr_fails :: bool
  tr_pread :: pread
  tr_elapsed :: nat

definition trial_bandwidth :: "usize \<Rightarrow> usize \<Rightarrow> seq_trial \<Rightarrow> u64 option" where
  "trial_bandwidth file_n block tr =
     (let elapsed = as_secs_f64 (tr_elapsed tr)
      in if f_lt (Fin 0) elapsed
         then Some (f_to_word (f_div (f_of_nat (read_pass (tr_pread tr) (unat block) (unat file_n) 0)) elapsed))
         else None)"

definition block_bandwidths :: "usize \<Rightarrow> (usize \<Rightarrow> nat \<Rightarrow> seq_trial) \<Rightarrow> usize \<Rightarrow> u64 list option" where
  "block_bandwidths file_n env block =
     (let trials = map (env block) [0..<3]
      in if list_ex tr_fails trials then None else Some (List.map_filter (trial_bandwidth file_n block) trials))"

fun bench_blocks :: "usize \<Rightarrow> (usize \<Rightarrow> nat \<Rightarrow> seq_trial) \<Rightarrow> usize list \<Rightarrow> bandwidth_curve \<Rightarrow> bandwidth_curve option" where
  "bench_blocks file_n env [] c = Some c"
| "bench_blocks file_n env (b # bs) c =
     (if file_n < b then bench_blocks file_n env bs c
      else case block_bandwidths file_n env b of
        None \<Rightarrow> None
      | Some bws \<Rightarrow> bench_blocks file_n env bs
          (if bws = [] then c
           else \<lparr>bc_points = bc_points c @ [(b, median bws)], bc_peak_sequential = max (bc_peak_sequential c) (median bws)\<rparr>))"

definition benchmark_sequential :: "usize \<Rightarrow> (usize \<Rightarrow> nat \<Rightarrow> seq_trial) \<Rightarrow> bandwidth_curve option" where
  "benchmark_sequential file_n env = bench_blocks file_n env block_sizes \<lparr>bc_points = [], bc_peak_sequential = 0\<rparr>"

text \<open>The offsets of the random reads, from a linear congruential generator.\<close>

definition lcg_next :: "u64 \<Rightarrow> u64" where
  "lcg_next s = s * 6364136223846793005 + 1442695040888963407"

fun random_reads :: "nat \<Rightarrow> u64 \<Rightarrow> (u64 \<Rightarrow> bool) \<Rightarrow> u64 \<Rightarrow> u64 list" where
  "random_reads 0 max_offset ok s = []"
| "random_reads (Suc k) max_offset ok s =
     (let s' = lcg_next s; offset = (drop_bit 32 s' mod max_offset) * 4096
      in offset # (if ok offset then random_reads k max_offset ok s' else []))"

definition random_iops_reads :: nat where
  "random_iops_reads = 10000"

definition lcg_seed :: u64 where
  "lcg_seed = 0xDEADBEEFCAFEBABE"

text \<open>The remainder by a zero number of blocks panics.\<close>

definition random_offsets :: "usize \<Rightarrow> (u64 \<Rightarrow> bool) \<Rightarrow> u64 list outcome" where
  "random_offsets file_n ok =
     (if file_n div 4096 = 0 then Panic else Ret (random_reads random_iops_reads (file_n div 4096) ok lcg_seed))"

definition iops_of :: "nat \<Rightarrow> u64" where
  "iops_of ns = (if f_lt (Fin 0) (as_secs_f64 ns) then f_to_word (f_div (f_of_nat random_iops_reads) (as_secs_f64 ns)) else 0)"

definition benchmark_random_4k :: "usize \<Rightarrow> bool \<Rightarrow> (u64 \<Rightarrow> bool) \<Rightarrow> nat \<Rightarrow> u64 option outcome" where
  "benchmark_random_4k file_n fails ok ns =
     (if fails then Ret None else omap (\<lambda>_. Some (iops_of ns)) (random_offsets file_n ok))"

text \<open>A disk, with what the benchmark run on it meets.\<close>

record disk =
  dk_mount :: string
  dk_device :: string
  dk_total :: u64
  dk_free :: u64
  dk_setup_fails :: bool
  dk_trials :: "usize \<Rightarrow> nat \<Rightarrow> seq_trial"
  dk_random_fails :: bool
  dk_random_ok :: "u64 \<Rightarrow> bool"
  dk_random_ns :: nat

definition benchmark_storage :: "disk \<Rightarrow> (bandwidth_curve \<times> u64) option outcome" where
  "benchmark_storage d =
     (let file_n = bench_file_size (dk_free d)
      in if dk_setup_fails d then Ret None
         else case benchmark_sequential file_n (dk_trials d) of
           None \<Rightarrow> Ret None
         | Some curve \<Rightarrow> omap (map_option (Pair curve)) (benchmark_random_4k file_n (dk_random_fails d) (dk_random_ok d) (dk_random_ns d)))"

definition storage_profile_of :: "disk \<Rightarrow> bandwidth_curve \<Rightarrow> u64 \<Rightarrow> storage_profile" where
  "storage_profile_of d curve iops =
     \<lparr>sp_device_path = dk_device d, sp_mount_point = dk_mount d, sp_device_type = NvmePcie,
      sp_capacity_bytes = dk_total d, sp_free_bytes = dk_free d, sp_sequential_read = curve,
      sp_random_read_iops = iops, sp_pcie_gen = None, sp_wear_level = None\<rparr>"

text \<open>\<open>None\<close>: no disk could be benchmarked.\<close>

fun profile_storage :: "disk list \<Rightarrow> storage_profile list option outcome" where
  "profile_storage [] = Ret None"
| "profile_storage (d # ds) =
     (if dk_mount d \<noteq> ''/'' \<and> dk_mount d \<noteq> ''/System/Volumes/Data'' then profile_storage ds
      else obind (benchmark_storage d) (\<lambda>r. case r of
        None \<Rightarrow> profile_storage ds
      | Some (curve, iops) \<Rightarrow> Ret (Some [storage_profile_of d curve iops])))"

section \<open>The profile\<close>

record probe =
  pb_now :: string
  pb_os :: string
  pb_arch :: string
  pb_aarch64 :: bool
  pb_unified :: bool
  pb_sysctl :: sysctl
  pb_mem :: "u64 \<times> u64 \<times> u64"
  pb_mem_trials :: "nat \<Rightarrow> nat \<times> nat"
  pb_regs :: "backend_reg list"
  pb_disks :: "disk list"

definition run_full_profile :: "probe \<Rightarrow> hardware_profile option outcome" where
  "run_full_profile pb =
     (let sc = pb_sysctl pb; cpu = profile_cpu (pb_aarch64 pb) sc;
          memory = (case pb_mem pb of (total_n, avail, free_n) \<Rightarrow> profile_memory (pb_unified pb) total_n avail free_n (pb_mem_trials pb));
          gpu = profile_gpu (pb_regs pb)
      in omap (map_option (\<lambda>storage.
           \<lparr>hw_timestamp = pb_now pb,
            hw_system = \<lparr>si_os = pb_os pb @ '' '' @ unwrap_or (sc_os_version sc) ''unknown'', si_arch = pb_arch pb,
                         si_machine_model = unwrap_or (sc_model sc) ''Unknown'', si_total_cores = unwrap_or (sc_ncpu sc) 1\<rparr>,
            hw_memory = memory, hw_gpu = gpu, hw_storage = storage, hw_cpu = cpu\<rparr>))
         (profile_storage (pb_disks pb)))"

text \<open>Ages in milliseconds; \<open>num_days\<close> truncates to whole days.\<close>

definition num_days :: "int \<Rightarrow> int" where
  "num_days ms = (if 0 \<le> ms then ms div 86400000 else - ((- ms) div 86400000))"

definition is_profile_stale :: "int \<Rightarrow> int \<Rightarrow> bool" where
  "is_profile_stale now timestamp \<longleftrightarrow> 30 < num_days (now - timestamp)"

text \<open>What the commands do first: use the cached profile unless it is stale, else make and save a
  new one.  \<open>cached\<close> is \<open>None\<close> when the file cannot be read or parsed, \<open>Some None\<close> when there is
  none.\<close>

definition current_profile :: "int \<Rightarrow> (int \<times> hardware_profile) option option \<Rightarrow> bool \<Rightarrow> probe \<Rightarrow> hardware_profile option outcome" where
  "current_profile now cached saved pb = (case cached of
      None \<Rightarrow> Ret None
    | Some c \<Rightarrow>
        (let fresh = omap (\<lambda>r. if saved then r else None) (run_full_profile pb)
         in case c of
              Some (timestamp, p) \<Rightarrow> if \<not> is_profile_stale now timestamp then Ret (Some p) else fresh
            | None \<Rightarrow> fresh))"

section \<open>Looking up a processor\<close>

text \<open>In a list where no pattern occurs in a later one, the first pattern found in a name is the
  most specific one.\<close>

lemma find_specific:
  assumes "sorted_wrt (\<lambda>x y. \<not> str_contains (pat y) (pat x)) xs" "find (\<lambda>x. str_contains name (pat x)) xs = Some x"
    "y \<in> set xs" "str_contains name (pat y)" "str_contains (pat y) (pat x)"
  shows "y = x"
  using assms
proof (induction xs)
  case (Cons z zs)
  show ?case
  proof (cases "str_contains name (pat z)")
    case True
    with Cons.prems show ?thesis by auto
  next
    case False
    with Cons show ?thesis by auto
  qed
qed simp

lemma int8_ordered: "sorted_wrt (\<lambda>x y. \<not> str_contains (fst y) (fst x)) int8_specs"
  by code_simp

lemma as_pattern_spec: "as_pattern (spec p a b) = p"
  by (simp add: spec_def)

lemma same_patterns: "map as_pattern apple_silicon_specs = map fst int8_specs"
  by (simp only: apple_silicon_specs_def int8_specs_def list.map as_pattern_spec fst_conv)

lemma specs_ordered: "sorted_wrt (\<lambda>x y. \<not> str_contains (as_pattern y) (as_pattern x)) apple_silicon_specs"
proof -
  have "sorted_wrt (\<lambda>x y. \<not> str_contains y x) (map fst int8_specs)" unfolding sorted_wrt_map by (rule int8_ordered)
  then have "sorted_wrt (\<lambda>x y. \<not> str_contains y x) (map as_pattern apple_silicon_specs)" by (simp only: same_patterns)
  then show ?thesis unfolding sorted_wrt_map .
qed

lemma find_map: "find P (map f xs) = map_option f (find (\<lambda>x. P (f x)) xs)"
  by (induction xs) auto

section \<open>The median\<close>

lemma filter_length_sort: "length (filter P (sort xs)) = length (filter P xs)"
  by (metis mset_filter mset_sort size_mset)

lemma median_middle:
  assumes "xs \<noteq> []"
  shows "median xs \<in> set xs" "2 * length (filter (\<lambda>x. x < median xs) xs) \<le> length xs"
    "2 * length (filter (\<lambda>x. median xs < x) xs) \<le> length xs"
proof -
  let ?ys = "sort xs" and ?k = "length xs div 2"
  have k: "?k < length ?ys" using assms by simp
  then have "?ys ! ?k \<in> set ?ys" by (rule nth_mem)
  then show "median xs \<in> set xs" by (simp add: median_def)
  have split: "?ys = take ?k ?ys @ ?ys ! ?k # drop (Suc ?k) ?ys" using k by (rule id_take_nth_drop)
  have s: "sorted (take ?k ?ys @ ?ys ! ?k # drop (Suc ?k) ?ys)" using split by (metis sorted_sort)
  then have lo: "\<forall>x \<in> set (take ?k ?ys). x \<le> median xs" and hi: "\<forall>x \<in> set (drop (Suc ?k) ?ys). median xs \<le> x"
    by (auto simp: sorted_append median_def)
  have "length (filter (\<lambda>x. x < median xs) ?ys) \<le> length (take ?k ?ys)"
  proof -
    have "filter (\<lambda>x. x < median xs) (?ys ! ?k # drop (Suc ?k) ?ys) = []" using hi by (auto simp: filter_empty_conv median_def not_less)
    then have "filter (\<lambda>x. x < median xs) ?ys = filter (\<lambda>x. x < median xs) (take ?k ?ys)"
      by (subst split) (simp only: filter_append append_Nil2)
    then show ?thesis by (metis length_filter_le)
  qed
  then show "2 * length (filter (\<lambda>x. x < median xs) xs) \<le> length xs" by (simp add: filter_length_sort)
  have "length (filter (\<lambda>x. median xs < x) ?ys) \<le> length (drop (Suc ?k) ?ys)"
  proof -
    have "filter (\<lambda>x. median xs < x) (take ?k ?ys) = []" using lo by (auto simp: filter_empty_conv not_less)
    then have "filter (\<lambda>x. median xs < x) ?ys = filter (\<lambda>x. median xs < x) (drop (Suc ?k) ?ys)"
      by (subst split) (simp add: median_def)
    then show ?thesis by (metis length_filter_le)
  qed
  then show "2 * length (filter (\<lambda>x. median xs < x) xs) \<le> length xs" by (simp add: filter_length_sort)
qed

section \<open>The bandwidth curve\<close>

definition block_point :: "usize \<Rightarrow> (usize \<Rightarrow> nat \<Rightarrow> seq_trial) \<Rightarrow> usize \<Rightarrow> (u64 \<times> u64) option" where
  "block_point file_n env b = (if file_n < b then None
     else case block_bandwidths file_n env b of None \<Rightarrow> None
       | Some bws \<Rightarrow> if bws = [] then None else Some (b, median bws))"

lemma bench_blocks_points:
  "bench_blocks file_n env bs c = Some c' \<Longrightarrow>
     bc_points c' = bc_points c @ List.map_filter (block_point file_n env) bs \<and>
     bc_peak_sequential c' = fold max (map snd (List.map_filter (block_point file_n env) bs)) (bc_peak_sequential c)"
proof (induction bs arbitrary: c)
  case (Cons b bs)
  then show ?case
    by (auto simp: block_point_def List.map_filter_simps max.commute split: option.splits if_splits)
qed (simp add: List.map_filter_simps)

lemma fold_max_Max: "fold max xs (a :: u64) = Max (insert a (set xs))"
  using Max.set_eq_fold [of a xs] by simp

lemma block_point_Some:
  "block_point file_n env b = Some p \<Longrightarrow> \<exists>bws. block_bandwidths file_n env b = Some bws \<and> bws \<noteq> [] \<and> b \<le> file_n \<and> p = (b, median bws)"
  by (auto simp: block_point_def not_less split: if_splits option.splits)

lemma set_map_filter_ex: "p \<in> set (List.map_filter f xs) \<longleftrightarrow> (\<exists>x \<in> set xs. f x = Some p)"
  by (induction xs) (auto simp: List.map_filter_simps split: option.splits)

lemma fst_block_points: "sorted_wrt (<) bs \<Longrightarrow> sorted_wrt (<) (map fst (List.map_filter (block_point file_n env) bs))"
proof (induction bs)
  case (Cons b bs)
  have "b < fst p" if "p \<in> set (List.map_filter (block_point file_n env) bs)" for p
    using that Cons.prems by (auto simp: set_map_filter_ex dest!: block_point_Some)
  with Cons show ?case by (auto simp: List.map_filter_simps dest!: block_point_Some split: option.splits)
qed (simp add: List.map_filter_simps)

section \<open>Reads\<close>

text \<open>On a readable file that is long enough, a pass reads everything whatever the sizes of the
  single transfers.\<close>

lemma read_pass_complete:
  assumes "reads_file disk pread" "0 < block" "n \<le> length disk" "rd \<le> n"
  shows "read_pass pread block n rd = n"
  using assms(4)
proof (induction "n - rd" arbitrary: rd rule: less_induct)
  case less
  show ?case
  proof (cases "rd < n")
    case True
    then obtain bs where bs: "pread (min block (n - rd)) rd = Some bs" "bs \<noteq> []"
      using reads_fileD(2) [OF assms(1), of "min block (n - rd)" rd] assms(2,3) by auto
    then have "length bs \<le> n - rd" using reads_fileD(1) [OF assms(1)] by fastforce
    with less.hyps [of "rd + length bs"] read_progress [OF True bs(2)] True bs show ?thesis
      by (subst read_pass.simps) simp
  next
    case False
    with less.prems show ?thesis by (subst read_pass.simps) simp
  qed
qed

lemma random_read_in_file:
  assumes "off \<in> set (random_reads k m ok s)" "m \<noteq> 0" "m = n div 4096"
  shows "unat off mod 4096 = 0 \<and> unat off + 4096 \<le> unat (n :: u64)"
  using assms(1)
proof (induction k arbitrary: s)
  case (Suc k)
  let ?b = "drop_bit 32 (lcg_next s) mod m"
  show ?case
  proof (cases "off = ?b * 4096")
    case True
    have "unat ?b < unat m" using assms(2) by (simp add: unat_mod unat_gt_0)
    moreover have m: "unat m = unat n div 4096" using assms(3) by (simp add: unat_div)
    ultimately have "(unat ?b + 1) * 4096 \<le> unat n div 4096 * 4096" by simp
    also have "\<dots> \<le> unat n" by (rule div_times_less_eq_dividend)
    finally have b: "(unat ?b + 1) * 4096 \<le> unat n" .
    then have "unat ?b * 4096 < 2 ^ 64" using unsigned_less [of n, where ?'a = nat] by simp
    then have "unat off = unat ?b * 4096" unfolding True by (subst unat_mult_no_wrap) simp_all
    with b show ?thesis by simp
  next
    case False
    with Suc show ?thesis by (auto simp: Let_def split: if_splits)
  qed
qed simp

lemma nonempty_reads: "0 < k \<Longrightarrow> random_reads k m ok s \<noteq> []"
  by (cases k) (auto simp: Let_def)

lemma bench_file_size_blocks: "bench_file_size d div 4096 \<noteq> 0"
  by (simp add: bench_file_size_def)

lemma benchmark_random_total: "benchmark_random_4k (bench_file_size d) fails ok ns \<noteq> Panic"
  by (simp add: benchmark_random_4k_def random_offsets_def bench_file_size_blocks)

lemma benchmark_storage_total: "benchmark_storage d \<noteq> Panic"
  using benchmark_random_total [of "dk_free d" "dk_random_fails d" "dk_random_ok d" "dk_random_ns d"]
  by (cases "benchmark_random_4k (bench_file_size (dk_free d)) (dk_random_fails d) (dk_random_ok d) (dk_random_ns d)")
    (auto simp: benchmark_storage_def Let_def split: option.splits)

lemma profile_storage_total: "profile_storage ds \<noteq> Panic"
proof (induction ds)
  case (Cons d ds)
  obtain r where "benchmark_storage d = Ret r" using benchmark_storage_total by (cases "benchmark_storage d") auto
  with Cons show ?case by (auto split: option.splits)
qed simp

text \<open>The number of reads per second counts reads that did not happen.\<close>

lemma iops_ignores_failed_reads:
  "benchmark_random_4k n fails ok ns = benchmark_random_4k n fails (\<lambda>_. False) ns"
  by (simp add: benchmark_random_4k_def random_offsets_def)

text \<open>A profile becomes stale after 31 days, not 30.\<close>

lemma stale_iff: "is_profile_stale now timestamp \<longleftrightarrow> 31 * 86400000 \<le> now - timestamp"
proof -
  let ?x = "now - timestamp"
  show ?thesis
  proof (cases "0 \<le> ?x")
    case True
    have "30 < ?x div 86400000 \<longleftrightarrow> 31 * 86400000 \<le> ?x"
      using div_mult_mod_eq [of ?x 86400000] pos_mod_bound [of 86400000 ?x] pos_mod_sign [of 86400000 ?x] by linarith
    with True show ?thesis by (simp add: is_profile_stale_def num_days_def)
  next
    case False
    then have "0 \<le> (- ?x) div 86400000" by (simp add: pos_imp_zdiv_nonneg_iff)
    with False show ?thesis by (simp add: is_profile_stale_def num_days_def)
  qed
qed

section \<open>Properties\<close>

text \<open>The look-up tables are ordered specific-first: a name that contains some Apple pattern gets
  the entry of a pattern it contains, and no other pattern of the name contains that one
  (\<open>M2 Max\<close> is never taken for \<open>M2\<close>), in the table of graphics processors and in that of
  processors alike.\<close>

theorem lookup_most_specific:
  assumes "sp \<in> set apple_silicon_specs" "str_contains name (as_pattern sp)"
  shows "\<exists>best g. lookup_apple_silicon name = Some best \<and> str_contains name (as_pattern best) \<and>
    (str_contains (as_pattern sp) (as_pattern best) \<longrightarrow> sp = best) \<and>
    (as_pattern best, g) \<in> set int8_specs \<and> estimate_int8_gflops name = g"
proof -
  let ?P = "\<lambda>sp. str_contains name (as_pattern sp)"
  obtain best where best: "lookup_apple_silicon name = Some best"
    using assms by (cases "lookup_apple_silicon name") (auto simp: lookup_apple_silicon_def find_None_iff)
  then have b: "?P best" by (auto simp: lookup_apple_silicon_def find_Some_iff)
  have "map_option as_pattern (find ?P apple_silicon_specs) = find (str_contains name) (map as_pattern apple_silicon_specs)"
    by (simp add: find_map)
  also have "\<dots> = map_option fst (find (\<lambda>p. str_contains name (fst p)) int8_specs)"
    unfolding same_patterns by (simp add: find_map)
  finally obtain g where g: "find (\<lambda>(pattern, _). str_contains name pattern) int8_specs = Some (as_pattern best, g)"
    using best by (cases "find (\<lambda>p. str_contains name (fst p)) int8_specs") (auto simp: lookup_apple_silicon_def case_prod_unfold)
  then have "(as_pattern best, g) \<in> set int8_specs" by (metis find_Some_iff nth_mem)
  moreover have "str_contains (as_pattern sp) (as_pattern best) \<longrightarrow> sp = best"
    using find_specific [OF specs_ordered best [unfolded lookup_apple_silicon_def]] assms by blast
  ultimately show ?thesis using best b g by (simp add: estimate_int8_gflops_def)
qed

theorem lookup_most_specific_witness:
  "\<exists>best g. lookup_apple_silicon ''Apple M2 Max'' = Some best \<and> as_pattern best = ''M2 Max'' \<and> estimate_int8_gflops ''Apple M2 Max'' = g"
proof -
  let ?sp = "spec ''M2 Max'' 400 (136/10)"
  have "?sp \<in> set apple_silicon_specs" by (simp add: apple_silicon_specs_def)
  moreover have "str_contains ''Apple M2 Max'' (as_pattern ?sp)" unfolding as_pattern_spec by code_simp
  ultimately obtain best g where b: "lookup_apple_silicon ''Apple M2 Max'' = Some best" "estimate_int8_gflops ''Apple M2 Max'' = g"
    using lookup_most_specific by blast
  have "map_option as_pattern (lookup_apple_silicon ''Apple M2 Max'') = find (str_contains ''Apple M2 Max'') (map fst int8_specs)"
    unfolding lookup_apple_silicon_def same_patterns [symmetric] find_map by simp
  also have "\<dots> = Some ''M2 Max''" by code_simp
  finally show ?thesis using b by simp
qed

lemma benchmark_curve:
  assumes "benchmark_sequential file_n env = Some c"
  shows "bc_points c = List.map_filter (block_point file_n env) block_sizes"
    "bc_peak_sequential c = Max (insert 0 (snd ` set (bc_points c)))"
  using bench_blocks_points [OF assms [unfolded benchmark_sequential_def]] by (simp_all add: fold_max_Max)

text \<open>C37. The storage benchmark measures what it says: the block sizes of the curve increase and fit
  the file, every bandwidth was measured in one of the passes for its block size with at
  most half of them below and at most half above, and the peak is the largest of them.\<close>

theorem storage_curve_sound:
  assumes "benchmark_sequential file_n env = Some c"
  shows "sorted_wrt (<) (map fst (bc_points c)) \<and> bc_peak_sequential c = Max (insert 0 (snd ` set (bc_points c))) \<and>
    (\<forall>(b, bw) \<in> set (bc_points c). b \<in> set block_sizes \<and> b \<le> file_n \<and>
      (\<exists>bws. block_bandwidths file_n env b = Some bws \<and> bw \<in> set bws \<and>
        2 * length (filter (\<lambda>x. x < bw) bws) \<le> length bws \<and> 2 * length (filter (\<lambda>x. bw < x) bws) \<le> length bws))"
proof -
  have sorted: "sorted_wrt (<) block_sizes" by (simp add: block_sizes_def)
  have c: "bc_points c = List.map_filter (block_point file_n env) block_sizes" by (rule benchmark_curve(1) [OF assms])
  then have "sorted_wrt (<) (map fst (bc_points c))" using fst_block_points [OF sorted] by simp
  moreover have "bc_peak_sequential c = Max (insert 0 (snd ` set (bc_points c)))" by (rule benchmark_curve(2) [OF assms])
  moreover have "b \<in> set block_sizes \<and> b \<le> file_n \<and>
      (\<exists>bws. block_bandwidths file_n env b = Some bws \<and> bw \<in> set bws \<and>
        2 * length (filter (\<lambda>x. x < bw) bws) \<le> length bws \<and> 2 * length (filter (\<lambda>x. bw < x) bws) \<le> length bws)"
    if "(b, bw) \<in> set (bc_points c)" for b bw
  proof -
    from that c(1) obtain b' where "b' \<in> set block_sizes" "block_point file_n env b' = Some (b, bw)" by (auto simp: set_map_filter_ex)
    with block_point_Some [OF this(2)] median_middle show ?thesis by fastforce
  qed
  ultimately show ?thesis by blast
qed

definition demo_trials :: "usize \<Rightarrow> nat \<Rightarrow> seq_trial" where
  "demo_trials b k = \<lparr>tr_fails = False, tr_pread = pread4 (replicate 4096 0), tr_elapsed = Suc k * 1000000000\<rparr>"

lemma demo_trial: "trial_bandwidth 4096 4096 (demo_trials 4096 k) = (let e = as_secs_f64 (Suc k * 1000000000) in
    if f_lt (Fin 0) e then Some (f_to_word (f_div (f_of_nat 4096) e)) else None)"
proof -
  have "read_pass (pread4 (replicate 4096 0)) 4096 4096 0 = 4096"
    by (rule read_pass_complete [OF reads_file_pread4]) simp_all
  then show ?thesis by (simp add: trial_bandwidth_def demo_trials_def Let_def)
qed

lemma demo_bandwidths: "block_bandwidths 4096 demo_trials 4096 = Some [4096, 2048, 1365]"
proof -
  have "trial_bandwidth 4096 4096 (demo_trials 4096 0) = Some 4096" unfolding demo_trial by code_simp
  moreover have "trial_bandwidth 4096 4096 (demo_trials 4096 1) = Some 2048" unfolding demo_trial by code_simp
  moreover have "trial_bandwidth 4096 4096 (demo_trials 4096 2) = Some 1365" unfolding demo_trial by code_simp
  moreover have "\<not> tr_fails (demo_trials b k)" for b k by (simp add: demo_trials_def)
  moreover have "[0..<3] = [0, 1, 2 :: nat]" by (simp add: upt_rec)
  ultimately show ?thesis by (simp add: block_bandwidths_def List.map_filter_simps Let_def)
qed

lemma demo_curve: "benchmark_sequential 4096 demo_trials = Some \<lparr>bc_points = [(4096, 2048)], bc_peak_sequential = 2048\<rparr>"
  by (simp add: benchmark_sequential_def block_sizes_def demo_bandwidths median_def)

theorem storage_curve_sound_witness:
  "\<exists>c. benchmark_sequential 4096 demo_trials = Some c \<and> bc_points c = [(4096, 2048)] \<and>
     bc_peak_sequential c = Max (insert 0 (snd ` set (bc_points c)))"
  using storage_curve_sound [OF demo_curve] demo_curve by simp

text \<open>The random reads stay inside the benchmark file: for any free space on the disk the offsets are
  drawn without a panic, at least one and at most ten thousand of them, each a multiple of
  4096 with its whole block before the end of the file.\<close>

theorem random_reads_inside:
  "\<exists>offs. random_offsets (bench_file_size free_n) ok = Ret offs \<and> offs \<noteq> [] \<and> length offs \<le> 10000 \<and>
     (\<forall>off \<in> set offs. unat off mod 4096 = 0 \<and> unat off + 4096 \<le> unat (bench_file_size free_n))"
proof -
  let ?n = "bench_file_size free_n"
  let ?offs = "random_reads random_iops_reads (?n div 4096) ok lcg_seed"
  have "length (random_reads k m ok s) \<le> k" for k m s by (induction k arbitrary: s) (auto simp: Let_def)
  then have "length ?offs \<le> 10000" by (metis random_iops_reads_def)
  moreover have "?offs \<noteq> []" by (simp add: nonempty_reads random_iops_reads_def)
  moreover have "unat off mod 4096 = 0 \<and> unat off + 4096 \<le> unat ?n" if "off \<in> set ?offs" for off
    using random_read_in_file [OF that bench_file_size_blocks] by simp
  ultimately show ?thesis by (simp add: random_offsets_def bench_file_size_blocks)
qed

theorem random_reads_inside_witness:
  "\<exists>offs. random_offsets (256 * 2 ^ 20) (\<lambda>_. True) = Ret offs \<and> offs \<noteq> []"
  using random_reads_inside [of 0 "\<lambda>_. True"] by (auto simp: bench_file_size_def)

end
