(* ===== verification/Formats.thy ===== *)
theory Formats
  imports F64
begin

text \<open>
  Printed numbers and texts: \<open>format!\<close> with a precision or a width, \<open>str::trim\<close>, and the
  functions of \<open>cli/fmt_util.rs\<close>, \<open>cli/profile.rs\<close> and \<open>server/routes.rs\<close> that print sizes and
  rates.  The lemmas say how far a printed number is from the number and that trimming removes
  white space at the ends only.
\<close>

section \<open>Numbers\<close>

definition zero_pad :: "nat \<Rightarrow> nat \<Rightarrow> string" where
  "zero_pad k n = replicate (k - length (dec n)) (CHR ''0'') @ dec n"

text \<open>\<open>format!("\{x:.k\}")\<close>: the exact value to \<open>k\<close> places, halves to even.\<close>

fun fixed :: "nat \<Rightarrow> f64 \<Rightarrow> string" where
  "fixed k NaN = ''NaN''"
| "fixed k PosInf = ''inf''"
| "fixed k NegInf = ''-inf''"
| "fixed k (Fin r) =
     (let n = nat (rhe (\<bar>r\<bar> * 10 ^ k))
      in (if r < 0 then ''-'' else []) @ dec (n div 10 ^ k) @ (if k = 0 then [] else ''.'' @ zero_pad k (n mod 10 ^ k)))"

text \<open>Decimals of a signed 32-bit number.\<close>

definition dec_i32 :: "i32 \<Rightarrow> string" where
  "dec_i32 w = (if sint w < 0 then ''-'' @ dec (nat (- sint w)) else dec (nat (sint w)))"

definition dec_word :: "'a::len word \<Rightarrow> string" where
  "dec_word w = dec (unat w)"

definition binary_unit :: "u64 \<Rightarrow> nat \<Rightarrow> f64" where
  "binary_unit b e = f_div (f_of_word b) (Fin (2 ^ e))"

definition decimal_unit :: "u64 \<Rightarrow> nat \<Rightarrow> f64" where
  "decimal_unit b e = f_div (f_of_word b) (Fin (10 ^ e))"

definition format_bytes :: "u64 \<Rightarrow> string" where
  "format_bytes b =
     (if 2 ^ 30 \<le> unat b then fixed 1 (binary_unit b 30) @ '' GB''
      else if 2 ^ 20 \<le> unat b then fixed 1 (binary_unit b 20) @ '' MB''
      else if 2 ^ 10 \<le> unat b then fixed 1 (binary_unit b 10) @ '' KB''
      else dec_word b @ '' B'')"

definition format_params :: "u64 \<Rightarrow> string" where
  "format_params n =
     (if 10 ^ 9 \<le> unat n then fixed 1 (decimal_unit n 9) @ ''B''
      else if 10 ^ 6 \<le> unat n then fixed 1 (decimal_unit n 6) @ ''M''
      else dec_word n)"

definition format_parameter_size :: "u64 \<Rightarrow> string" where
  "format_parameter_size n =
     (if 10 ^ 9 \<le> unat n then fixed 1 (decimal_unit n 9) @ ''B''
      else if 10 ^ 6 \<le> unat n then fixed 0 (decimal_unit n 6) @ ''M''
      else dec_word n)"

definition format_bandwidth :: "u64 \<Rightarrow> string" where
  "format_bandwidth b =
     (if f_le (Fin 1) (decimal_unit b 9) then fixed 1 (decimal_unit b 9) @ '' GB/s''
      else fixed 0 (decimal_unit b 6) @ '' MB/s'')"

definition format_iops :: "u64 \<Rightarrow> string" where
  "format_iops n =
     (if 10 ^ 6 \<le> unat n then fixed 1 (decimal_unit n 6) @ ''M''
      else if 10 ^ 3 \<le> unat n then dec (unat n div 1000) @ '','' @ zero_pad 3 (unat n mod 1000)
      else dec_word n)"

section \<open>Texts\<close>

text \<open>The characters of a text are its bytes that do not continue a character; a width counts them.\<close>

definition char_count :: "string \<Rightarrow> nat" where
  "char_count s = length (filter (\<lambda>c. \<not> (128 \<le> (of_char c :: nat) \<and> (of_char c :: nat) < 192)) s)"

definition pad_left :: "nat \<Rightarrow> string \<Rightarrow> string" where
  "pad_left w s = replicate (w - char_count s) (CHR '' '') @ s"

definition pad_right :: "nat \<Rightarrow> string \<Rightarrow> string" where
  "pad_right w s = s @ replicate (w - char_count s) (CHR '' '')"

definition em_dash :: string where "em_dash = [CHR 0xE2, CHR 0x80, CHR 0x94]"

definition rule_line :: "nat \<Rightarrow> string" where
  "rule_line n = concat (replicate n [CHR 0xE2, CHR 0x94, CHR 0x80])"

text \<open>The characters with the Unicode property \<open>White_Space\<close>, encoded.\<close>

definition white_spaces :: "string list" where
  "white_spaces = map (\<lambda>c. [c]) [CHR 0x09, CHR 0x0A, CHR 0x0B, CHR 0x0C, CHR 0x0D, CHR 0x20]
     @ [[CHR 0xC2, CHR 0x85], [CHR 0xC2, CHR 0xA0], [CHR 0xE1, CHR 0x9A, CHR 0x80]]
     @ map (\<lambda>n. [CHR 0xE2, CHR 0x80, char_of n]) ([128..<139] @ [168, 169, 175 :: nat])
     @ [[CHR 0xE2, CHR 0x81, CHR 0x9F], [CHR 0xE3, CHR 0x80, CHR 0x80]]"

lemma white_space_nonempty: "w \<in> set white_spaces \<Longrightarrow> 0 < length w"
  by (auto simp: white_spaces_def)

function trim_start :: "string \<Rightarrow> string" where
  "trim_start s = (case find (\<lambda>w. prefix w s) white_spaces of
     None \<Rightarrow> s | Some w \<Rightarrow> trim_start (drop (length w) s))"
  by auto
termination
proof (relation "measure length")
  fix s w
  assume "find (\<lambda>w. prefix w s) white_spaces = Some w"
  then have "w \<in> set white_spaces" "prefix w s" by (auto simp: find_Some_iff)
  then show "(drop (length w) s, s) \<in> measure length"
    using white_space_nonempty [of w] by (auto simp: prefix_def)
qed simp

declare trim_start.simps [simp del]

function trim_end :: "string \<Rightarrow> string" where
  "trim_end s = (case find (\<lambda>w. suffix w s) white_spaces of
     None \<Rightarrow> s | Some w \<Rightarrow> trim_end (take (length s - length w) s))"
  by auto
termination
proof (relation "measure length")
  fix s w
  assume "find (\<lambda>w. suffix w s) white_spaces = Some w"
  then have "w \<in> set white_spaces" "suffix w s" by (auto simp: find_Some_iff)
  then show "(take (length s - length w) s, s) \<in> measure length"
    using white_space_nonempty [of w] by (auto simp: suffix_def)
qed simp

declare trim_end.simps [simp del]

definition trim :: "string \<Rightarrow> string" where
  "trim s = trim_end (trim_start s)"

text \<open>\<open>trim_end_matches\<close> with a text removes it as often as it ends what is left.\<close>

function trim_end_matches :: "string \<Rightarrow> string \<Rightarrow> string" where
  "trim_end_matches p s = (if p \<noteq> [] \<and> suffix p s then trim_end_matches p (take (length s - length p) s) else s)"
  by auto
termination by (relation "measure (\<lambda>(p, s). length s)") (auto simp: suffix_def)

declare trim_end_matches.simps [simp del]

definition replace_char :: "char \<Rightarrow> char \<Rightarrow> string \<Rightarrow> string" where
  "replace_char a b s = map (\<lambda>c. if c = a then b else c) s"

section \<open>Trimming\<close>

definition blank :: "string \<Rightarrow> bool" where
  "blank s \<longleftrightarrow> (\<exists>ws. set ws \<subseteq> set white_spaces \<and> s = concat ws)"

lemma blank_Nil [simp]: "blank []"
  by (auto simp: blank_def intro: exI [of _ "[]"])

lemma blank_Cons: "w \<in> set white_spaces \<Longrightarrow> blank s \<Longrightarrow> blank (w @ s)"
  unfolding blank_def by (metis concat.simps(2) insert_subset list.simps(15))

lemma blank_snoc: "w \<in> set white_spaces \<Longrightarrow> blank s \<Longrightarrow> blank (s @ w)"
proof -
  assume w: "w \<in> set white_spaces" and "blank s"
  then obtain ws where "set ws \<subseteq> set white_spaces" "s = concat ws" by (auto simp: blank_def)
  with w show ?thesis unfolding blank_def by (intro exI [of _ "ws @ [w]"]) simp
qed

lemma trim_start_split: "\<exists>b. blank b \<and> s = b @ trim_start s \<and> (\<forall>w \<in> set white_spaces. \<not> prefix w (trim_start s))"
proof (induction s rule: trim_start.induct)
  case (1 s)
  show ?case
  proof (cases "find (\<lambda>w. prefix w s) white_spaces")
    case None
    then have "trim_start s = s" by (subst trim_start.simps) simp
    with None show ?thesis by (metis append_Nil blank_Nil find_None_iff)
  next
    case (Some w)
    then have w: "w \<in> set white_spaces" "prefix w s" by (auto simp: find_Some_iff)
    from 1 [OF Some] obtain b where b: "blank b" "drop (length w) s = b @ trim_start (drop (length w) s)"
      "\<forall>v \<in> set white_spaces. \<not> prefix v (trim_start (drop (length w) s))" by blast
    have t: "trim_start s = trim_start (drop (length w) s)" by (subst trim_start.simps) (simp add: Some)
    have "s = w @ drop (length w) s" using w(2) by (auto simp: prefix_def)
    with b(2) have "s = (w @ b) @ trim_start s" unfolding t by simp
    then show ?thesis using b(3) blank_Cons [OF w(1) b(1)] unfolding t by blast
  qed
qed

lemma trim_end_split: "\<exists>b. blank b \<and> s = trim_end s @ b \<and> (\<forall>w \<in> set white_spaces. \<not> suffix w (trim_end s))"
proof (induction s rule: trim_end.induct)
  case (1 s)
  show ?case
  proof (cases "find (\<lambda>w. suffix w s) white_spaces")
    case None
    then have "trim_end s = s" by (subst trim_end.simps) simp
    with None show ?thesis by (metis append_Nil2 blank_Nil find_None_iff)
  next
    case (Some w)
    then have w: "w \<in> set white_spaces" "suffix w s" by (auto simp: find_Some_iff)
    let ?s = "take (length s - length w) s"
    from 1 [OF Some] obtain b where b: "blank b" "?s = trim_end ?s @ b"
      "\<forall>v \<in> set white_spaces. \<not> suffix v (trim_end ?s)" by blast
    have t: "trim_end s = trim_end ?s" by (subst trim_end.simps) (simp add: Some)
    have "s = ?s @ w" using w(2) by (auto simp: suffix_def)
    with b(2) have "s = trim_end s @ (b @ w)" unfolding t by (metis append.assoc)
    then show ?thesis using b(3) blank_snoc [OF w(1) b(1)] unfolding t by blast
  qed
qed

lemma trim_end_id: "\<forall>w \<in> set white_spaces. \<not> suffix w s \<Longrightarrow> trim_end s = s"
  by (subst trim_end.simps) (simp add: find_None_iff [THEN iffD2])

section \<open>Printed numbers\<close>

lemma length_dec_le: "n < 10 ^ k \<Longrightarrow> 0 < k \<Longrightarrow> length (dec n) \<le> k"
proof (induction n arbitrary: k rule: dec.induct)
  case (1 n)
  show ?case
  proof (cases "n < 10")
    case True
    with 1(3) show ?thesis by (subst dec.simps) simp
  next
    case False
    then obtain j where j: "k = Suc j" "0 < j" using 1(2,3) by (cases k; cases "k - 1") auto
    then have "n div 10 < 10 ^ j" using 1(2) by (simp add: less_mult_imp_div_less mult.commute)
    with 1(1) False j have "length (dec (n div 10)) \<le> j" by blast
    with False j show ?thesis by (subst dec.simps) simp
  qed
qed

lemma digits_val_zeros: "digits_val (replicate m (CHR ''0'') @ s) = digits_val s"
proof -
  have "foldl (\<lambda>n c. 10 * n + digit_val c) 0 (replicate m (CHR ''0'')) = 0"
    by (induction m) (simp_all add: digit_val_def)
  then show ?thesis by (simp add: digits_val_def)
qed

lemma zero_pad_spec: "n < 10 ^ k \<Longrightarrow> 0 < k \<Longrightarrow> length (zero_pad k n) = k \<and> digits_val (zero_pad k n) = n"
  using length_dec_le [of n k] by (simp add: zero_pad_def digits_val_zeros digits_val_dec)

lemma rhe_error: "\<bar>of_int (rhe x) - x\<bar> \<le> 1 / 2"
proof -
  have "of_int \<lfloor>x\<rfloor> \<le> x" "x < of_int \<lfloor>x\<rfloor> + 1" by linarith+
  then show ?thesis unfolding rhe_def Let_def by (auto simp: abs_le_iff)
qed

text \<open>A printed number, read back, is within half a unit of its last place.\<close>

lemma fixed_accurate:
  assumes "0 \<le> r"
  shows "\<exists>i f. fixed k (Fin r) = dec i @ (if k = 0 then [] else ''.'' @ f) \<and> (0 < k \<longrightarrow> length f = k) \<and>
    \<bar>of_nat i + of_nat (if k = 0 then 0 else digits_val f) / 10 ^ k - r\<bar> \<le> 1 / (2 * 10 ^ k)"
proof -
  let ?p = "10 ^ k :: nat"
  define n where "n = nat (rhe (r * 10 ^ k))"
  have "0 \<le> rhe (r * 10 ^ k)" using assms using rhe_le_iff(2) [of 0 "r * 10 ^ k"] by simp
  then have "\<bar>of_nat n - r * 10 ^ k\<bar> \<le> 1 / 2" using rhe_error [of "r * 10 ^ k"] by (simp add: n_def abs_minus_commute)
  moreover have "of_nat n - r * 10 ^ k = (of_nat n / 10 ^ k - r) * 10 ^ k" by (simp add: field_simps)
  ultimately have "\<bar>of_nat n / 10 ^ k - r\<bar> * 10 ^ k \<le> 1 / 2" by (simp add: abs_mult)
  then have err: "\<bar>of_nat n / 10 ^ k - r\<bar> \<le> 1 / (2 * 10 ^ k)" by (simp add: field_simps)
  have "(of_nat n :: rat) = of_nat (n div ?p) * of_nat ?p + of_nat (n mod ?p)"
    by (metis div_mult_mod_eq of_nat_add of_nat_mult)
  then have split: "(of_nat n :: rat) / 10 ^ k = of_nat (n div ?p) + of_nat (n mod ?p) / 10 ^ k"
    by (simp add: add_divide_distrib)
  have "0 < k \<Longrightarrow> length (zero_pad k (n mod ?p)) = k \<and> digits_val (zero_pad k (n mod ?p)) = n mod ?p"
    by (rule zero_pad_spec) simp_all
  with err show ?thesis using assms
    by (intro exI [of _ "n div ?p"] exI [of _ "zero_pad k (n mod ?p)"]) (auto simp: n_def [symmetric] split)
qed

end
