(* ===== verification/Iobench.thy ===== *)
theory Iobench
  imports Profiler Gguf Formats
begin

text \<open>
  Model of \<open>hypura iobench\<close> (\<open>src/cli/iobench.rs\<close>): the test region, the sequential and the
  scattered reads, the threads of the multi-threaded variants as an interleaving of their
  \<open>pread\<close> calls, and the diagnosis drawn from the throughputs.  \<open>pread\<close> and the elapsed times
  are arguments; cache hints and page advice do not change what is read and are left out.
\<close>

section \<open>The test region\<close>

definition io_block :: nat where
  "io_block = 4 * 1024 * 1024"

definition data_start_of :: "u64 \<Rightarrow> u64" where
  "data_start_of data_offset = and data_offset (not (4096 - 1))"

definition test_bytes_of :: "f64 \<Rightarrow> u64 \<Rightarrow> u64 \<Rightarrow> usize" where
  "test_bytes_of read_gb file_n data_offset =
     min (f_to_word (f_mul read_gb (Fin (2 ^ 30)))) (saturating_sub file_n (data_start_of data_offset))"

section \<open>Sequential reads\<close>

definition pread_full :: "pread \<Rightarrow> ptr \<Rightarrow> nat \<Rightarrow> u64 \<Rightarrow> mem \<Rightarrow> mem" where
  "pread_full pread dst n file_offset m = pread_loop pread dst n file_offset 0 m"

text \<open>Block after block, into consecutive places of the buffer (\<open>pread_sequential\<close>) or always
  into its beginning (variants A and B); the result is the number of bytes asked for.\<close>

function read_blocks :: "bool \<Rightarrow> pread \<Rightarrow> ptr \<Rightarrow> u64 \<Rightarrow> nat \<Rightarrow> nat \<Rightarrow> mem \<Rightarrow> nat \<times> mem" where
  "read_blocks advance pread buf file_start total_n offset m =
     (if offset < total_n
      then let chunk = min io_block (total_n - offset)
           in read_blocks advance pread buf file_start total_n (offset + chunk)
                (pread_full pread (if advance then ptr_add buf (of_nat offset) else buf) chunk (file_start + of_nat offset) m)
      else (offset, m))"
  by pat_completeness auto

termination
  by (relation "measure (\<lambda>(_, _, _, _, n, offset, _). n - offset)") (auto simp: io_block_def)

declare read_blocks.simps [simp del]

definition pread_sequential :: "pread \<Rightarrow> ptr \<Rightarrow> u64 \<Rightarrow> usize \<Rightarrow> mem \<Rightarrow> nat \<times> mem" where
  "pread_sequential pread buf file_start total_n m = read_blocks True pread buf file_start (unat total_n) 0 m"

definition throughput :: "nat \<Rightarrow> nat \<Rightarrow> f64" where
  "throughput n ns = f_div (f_of_nat n) (as_secs_f64 ns)"

definition test_sequential :: "pread \<Rightarrow> ptr \<Rightarrow> u64 \<Rightarrow> usize \<Rightarrow> nat \<Rightarrow> mem \<Rightarrow> f64 \<times> mem" where
  "test_sequential pread buf data_start test_bytes ns m =
     (case read_blocks False pread buf data_start (unat test_bytes) 0 m of (total_n, m') \<Rightarrow> (throughput total_n ns, m'))"

text \<open>Variant C: the buffer is read, then three times given back and read again.\<close>

fun reread_passes :: "pread \<Rightarrow> ptr \<Rightarrow> u64 \<Rightarrow> usize \<Rightarrow> nat list \<Rightarrow> mem \<Rightarrow> f64 list \<times> mem" where
  "reread_passes pread buf data_start test_bytes [] m = ([], m)"
| "reread_passes pread buf data_start test_bytes (ns # nss) m =
     (case pread_sequential pread buf data_start test_bytes (free_bytes buf (unat test_bytes) m) of
        (_, m1) \<Rightarrow> case reread_passes pread buf data_start test_bytes nss m1 of
          (bws, m2) \<Rightarrow> (throughput (unat test_bytes) ns # bws, m2))"

definition test_madvfree_cycle :: "pread \<Rightarrow> ptr \<Rightarrow> u64 \<Rightarrow> usize \<Rightarrow> (nat \<Rightarrow> nat) \<Rightarrow> mem \<Rightarrow> f64 list \<times> mem" where
  "test_madvfree_cycle pread buf data_start test_bytes ns m =
     reread_passes pread buf data_start test_bytes (map ns [0..<3])
       (snd (pread_sequential pread buf data_start test_bytes m))"

section \<open>Threads\<close>

definition chunk_per_thread :: "usize \<Rightarrow> usize \<Rightarrow> usize" where
  "chunk_per_thread test_bytes num_threads = (test_bytes + num_threads - 1) div num_threads"

definition start_off :: "usize \<Rightarrow> usize \<Rightarrow> nat \<Rightarrow> usize" where
  "start_off test_bytes num_threads i = of_nat i * chunk_per_thread test_bytes num_threads"

definition thread_bytes :: "usize \<Rightarrow> usize \<Rightarrow> nat \<Rightarrow> usize" where
  "thread_bytes test_bytes num_threads i =
     (let s = start_off test_bytes num_threads i
      in min (s + chunk_per_thread test_bytes num_threads) test_bytes - s)"

text \<open>A thread is at a block of its range and has read some bytes of the block.  One step is one
  call of \<open>pread\<close>, or the move to the next block, which an error or the end of the file causes
  as well.\<close>

type_synonym progress = "(nat \<times> nat) list"

inductive mt_step :: "u8 list \<Rightarrow> ptr \<Rightarrow> u64 \<Rightarrow> usize \<Rightarrow> usize \<Rightarrow> progress \<times> mem \<Rightarrow> progress \<times> mem \<Rightarrow> bool"
  for disk buf data_start test_bytes num_threads where
  call: "i < length ps \<Longrightarrow> ps ! i = (blk, rd) \<Longrightarrow> blk < unat (thread_bytes test_bytes num_threads i) \<Longrightarrow>
    chunk = min io_block (unat (thread_bytes test_bytes num_threads i) - blk) \<Longrightarrow> rd < chunk \<Longrightarrow> reads_file disk pread \<Longrightarrow>
    pread (chunk - rd) (unat (data_start + start_off test_bytes num_threads i + of_nat blk + of_nat rd)) = Some bs \<Longrightarrow> bs \<noteq> [] \<Longrightarrow>
    mt_step disk buf data_start test_bytes num_threads (ps, m)
      (ps[i := (blk, rd + length bs)], write_bytes (ptr_add buf (start_off test_bytes num_threads i + of_nat blk)) rd bs m)"
| stop: "i < length ps \<Longrightarrow> ps ! i = (blk, rd) \<Longrightarrow> blk < unat (thread_bytes test_bytes num_threads i) \<Longrightarrow>
    chunk = min io_block (unat (thread_bytes test_bytes num_threads i) - blk) \<Longrightarrow> rd < chunk \<Longrightarrow> reads_file disk pread \<Longrightarrow>
    pread (chunk - rd) (unat (data_start + start_off test_bytes num_threads i + of_nat blk + of_nat rd)) \<in> {None, Some []} \<Longrightarrow>
    mt_step disk buf data_start test_bytes num_threads (ps, m) (ps[i := (blk + chunk, 0)], m)"
| next_block: "i < length ps \<Longrightarrow> ps ! i = (blk, rd) \<Longrightarrow> blk < unat (thread_bytes test_bytes num_threads i) \<Longrightarrow>
    chunk = min io_block (unat (thread_bytes test_bytes num_threads i) - blk) \<Longrightarrow> chunk \<le> rd \<Longrightarrow>
    mt_step disk buf data_start test_bytes num_threads (ps, m) (ps[i := (blk + chunk, 0)], m)"

definition mt_start :: "usize \<Rightarrow> progress" where
  "mt_start num_threads = replicate (unat num_threads) (0, 0)"

definition mt_done :: "usize \<Rightarrow> usize \<Rightarrow> progress \<Rightarrow> bool" where
  "mt_done test_bytes num_threads ps \<longleftrightarrow>
     list_all (\<lambda>i. unat (thread_bytes test_bytes num_threads i) \<le> fst (ps ! i)) [0..<length ps]"

text \<open>The whole tests: variant A warms up with one block; a multi-threaded test is any run of the threads
  to their ends; with page release the buffer is filled and given back first.\<close>

definition test_raw_sequential :: "pread \<Rightarrow> ptr \<Rightarrow> u64 \<Rightarrow> usize \<Rightarrow> nat \<Rightarrow> mem \<Rightarrow> f64 \<times> mem" where
  "test_raw_sequential pread buf data_start test_bytes ns m =
     test_sequential pread buf data_start test_bytes ns
       (snd (pread_sequential pread buf data_start (min (of_nat io_block) test_bytes) m))"

inductive test_mt_nocache :: "u8 list \<Rightarrow> ptr \<Rightarrow> u64 \<Rightarrow> usize \<Rightarrow> usize \<Rightarrow> nat \<Rightarrow> mem \<Rightarrow> f64 \<times> mem \<Rightarrow> bool"
  for disk buf data_start test_bytes num_threads ns m where
  "(mt_step disk buf data_start test_bytes num_threads)\<^sup>*\<^sup>* (mt_start num_threads, m) (ps, m') \<Longrightarrow>
    mt_done test_bytes num_threads ps \<Longrightarrow>
    test_mt_nocache disk buf data_start test_bytes num_threads ns m (throughput (unat test_bytes) ns, m')"

inductive test_mt_madvfree :: "u8 list \<Rightarrow> ptr \<Rightarrow> u64 \<Rightarrow> usize \<Rightarrow> usize \<Rightarrow> nat \<Rightarrow> mem \<Rightarrow> f64 \<times> mem \<Rightarrow> bool"
  for disk buf data_start test_bytes num_threads ns m where
  "reads_file disk pread \<Longrightarrow>
    test_mt_nocache disk buf data_start test_bytes num_threads ns
      (free_bytes buf (unat test_bytes) (snd (pread_sequential pread buf data_start test_bytes m))) r \<Longrightarrow>
    test_mt_madvfree disk buf data_start test_bytes num_threads ns m r"

section \<open>Scattered reads\<close>

definition scatter_regions :: "gguf_file \<Rightarrow> (u64 \<times> usize) list" where
  "scatter_regions gguf = sort_by (\<lambda>a b. fst a \<le> fst b)
     (map (\<lambda>t. (gf_data_offset gguf + ti_offset t, ti_size_bytes t)) (gf_tensors gguf))"

fun scatter_loop :: "pread \<Rightarrow> ptr \<Rightarrow> usize \<Rightarrow> (u64 \<times> usize) list \<Rightarrow> usize \<Rightarrow> mem \<Rightarrow> usize \<times> mem" where
  "scatter_loop pread buf max_bytes [] total_n m = (total_n, m)"
| "scatter_loop pread buf max_bytes ((file_off, n) # rs) total_n m =
     (if max_bytes < total_n + n then (total_n, m)
      else let read_n = min n (of_nat io_block)
           in scatter_loop pread buf max_bytes rs (total_n + read_n) (pread_full pread buf (unat read_n) file_off m))"

definition test_scattered :: "pread \<Rightarrow> ptr \<Rightarrow> gguf_file \<Rightarrow> usize \<Rightarrow> nat \<Rightarrow> mem \<Rightarrow> f64 \<times> mem" where
  "test_scattered pread buf gguf max_bytes ns m =
     (case scatter_loop pread buf max_bytes (scatter_regions gguf) 0 m of (total_n, m') \<Rightarrow> (throughput (unat total_n) ns, m'))"

section \<open>Diagnosis\<close>

definition loss_pct :: "f64 \<Rightarrow> f64 \<Rightarrow> f64" where
  "loss_pct bw base = f_mul (f_sub (Fin 1) (f_div bw base)) (Fin 100)"

definition gain_pct :: "f64 \<Rightarrow> f64 \<Rightarrow> f64" where
  "gain_pct bw base = f_mul (f_sub (f_div bw base) (Fin 1)) (Fin 100)"

datatype diagnosis = MadvFreeBottleneck | NocacheBottleneck | ScatterCost | ThreadsHelp | ThreadsMinimal

definition diagnose :: "f64 \<Rightarrow> f64 \<Rightarrow> f64 \<Rightarrow> f64 \<Rightarrow> f64 \<Rightarrow> diagnosis list" where
  "diagnose bw_a bw_b bw_c0 bw_d4 bw_f =
     (if f_lt (Fin 30) (loss_pct bw_c0 bw_b) then [MadvFreeBottleneck] else []) @
     (if f_lt (Fin 20) (loss_pct bw_b bw_a) then [NocacheBottleneck] else []) @
     (if f_lt (Fin 30) (loss_pct bw_f bw_b) then [ScatterCost] else []) @
     [if f_lt (Fin 10) (gain_pct bw_d4 bw_b) then ThreadsHelp else ThreadsMinimal]"

text \<open>The printed report.  The throughputs are those of the variants A, B, the passes of C, D and E with
  two and four threads, and F.\<close>

record io_results =
  ir_a :: f64
  ir_b :: f64
  ir_c :: "f64 list"
  ir_d2 :: f64
  ir_d4 :: f64
  ir_e2 :: f64
  ir_e4 :: f64
  ir_f :: f64

definition giga :: "f64 \<Rightarrow> string" where
  "giga bw = fixed 2 (f_div bw (Fin (10 ^ 9)))"

definition result_line :: "f64 \<Rightarrow> string \<Rightarrow> f64 \<Rightarrow> string" where
  "result_line bw_a label bw =
     (let pct = f_mul (f_sub (f_div bw bw_a) (Fin 1)) (Fin 100)
      in ''  '' @ pad_right 42 label @ '' '' @ giga bw @ '' GB/s''
         @ (if f_lt pct (Fin (1/2)) \<and> f_lt (Fin (- 1/2)) pct then []
            else ''  ('' @ (if f_le (Fin 0) pct then ''+'' else []) @ fixed 1 pct @ ''%)''))"

definition signed_fixed :: "f64 \<Rightarrow> string" where
  "signed_fixed x = (if x = NaN \<or> f_lt x (Fin 0) then fixed 0 x else ''+'' @ fixed 0 x)"

text \<open>Indexing the first pass panics when there is none.\<close>

definition diagnosis_lines :: "io_results \<Rightarrow> string list outcome" where
  "diagnosis_lines r = omap (\<lambda>c0.
     let madvfree = loss_pct c0 (ir_b r); nocache = loss_pct (ir_b r) (ir_a r);
         scatter = loss_pct (ir_f r) (ir_b r); gain = gain_pct (ir_d4 r) (ir_b r)
     in map (\<lambda>d. case d of
          MadvFreeBottleneck \<Rightarrow> ''    >> MADV_FREE re-fault is a major bottleneck ('' @ fixed 0 madvfree @ ''% throughput loss)''
        | NocacheBottleneck \<Rightarrow> ''    >> F_NOCACHE is a significant bottleneck ('' @ fixed 0 nocache @ ''% throughput loss)''
        | ScatterCost \<Rightarrow> ''    >> Per-tensor scattered reads cost '' @ fixed 0 scatter @ ''% throughput vs sequential''
        | ThreadsHelp \<Rightarrow> ''    >> Multi-threading helps: +'' @ fixed 0 gain @ ''% with 4 threads''
        | ThreadsMinimal \<Rightarrow> ''    >> Multi-threading provides minimal benefit ('' @ signed_fixed gain @ ''%)'')
        (diagnose (ir_a r) (ir_b r) c0 (ir_d4 r) (ir_f r))) (at_index (ir_c r) 0)"

definition iobench_lines :: "io_results \<Rightarrow> string list outcome" where
  "iobench_lines r =
     (let fmt = result_line (ir_a r)
      in omap (\<lambda>diag.
        [''  Results:'', [], fmt ''A. Raw sequential pread (baseline)'' (ir_a r), fmt ''B. pread + F_NOCACHE'' (ir_b r), [],
         ''  C. F_NOCACHE + MADV_FREE cycle:''] @
        map2 (\<lambda>i bw. fmt (''     Pass '' @ dec (i + 1) @ '' (re-read after release)'') bw) [0..<length (ir_c r)] (ir_c r) @
        [[], fmt ''D. Multi-threaded F_NOCACHE (2 threads)'' (ir_d2 r), fmt ''   Multi-threaded F_NOCACHE (4 threads)'' (ir_d4 r), [],
         fmt ''E. MT + MADV_FREE (2 threads)'' (ir_e2 r), fmt ''   MT + MADV_FREE (4 threads)'' (ir_e4 r), [],
         fmt ''F. Scattered per-tensor reads'' (ir_f r), [], ''  Diagnosis:''] @ diag @ [[]]) (diagnosis_lines r))"

section \<open>Ranges of the threads\<close>

text \<open>The ranges tile the region when the last thread starts inside it.\<close>

definition ranges_ok :: "usize \<Rightarrow> usize \<Rightarrow> bool" where
  "ranges_ok n k \<longleftrightarrow> 0 < k \<and> unat n + unat k < 2 ^ 64 \<and> (unat k - 1) * unat (chunk_per_thread n k) \<le> unat n"

lemma chunk_ceil:
  assumes "ranges_ok n k"
  shows "unat (chunk_per_thread n k) = (unat n + unat k - 1) div unat k" "unat n \<le> unat k * unat (chunk_per_thread n k)"
proof -
  have k: "0 < unat k" "unat n + unat k < 2 ^ 64" using assms by (auto simp: ranges_ok_def unat_gt_0 word_neq_0_conv)
  have "unat (n + k - 1) = unat n + unat k - 1"
  proof -
    have "unat (n + k) = unat n + unat k" using k by (intro unat_plus_no_wrap) simp
    moreover have "1 \<le> n + k" using calculation k by (simp add: word_le_nat_alt)
    ultimately show ?thesis using unat_minus_no_wrap [of 1 "n + k"] by simp
  qed
  then show c: "unat (chunk_per_thread n k) = (unat n + unat k - 1) div unat k" by (simp add: chunk_per_thread_def unat_div)
  have "unat n + unat k - 1 < unat k * Suc ((unat n + unat k - 1) div unat k)"
    using dividend_less_times_div [OF k(1), of "unat n + unat k - 1"] by simp
  then show "unat n \<le> unat k * unat (chunk_per_thread n k)" unfolding c by simp
qed

lemma thread_range:
  assumes "ranges_ok n k" "i < unat k"
  shows "unat (start_off n k i) = i * unat (chunk_per_thread n k)"
    "unat (start_off n k i) + unat (thread_bytes n k i) = min (Suc i * unat (chunk_per_thread n k)) (unat n)"
proof -
  let ?c = "unat (chunk_per_thread n k)"
  have k: "(unat k - 1) * ?c \<le> unat n" "unat n + unat k < 2 ^ 64" using assms(1) by (auto simp: ranges_ok_def)
  have c: "?c \<le> unat n + unat k" unfolding chunk_ceil(1) [OF assms(1)] by (meson diff_le_self div_le_dividend le_trans)
  have ic: "i * ?c \<le> unat n" using mult_le_mono1 [of i "unat k - 1" ?c] assms(2) k(1) by linarith
  have i: "unat (of_nat i :: usize) = i" using assms(2) unsigned_less [of k, where ?'a = nat] by (simp add: unat_of_nat)
  show s: "unat (start_off n k i) = i * ?c"
    unfolding start_off_def using ic k(2) i by (subst unat_mult_no_wrap) simp_all
  have c': "i * ?c + ?c < 2 ^ 64"
  proof (cases "i = unat k - 1 \<and> unat n < i * ?c + ?c")
    case True
    have "unat k * ?c \<le> unat n + unat k - 1" unfolding chunk_ceil(1) [OF assms(1)] by (rule times_div_less_eq_dividend)
    moreover have "i * ?c + ?c = unat k * ?c" using True assms(2) by (metis Suc_pred' add.commute gr_implies_not0 mult_Suc neq0_conv)
    ultimately show ?thesis using k(2) by linarith
  next
    case False
    then show ?thesis
    proof (cases "i = unat k - 1")
      case True
      with False k(2) show ?thesis by simp
    next
      case ne: False
      then have "Suc i * ?c \<le> (unat k - 1) * ?c" using assms(2) by (intro mult_le_mono1) simp
      with k show ?thesis by simp
    qed
  qed
  have e: "unat (start_off n k i + chunk_per_thread n k) = i * ?c + ?c" using s c' by (subst unat_plus_no_wrap) simp_all
  have "start_off n k i \<le> min (start_off n k i + chunk_per_thread n k) n"
    using s e ic by (simp add: word_le_nat_alt)
  from unat_minus_no_wrap [OF this] have "unat (thread_bytes n k i) = min (i * ?c + ?c) (unat n) - i * ?c"
    by (simp add: thread_bytes_def Let_def unat_min e s)
  with s ic show "unat (start_off n k i) + unat (thread_bytes n k i) = min (Suc i * ?c) (unat n)" by simp
qed

text \<open>With more threads than the region can feed, a range underflows.\<close>

lemma thread_bytes_underflow: "thread_bytes 5 4 3 = - 1"
  by (simp add: thread_bytes_def start_off_def chunk_per_thread_def Let_def)

text \<open>Different threads stay apart, and together they cover the region.\<close>

lemma ranges_apart:
  assumes "ranges_ok n k" "i < unat k" "i' < unat k" "i \<noteq> i'" "x < unat (thread_bytes n k i)" "y < unat (thread_bytes n k i')"
  shows "unat (start_off n k i) + x \<noteq> unat (start_off n k i') + y"
proof -
  let ?c = "unat (chunk_per_thread n k)"
  have le: "u < v \<Longrightarrow> Suc u * ?c \<le> v * ?c" for u v by (rule mult_le_mono1) simp
  from assms(4) consider "i < i'" | "i' < i" by linarith
  then show ?thesis
    using thread_range [OF assms(1,2)] thread_range [OF assms(1,3)] assms(5,6) le [of i i'] le [of i' i] by cases linarith+
qed

lemma range_of:
  assumes "ranges_ok n k" "j < unat n"
  obtains i x where "i < unat k" "x < unat (thread_bytes n k i)" "j = unat (start_off n k i) + x"
proof -
  let ?c = "unat (chunk_per_thread n k)"
  have c: "0 < ?c" "j < unat k * ?c" using chunk_ceil(2) [OF assms(1)] assms(2) by (cases "?c = 0"; simp)+
  then have i: "j div ?c < unat k" by (simp add: div_less_iff_less_mult)
  have j: "j = j div ?c * ?c + j mod ?c" "j mod ?c < ?c" using c(1) by simp_all
  have "j < Suc (j div ?c) * ?c" using dividend_less_div_times [OF c(1)] by simp
  then have "j mod ?c < unat (thread_bytes n k (j div ?c))"
    using thread_range [OF assms(1) i] j assms(2) by linarith
  with that i j(1) thread_range(1) [OF assms(1) i] show ?thesis by metis
qed

lemma sum_ranges:
  assumes "ranges_ok n k" "t \<le> unat k"
  shows "(\<Sum>i < t. unat (thread_bytes n k i)) = min (t * unat (chunk_per_thread n k)) (unat n)"
  using assms(2)
proof (induction t)
  case (Suc t)
  let ?c = "unat (chunk_per_thread n k)"
  have "t * ?c \<le> unat n" using thread_range [OF assms(1), of t] Suc.prems by linarith
  with Suc thread_range [OF assms(1), of t] show ?case by simp
qed simp

section \<open>What the threads read\<close>

definition thread_ok :: "u8 list \<Rightarrow> nat \<Rightarrow> nat \<Rightarrow> u64 \<Rightarrow> usize \<Rightarrow> usize \<Rightarrow> nat \<Rightarrow> nat \<times> nat \<Rightarrow> mem \<Rightarrow> bool" where
  "thread_ok disk b a ds n k i p m \<longleftrightarrow> (case p of (blk, rd) \<Rightarrow>
     blk \<le> unat (thread_bytes n k i) \<and> rd \<le> min io_block (unat (thread_bytes n k i) - blk) \<and>
     (\<forall>x < blk + rd. m (b, a + (unat (start_off n k i) + x)) = Some (disk ! (unat ds + (unat (start_off n k i) + x)))))"

definition mt_inv :: "u8 list \<Rightarrow> nat \<Rightarrow> nat \<Rightarrow> u64 \<Rightarrow> usize \<Rightarrow> usize \<Rightarrow> mem \<Rightarrow> progress \<times> mem \<Rightarrow> bool" where
  "mt_inv disk b a ds n k m0 s \<longleftrightarrow> (case s of (ps, m) \<Rightarrow> length ps = unat k \<and>
     (\<forall>i < unat k. thread_ok disk b a ds n k i (ps ! i) m) \<and>
     (\<forall>y. (fst y = b \<and> a \<le> snd y \<and> snd y < a + unat n) \<or> m y = m0 y))"

definition thread_left :: "usize \<Rightarrow> usize \<Rightarrow> nat \<Rightarrow> nat \<times> nat \<Rightarrow> nat" where
  "thread_left n k i p = (case p of (blk, rd) \<Rightarrow> 2 * (unat (thread_bytes n k i) - (blk + rd)) + (if rd = 0 then 0 else 1))"

definition mt_left :: "usize \<Rightarrow> usize \<Rightarrow> progress \<Rightarrow> nat" where
  "mt_left n k ps = (\<Sum>i < unat k. thread_left n k i (ps ! i))"

text \<open>One thread moves: the others keep what they have.\<close>

lemma mt_inv_update:
  assumes "mt_inv disk b a ds n k m0 (ps, m)" "i < unat k"
    "thread_ok disk b a ds n k i p m'"
    "\<And>i' x. i' < unat k \<Longrightarrow> i' \<noteq> i \<Longrightarrow> x < unat (thread_bytes n k i') \<Longrightarrow>
       m' (b, a + (unat (start_off n k i') + x)) = m (b, a + (unat (start_off n k i') + x))"
    "\<And>y. \<not> (fst y = b \<and> a \<le> snd y \<and> snd y < a + unat n) \<Longrightarrow> m' y = m y"
  shows "mt_inv disk b a ds n k m0 (ps[i := p], m')"
proof -
  have "thread_ok disk b a ds n k i' (ps[i := p] ! i') m'" if i': "i' < unat k" for i'
  proof (cases "i' = i")
    case True
    with assms(1,2,3) show ?thesis by (simp add: mt_inv_def)
  next
    case False
    obtain blk rd where p: "ps ! i' = (blk, rd)" by (cases "ps ! i'")
    have all: "\<forall>i < unat k. thread_ok disk b a ds n k i (ps ! i) m" using assms(1) by (simp add: mt_inv_def)
    have ok: "thread_ok disk b a ds n k i' (blk, rd) m" using all i' p by metis
    then have "blk \<le> unat (thread_bytes n k i')" "rd \<le> unat (thread_bytes n k i') - blk" by (simp_all add: thread_ok_def)
    then have "x < unat (thread_bytes n k i')" if "x < blk + rd" for x using that by linarith
    then have "thread_ok disk b a ds n k i' (blk, rd) m'"
      using ok assms(4) [OF i' False] unfolding thread_ok_def prod.case by metis
    with p False show ?thesis by simp
  qed
  moreover have "\<forall>y. (fst y = b \<and> a \<le> snd y \<and> snd y < a + unat n) \<or> m y = m0 y" "length ps = unat k"
    using assms(1) by (simp_all add: mt_inv_def)
  moreover from this(1) have "\<forall>y. (fst y = b \<and> a \<le> snd y \<and> snd y < a + unat n) \<or> m' y = m0 y" using assms(5) by metis
  ultimately show ?thesis unfolding mt_inv_def by simp
qed

lemma mt_left_update:
  assumes "i < unat k" "length ps = unat k" "thread_left n k i p < thread_left n k i (ps ! i)"
  shows "mt_left n k (ps[i := p]) < mt_left n k ps"
  unfolding mt_left_def
proof (rule sum_strict_mono_ex1)
  show "\<forall>j \<in> {..<unat k}. thread_left n k j (ps[i := p] ! j) \<le> thread_left n k j (ps ! j)"
    using assms by (auto simp: nth_list_update)
  show "\<exists>j \<in> {..<unat k}. thread_left n k j (ps[i := p] ! j) < thread_left n k j (ps ! j)"
    using assms by (intro bexI [of _ i]) auto
qed simp

text \<open>The place and the file offset of a \<open>pread\<close> call of a thread.\<close>

lemma call_place:
  assumes "ranges_ok n k" "i < unat k" "blk + rd < unat (thread_bytes n k i)" "unat ds + unat n < 2 ^ 64"
  shows "unat (start_off n k i + of_nat blk) = unat (start_off n k i) + blk"
    "unat (ds + start_off n k i + of_nat blk + of_nat rd) = unat ds + (unat (start_off n k i) + (blk + rd))"
    "unat (start_off n k i) + (blk + rd) < unat n"
proof -
  show lt: "unat (start_off n k i) + (blk + rd) < unat n" using thread_range(2) [OF assms(1,2)] assms(3) by linarith
  have small: "unat (of_nat x :: 64 word) = x" if "x \<le> blk + rd" for x
    using that lt unsigned_less [of n, where ?'a = nat] by (simp add: unat_of_nat)
  show s: "unat (start_off n k i + of_nat blk) = unat (start_off n k i) + blk"
    using lt small [of blk] unsigned_less [of n, where ?'a = nat] by (subst unat_plus_no_wrap) simp_all
  have 1: "unat (ds + start_off n k i) = unat ds + unat (start_off n k i)"
    using lt assms(4) by (intro unat_plus_no_wrap) simp
  have 2: "unat (ds + start_off n k i + of_nat blk) = unat ds + unat (start_off n k i) + blk"
    using lt assms(4) small [of blk] 1 by (subst unat_plus_no_wrap) simp_all
  show "unat (ds + start_off n k i + of_nat blk + of_nat rd) = unat ds + (unat (start_off n k i) + (blk + rd))"
    using lt assms(4) small [of rd] 2 by (subst unat_plus_no_wrap) simp_all
qed

lemma mt_step_inv:
  assumes ok: "ranges_ok n k" and disk: "unat ds + unat n \<le> length disk" "unat ds + unat n < 2 ^ 64"
    and inv: "mt_inv disk b a ds n k m0 (ps, m)" and step: "mt_step disk (Ptr b a) ds n k (ps, m) (ps', m')"
  shows "mt_inv disk b a ds n k m0 (ps', m') \<and> mt_left n k ps' < mt_left n k ps"
proof -
  have len: "length ps = unat k" using inv by (simp add: mt_inv_def)
  have tok: "thread_ok disk b a ds n k i (blk, rd) m" if "i < length ps" "ps ! i = (blk, rd)" for i blk rd
  proof -
    have "\<forall>i < unat k. thread_ok disk b a ds n k i (ps ! i) m" using inv by (simp add: mt_inv_def)
    with that len show ?thesis by metis
  qed
  have move: ?thesis
    if "i < length ps" "ps ! i = (blk, rd)" "blk < unat (thread_bytes n k i)" "chunk = min io_block (unat (thread_bytes n k i) - blk)"
      "chunk \<le> rd" "ps' = ps[i := (blk + chunk, 0)]" "m' = m" for i blk rd chunk
  proof -
    have t: "rd = chunk" "0 < chunk" "blk + chunk \<le> unat (thread_bytes n k i)"
      using tok [OF that(1,2)] that(3-5) by (auto simp: thread_ok_def io_block_def)
    have "thread_ok disk b a ds n k i (blk + chunk, 0) m" using tok [OF that(1,2)] t by (simp add: thread_ok_def)
    then have "mt_inv disk b a ds n k m0 (ps', m')"
      unfolding that(6,7) using that(1) len by (intro mt_inv_update [OF inv]) auto
    moreover have "thread_left n k i (blk + chunk, 0) < thread_left n k i (ps ! i)"
      using t by (simp add: thread_left_def that(2))
    ultimately show ?thesis using mt_left_update len that(1,6) by simp
  qed
  show ?thesis
    using step
  proof cases
    case (call i blk rd chunk pread bs)
    have i: "i < unat k" using call(3) len by simp
    have lt: "blk + rd < unat (thread_bytes n k i)" using call(6,7) by (auto simp: less_diff_conv)
    note place = call_place [OF ok i lt disk(2)]
    let ?o = "unat (start_off n k i) + (blk + rd)"
    have bs: "length bs \<le> chunk - rd" "bs = take (length bs) (drop (unat ds + ?o) disk)"
      using reads_fileD(1) [OF call(8)] call(9) unfolding place(2) by blast+
    have m': "m' = write_bytes (Ptr b (a + (unat (start_off n k i) + blk))) rd bs m" using call(2) place(1) by simp
    have fit: "blk + (rd + length bs) \<le> unat (thread_bytes n k i)" "rd + length bs \<le> chunk" using bs(1) call(6,7) by auto
    have w: "m' y = (if fst y = b \<and> a + ?o \<le> snd y \<and> snd y < a + ?o + length bs then Some (bs ! (snd y - (a + ?o))) else m y)" for y
      unfolding m' by (cases y) (auto simp: add.assoc)
    have data: "m' (b, a + (unat (start_off n k i) + x)) = Some (disk ! (unat ds + (unat (start_off n k i) + x)))"
      if "x < blk + (rd + length bs)" for x
    proof (cases "x < blk + rd")
      case True
      with tok [OF call(3,4)] show ?thesis by (simp add: w thread_ok_def)
    next
      case False
      let ?j = "x - (blk + rd)"
      have j: "?j < length bs" "unat ds + ?o + ?j = unat ds + (unat (start_off n k i) + x)" using False that by auto
      have "bs ! ?j = take (length bs) (drop (unat ds + ?o) disk) ! ?j" using bs(2) by (rule arg_cong)
      also have "\<dots> = disk ! (unat ds + ?o + ?j)" using j(1) place(3) disk(1) by simp
      finally show ?thesis using False that by (simp add: w j(2))
    qed
    have "thread_ok disk b a ds n k i (blk, rd + length bs) m'"
      using tok [OF call(3,4)] fit call(6) data by (auto simp: thread_ok_def)
    moreover have "m' (b, a + (unat (start_off n k i') + x)) = m (b, a + (unat (start_off n k i') + x))"
      if "i' < unat k" "i' \<noteq> i" "x < unat (thread_bytes n k i')" for i' x
    proof -
      have "unat (start_off n k i') + x \<noteq> unat (start_off n k i) + z" if "z < unat (thread_bytes n k i)" for z
        using ranges_apart [OF ok \<open>i' < unat k\<close> i \<open>i' \<noteq> i\<close> \<open>x < unat (thread_bytes n k i')\<close> that] .
      note apart = this [of "unat (start_off n k i') + x - unat (start_off n k i)"]
      have "\<not> (?o \<le> unat (start_off n k i') + x \<and> unat (start_off n k i') + x < ?o + length bs)"
        using apart fit(1) by linarith
      then show ?thesis by (auto simp: w)
    qed
    moreover have "m' y = m y" if "\<not> (fst y = b \<and> a \<le> snd y \<and> snd y < a + unat n)" for y
    proof -
      have "?o + length bs \<le> unat n" using fit(1) thread_range(2) [OF ok i] by linarith
      with that show ?thesis by (auto simp: w)
    qed
    ultimately have "mt_inv disk b a ds n k m0 (ps', m')"
      unfolding call(1) by (intro mt_inv_update [OF inv i]) auto
    moreover have "thread_left n k i (blk, rd + length bs) < thread_left n k i (ps ! i)"
      using lt fit(1) call(10) by (cases bs) (auto simp: thread_left_def call(4))
    ultimately show ?thesis using mt_left_update [OF i len] call(1) by simp
  next
    case (stop i blk rd chunk pread)
    have i: "i < unat k" using stop(3) len by simp
    have lt: "blk + rd < unat (thread_bytes n k i)" using stop(6,7) by (auto simp: less_diff_conv)
    note place = call_place [OF ok i lt disk(2)]
    have "\<exists>bs. pread (chunk - rd) (unat (ds + start_off n k i + of_nat blk + of_nat rd)) = Some bs \<and> bs \<noteq> []"
      using reads_fileD(2) [OF stop(8)] place(2,3) disk(1) stop(7) by simp
    with stop(9) show ?thesis by auto
  next
    case (next_block i blk rd chunk)
    then show ?thesis using move by blast
  qed
qed

lemma mt_start_inv: "mt_inv disk b a ds n k m0 (mt_start k, m0)"
  by (simp add: mt_inv_def mt_start_def thread_ok_def)

lemma mt_start_left: "ranges_ok n k \<Longrightarrow> mt_left n k (mt_start k) = 2 * unat n"
proof -
  assume ok: "ranges_ok n k"
  have "mt_left n k (mt_start k) = 2 * (\<Sum>i < unat k. unat (thread_bytes n k i))"
    by (simp add: mt_left_def mt_start_def thread_left_def sum_distrib_left)
  then show ?thesis using sum_ranges [OF ok, of "unat k"] chunk_ceil(2) [OF ok] by simp
qed

lemma mt_run_inv:
  assumes "ranges_ok n k" "unat ds + unat n \<le> length disk" "unat ds + unat n < 2 ^ 64"
    "(mt_step disk (Ptr b a) ds n k ^^ t) (mt_start k, m0) s"
  shows "mt_inv disk b a ds n k m0 s \<and> t + mt_left n k (fst s) \<le> 2 * unat n"
  using assms(4)
proof (induction t arbitrary: s)
  case 0
  then show ?case using mt_start_inv mt_start_left [OF assms(1)] by auto
next
  case (Suc t)
  then obtain u where u: "(mt_step disk (Ptr b a) ds n k ^^ t) (mt_start k, m0) u" "mt_step disk (Ptr b a) ds n k u s" by auto
  obtain ps m ps' m' where p: "u = (ps, m)" "s = (ps', m')" by (cases u; cases s)
  from Suc.IH [OF u(1)] p mt_step_inv [OF assms(1-3), of b a m0 ps m ps' m'] u(2) show ?case by fastforce
qed

lemma mt_not_done_steps:
  assumes "ranges_ok n k" "unat ds + unat n \<le> length disk" "unat ds + unat n < 2 ^ 64"
    "mt_inv disk b a ds n k m0 (ps, m)" "\<not> mt_done n k ps"
  shows "\<exists>s. mt_step disk (Ptr b a) ds n k (ps, m) s"
proof -
  from assms(5) obtain i where i: "i < length ps" "fst (ps ! i) < unat (thread_bytes n k i)"
    by (auto simp: mt_done_def list_all_iff not_le)
  obtain blk rd where p: "ps ! i = (blk, rd)" by (cases "ps ! i")
  let ?chunk = "min io_block (unat (thread_bytes n k i) - blk)"
  show ?thesis
  proof (cases "rd < ?chunk")
    case True
    then have lt: "blk + rd < unat (thread_bytes n k i)" by auto
    have ik: "i < unat k" using i(1) assms(4) by (simp add: mt_inv_def)
    note place = call_place [OF assms(1) ik lt assms(3)]
    obtain bs where "pread4 disk (?chunk - rd) (unat (ds + start_off n k i + of_nat blk + of_nat rd)) = Some bs" "bs \<noteq> []"
      using reads_fileD(2) [OF reads_file_pread4, of "?chunk - rd" "unat (ds + start_off n k i + of_nat blk + of_nat rd)" disk]
        place(2,3) assms(2) True by auto
    from mt_step.call [OF i(1) p _ refl True reads_file_pread4 this] i(2) p show ?thesis by auto
  next
    case False
    then have "?chunk \<le> rd" by (simp only: not_less)
    from mt_step.next_block [OF i(1) p _ refl this] i(2) p show ?thesis by fastforce
  qed
qed

section \<open>Properties\<close>

lemma mt_done_reads:
  assumes "ranges_ok n k" "mt_inv disk b a ds n k m0 (ps, m)" "mt_done n k ps" "j < unat n"
  shows "m (b, a + j) = Some (disk ! (unat ds + j))"
proof -
  obtain i x where i: "i < unat k" "x < unat (thread_bytes n k i)" "j = unat (start_off n k i) + x"
    using range_of [OF assms(1,4)] .
  obtain blk rd where p: "ps ! i = (blk, rd)" by (cases "ps ! i")
  have len: "length ps = unat k" and all: "\<forall>i < unat k. thread_ok disk b a ds n k i (ps ! i) m"
    using assms(2) by (simp_all add: mt_inv_def)
  have "\<forall>i \<in> {0..<length ps}. unat (thread_bytes n k i) \<le> fst (ps ! i)" using assms(3) by (simp add: mt_done_def list_all_iff)
  from bspec [OF this, of i] i(1) len p have "unat (thread_bytes n k i) \<le> blk" by simp
  with i(2) have "x < blk + rd" by simp
  moreover have "thread_ok disk b a ds n k i (blk, rd) m" using all i(1) p by metis
  ultimately show ?thesis by (simp add: thread_ok_def i(3))
qed

text \<open>After a whole multi-threaded test the buffer holds the region.\<close>

lemma test_mt_reads:
  assumes "test_mt_nocache disk (Ptr b a) ds n k ns m0 (bw, m)" "ranges_ok n k" "unat ds + unat n \<le> length disk"
    "unat ds + unat n < 2 ^ 64" "j < unat n"
  shows "m (b, a + j) = Some (disk ! (unat ds + j))"
  using assms(1)
proof cases
  case (1 ps)
  then obtain t where "(mt_step disk (Ptr b a) ds n k ^^ t) (mt_start k, m0) (ps, m)" by (auto simp: rtranclp_power)
  then have "mt_inv disk b a ds n k m0 (ps, m)" using mt_run_inv [OF assms(2-4)] by blast
  then show ?thesis using 1 assms(2,5) by (intro mt_done_reads)
qed

lemma test_mt_madvfree_reads:
  assumes "test_mt_madvfree disk (Ptr b a) ds n k ns m0 (bw, m)" "ranges_ok n k" "unat ds + unat n \<le> length disk"
    "unat ds + unat n < 2 ^ 64" "j < unat n"
  shows "m (b, a + j) = Some (disk ! (unat ds + j))"
  using assms(1) by cases (use assms(2-5) test_mt_reads in blast)

text \<open>The report never panics: variant C makes three passes.\<close>

lemma three_passes: "length (fst (test_madvfree_cycle pread buf data_start test_bytes ns m)) = 3"
proof -
  have "length (fst (reread_passes pread buf data_start test_bytes nss m)) = length nss" for nss m
    by (induction nss arbitrary: m) (simp_all add: case_prod_beta)
  then show ?thesis by (simp add: test_madvfree_cycle_def)
qed

lemma report_total:
  assumes "ir_c r = fst (test_madvfree_cycle pread buf data_start test_bytes ns m)"
  shows "iobench_lines r \<noteq> Panic"
proof -
  have "at_index (ir_c r) 0 \<noteq> Panic" using three_passes [of pread buf data_start test_bytes ns m] by (simp add: at_index_def assms)
  then obtain c0 where "at_index (ir_c r) 0 = Ret c0" by (cases "at_index (ir_c r) 0") simp_all
  then show ?thesis by (simp only: iobench_lines_def diagnosis_lines_def Let_def omap.simps outcome.distinct not_False_eq_True)
qed

text \<open>C15. The multi-threaded benchmark reads what it reports: when the ranges of the threads are
  sound and the region lies in the file, then under every interleaving of the \<open>pread\<close> calls
  of the threads and every size of the single transfers, no byte outside the buffer is
  written, a thread can go on as long as some thread is not done, at most two steps per byte
  are taken, and when all are done the buffer holds the region of the file.\<close>

theorem multi_threaded_read_exact:
  assumes "ranges_ok n k" "unat ds + unat n \<le> length disk" "unat ds + unat n < 2 ^ 64"
    "(mt_step disk (Ptr b a) ds n k ^^ t) (mt_start k, m0) (ps, m)"
  shows "t \<le> 2 * unat n \<and> (\<forall>y. (fst y = b \<and> a \<le> snd y \<and> snd y < a + unat n) \<or> m y = m0 y) \<and>
    (if mt_done n k ps then \<forall>j < unat n. m (b, a + j) = Some (disk ! (unat ds + j))
     else \<exists>s. mt_step disk (Ptr b a) ds n k (ps, m) s)"
proof -
  have inv: "mt_inv disk b a ds n k m0 (ps, m)" and t: "t \<le> 2 * unat n" using mt_run_inv [OF assms] by auto
  have "m (b, a + j) = Some (disk ! (unat ds + j))" if "mt_done n k ps" "j < unat n" for j
    by (rule mt_done_reads [OF assms(1) inv that])
  moreover have "\<forall>y. (fst y = b \<and> a \<le> snd y \<and> snd y < a + unat n) \<or> m y = m0 y" using inv by (simp add: mt_inv_def)
  ultimately show ?thesis using t mt_not_done_steps [OF assms(1-3) inv] by simp
qed

definition demo_disk :: "u8 list" where
  "demo_disk = [1, 2, 3, 4, 5, 6, 7]"

lemma demo_ranges: "thread_bytes 5 2 0 = 3" "thread_bytes 5 2 (Suc 0) = 2" "start_off 5 2 0 = 0" "start_off 5 2 (Suc 0) = 3"
  by (simp_all add: thread_bytes_def start_off_def chunk_per_thread_def)

text \<open>The second thread overtakes the first.\<close>

lemma demo_call:
  assumes "i < length ps" "ps ! i = (0, 0)" "0 < unat (thread_bytes 5 2 i)" "unat (thread_bytes 5 2 i) = c" "c \<le> 4"
    "take c (drop (unat (1 + start_off 5 2 i)) demo_disk) = bs" "bs \<noteq> []" "qs = ps[i := (0, length bs)]"
  shows "\<exists>m'. mt_step demo_disk (Ptr 0 0) 1 5 2 (ps, m) (qs, m')"
proof -
  have "pread4 demo_disk (c - 0) (unat (1 + start_off 5 2 i + of_nat 0 + of_nat 0)) = Some bs"
    using assms(5,6) by (simp add: pread4_def min_absorb1)
  moreover have "c = min io_block (unat (thread_bytes 5 2 i) - 0)" "0 < c" using assms(3-5) by (simp_all add: io_block_def)
  ultimately have "mt_step demo_disk (Ptr 0 0) 1 5 2 (ps, m) (ps[i := (0, 0 + length bs)],
      write_bytes (ptr_add (Ptr 0 0) (start_off 5 2 i + of_nat 0)) 0 bs m)"
    using mt_step.call [OF assms(1,2,3) _ _ reads_file_pread4 _ assms(7)] by blast
  then show ?thesis unfolding assms(8) by (metis add_0)
qed

lemma demo_next:
  assumes "i < length ps" "ps ! i = (0, c)" "unat (thread_bytes 5 2 i) = c" "0 < c" "c \<le> 4" "qs = ps[i := (c, 0)]"
  shows "mt_step demo_disk (Ptr 0 0) 1 5 2 (ps, m) (qs, m)"
proof -
  have "c = min io_block (unat (thread_bytes 5 2 i) - 0)" "0 < unat (thread_bytes 5 2 i)" using assms(3-5) by (simp_all add: io_block_def)
  from mt_step.next_block [OF assms(1,2) this(2,1) order_refl] show ?thesis unfolding assms(6) add_0 .
qed

lemma demo_threads_run:
  "\<exists>m. (mt_step demo_disk (Ptr 0 0) 1 5 2 ^^ 4) (mt_start 2, \<lambda>_. None) ([(3, 0), (2, 0)], m)"
proof -
  let ?R = "mt_step demo_disk (Ptr 0 0) 1 5 2"
  have "\<exists>m'. ?R ([(0, 0), (0, 0)], \<lambda>_. None) ([(0, 0), (0, 2)], m')"
    by (rule demo_call [of "Suc 0" _ 2 "[5, 6]"]) (simp_all add: demo_ranges demo_disk_def)
  then obtain m1 where 1: "?R ([(0, 0), (0, 0)], \<lambda>_. None) ([(0, 0), (0, 2)], m1)" by blast
  have "\<exists>m'. ?R ([(0, 0), (0, 2)], m1) ([(0, 3), (0, 2)], m')"
    by (rule demo_call [of 0 _ 3 "[2, 3, 4]"]) (simp_all add: demo_ranges demo_disk_def)
  then obtain m2 where 2: "?R ([(0, 0), (0, 2)], m1) ([(0, 3), (0, 2)], m2)" by blast
  have 3: "?R ([(0, 3), (0, 2)], m2) ([(0, 3), (2, 0)], m2)"
    by (rule demo_next [of "Suc 0" _ 2]) (simp_all add: demo_ranges)
  have 4: "?R ([(0, 3), (2, 0)], m2) ([(3, 0), (2, 0)], m2)"
    by (rule demo_next [of 0 _ 3]) (simp_all add: demo_ranges)
  have "replicate 2 (0, 0) = [(0, 0), (0 :: nat, 0 :: nat)]" by code_simp
  then have s: "mt_start 2 = [(0, 0), (0, 0)]" by (simp add: mt_start_def)
  have "(?R ^^ (Suc (Suc (Suc (Suc 0))))) (mt_start 2, \<lambda>_. None) ([(3, 0), (2, 0)], m2)"
    unfolding s relpowp.simps using 1 2 3 4 by blast
  moreover have "Suc (Suc (Suc (Suc 0))) = 4" by simp
  ultimately show ?thesis by metis
qed

theorem multi_threaded_read_exact_witness:
  "\<exists>t ps m. (mt_step demo_disk (Ptr 0 0) 1 5 2 ^^ t) (mt_start 2, \<lambda>_. None) (ps, m) \<and> mt_done 5 2 ps \<and> m (0, 3) = Some 5"
proof -
  obtain m where r: "(mt_step demo_disk (Ptr 0 0) 1 5 2 ^^ 4) (mt_start 2, \<lambda>_. None) ([(3, 0), (2, 0)], m)" using demo_threads_run by blast
  have d: "mt_done 5 2 [(3, 0), (2, 0)]" by (simp add: mt_done_def demo_ranges upt_rec)
  have "ranges_ok 5 2" by (simp add: ranges_ok_def chunk_per_thread_def)
  from multi_threaded_read_exact [OF this _ _ r] d have "m (0, 3) = Some (demo_disk ! 4)" by (simp add: demo_disk_def)
  with r d show ?thesis by (auto simp: demo_disk_def)
qed

end
