(* ===== verification/Async_Reader.thy ===== *)
theory Async_Reader
  imports Io_Pool
begin

text \<open>
  Model of \<open>NvmePrefetcher\<close> (\<open>src/io/async_reader.rs\<close>) and of the buffers it reads into
  (\<open>src/io/aligned_buffer.rs\<close>): a background task that serves read requests from one channel
  and answers on another.  Consumer and task are interleaved in a step relation; the files,
  the allocator and the clock are arguments of its steps.
\<close>

section \<open>Requests and results\<close>

record read_request =
  rr_offset :: u64
  rr_length :: usize
  rr_tag :: string

record read_stats =
  rs_bytes_read :: u64
  rs_duration_us :: u64
  rs_throughput_mbps :: f64

text \<open>A byte of a fresh allocation is unspecified (\<open>None\<close>).\<close>

type_synonym aligned_buffer = "u8 option list"

record read_result =
  rs_request :: read_request
  rs_data :: aligned_buffer
  rs_stats :: read_stats

definition buffer_new :: "bool \<Rightarrow> nat \<Rightarrow> aligned_buffer option" where
  "buffer_new memalign_ok n = (if n = 0 then Some [] else if \<not> memalign_ok then None else Some (replicate n None))"

definition buffer_write :: "nat \<Rightarrow> u8 list \<Rightarrow> aligned_buffer \<Rightarrow> aligned_buffer" where
  "buffer_write off bs buf = take off buf @ map Some bs @ drop (off + length bs) buf"

function read_into :: "pread \<Rightarrow> u64 \<Rightarrow> nat \<Rightarrow> nat \<Rightarrow> aligned_buffer \<Rightarrow> nat \<times> aligned_buffer" where
  "read_into pread offset to_read total_read buf =
     (if total_read < to_read
      then case pread (to_read - total_read) (unat (offset + of_nat total_read)) of
             None \<Rightarrow> (total_read, buf)
           | Some bs \<Rightarrow> if bs = [] then (total_read, buf)
                        else read_into pread offset to_read (total_read + length bs) (buffer_write total_read bs buf)
      else (total_read, buf))"
  by pat_completeness auto

termination read_into
proof (relation "measure (\<lambda>(_, _, n, rd, _). n - rd)", goal_cases)
  case (2 pread offset n rd buf bs)
  from read_progress [OF 2(1) 2(3)] show ?case by (simp only: in_measure prod.case)
qed simp

declare read_into.simps [simp del]

definition read_stats_of :: "nat \<Rightarrow> nat \<Rightarrow> read_stats" where
  "read_stats_of total_read ns =
     (let duration_us = of_nat (ns div 1000) :: u64
      in \<lparr>rs_bytes_read = of_nat total_read, rs_duration_us = duration_us,
          rs_throughput_mbps = (if 0 < duration_us then f_div (f_div (f_of_nat total_read) (as_secs_f64 ns)) (Fin 1000000) else Fin 0)\<rparr>)"

definition serve_request :: "usize \<Rightarrow> bool \<Rightarrow> pread \<Rightarrow> nat \<Rightarrow> read_request \<Rightarrow> read_result option" where
  "serve_request buffer_size memalign_ok pread ns req =
     map_option (\<lambda>buf. case read_into pread (rr_offset req) (unat (rr_length req)) 0 buf of
         (total_read, data) \<Rightarrow> \<lparr>rs_request = req, rs_data = data, rs_stats = read_stats_of total_read ns\<rparr>)
       (buffer_new memalign_ok (unat (max buffer_size (rr_length req))))"

section \<open>The prefetcher\<close>

datatype task = Opening | Serving | Stopped

text \<open>\<open>pf_submitted\<close>, \<open>pf_dropped\<close> and \<open>pf_received\<close> record what the consumer has sent, what was given
  up for want of memory, and what the consumer has got.\<close>

record prefetcher =
  pf_task :: task
  pf_requests :: "read_request list"
  pf_results :: "read_result list"
  pf_alive :: bool
  pf_submitted :: "read_request list"
  pf_dropped :: "read_request list"
  pf_received :: "read_result list"

definition pf_open :: prefetcher where
  "pf_open = \<lparr>pf_task = Opening, pf_requests = [], pf_results = [], pf_alive = True,
     pf_submitted = [], pf_dropped = [], pf_received = []\<rparr>"

text \<open>Sending fails once the task has stopped.\<close>

definition submit :: "read_request \<Rightarrow> prefetcher \<Rightarrow> prefetcher option" where
  "submit req s = (if pf_task s = Stopped then None
     else Some (s\<lparr>pf_requests := pf_requests s @ [req], pf_submitted := pf_submitted s @ [req]\<rparr>))"

inductive pf_step :: "u8 list \<Rightarrow> usize \<Rightarrow> prefetcher \<Rightarrow> prefetcher \<Rightarrow> bool" for disk buffer_size where
  send: "pf_alive s \<Longrightarrow> submit req s = Some s' \<Longrightarrow> pf_step disk buffer_size s s'"
| opened: "pf_task s = Opening \<Longrightarrow> pf_step disk buffer_size s (s\<lparr>pf_task := Serving\<rparr>)"
| open_fails: "pf_task s = Opening \<Longrightarrow> pf_step disk buffer_size s (s\<lparr>pf_task := Stopped\<rparr>)"
| serve: "pf_task s = Serving \<Longrightarrow> pf_requests s = req # reqs \<Longrightarrow> reads_file disk pread \<Longrightarrow>
    serve_request buffer_size ok pread ns req = Some res \<Longrightarrow> pf_alive s \<Longrightarrow>
    pf_step disk buffer_size s (s\<lparr>pf_requests := reqs, pf_results := pf_results s @ [res]\<rparr>)"
| serve_gone: "pf_task s = Serving \<Longrightarrow> pf_requests s = req # reqs \<Longrightarrow> \<not> pf_alive s \<Longrightarrow>
    pf_step disk buffer_size s (s\<lparr>pf_requests := reqs, pf_task := Stopped\<rparr>)"
| no_memory: "pf_task s = Serving \<Longrightarrow> pf_requests s = req # reqs \<Longrightarrow>
    serve_request buffer_size False pread ns req = None \<Longrightarrow>
    pf_step disk buffer_size s (s\<lparr>pf_requests := reqs, pf_dropped := pf_dropped s @ [req]\<rparr>)"
| closed: "pf_task s = Serving \<Longrightarrow> pf_requests s = [] \<Longrightarrow> \<not> pf_alive s \<Longrightarrow> pf_step disk buffer_size s (s\<lparr>pf_task := Stopped\<rparr>)"
| receive: "pf_alive s \<Longrightarrow> pf_results s = res # ress \<Longrightarrow>
    pf_step disk buffer_size s (s\<lparr>pf_results := ress, pf_received := pf_received s @ [res]\<rparr>)"
| leave: "pf_alive s \<Longrightarrow> pf_step disk buffer_size s (s\<lparr>pf_alive := False\<rparr>)"

section \<open>Reading into a buffer\<close>

lemma buffer_write_length: "off + length bs \<le> length buf \<Longrightarrow> length (buffer_write off bs buf) = length buf"
  by (simp add: buffer_write_def)

lemma buffer_write_nth:
  "off + length bs \<le> length buf \<Longrightarrow> i < length buf \<Longrightarrow>
     buffer_write off bs buf ! i = (if off \<le> i \<and> i < off + length bs then Some (bs ! (i - off)) else buf ! i)"
  by (auto simp: buffer_write_def nth_append min_def)

lemma read_into_exact:
  assumes "reads_file disk pread" "unat off + n \<le> length disk" "unat off + n < 2 ^ 64" "rd \<le> n" "n \<le> length buf"
    "\<forall>i < rd. buf ! i = Some (disk ! (unat off + i))"
  shows "\<exists>data. read_into pread off n rd buf = (n, data) \<and> length data = length buf \<and>
    (\<forall>i < n. data ! i = Some (disk ! (unat off + i))) \<and> (\<forall>i. n \<le> i \<and> i < length buf \<longrightarrow> data ! i = buf ! i)"
  using assms(4-6)
proof (induction "n - rd" arbitrary: rd buf rule: less_induct)
  case less
  show ?case
  proof (cases "rd < n")
    case True
    have o: "unat (off + of_nat rd) = unat off + rd"
      using True assms(3) by (subst unat_plus_no_wrap) (simp_all add: unat_of_nat)
    have lt: "unat off + rd < length disk" using True assms(2) by simp
    then obtain bs where bs: "pread (n - rd) (unat off + rd) = Some bs" "bs \<noteq> []"
      using True reads_fileD(2) [OF assms(1), of "n - rd" "unat off + rd"] by auto
    then have len: "length bs \<le> n - rd" and cont: "bs = take (length bs) (drop (unat off + rd) disk)"
      using reads_fileD(1) [OF assms(1)] by blast+
    let ?buf = "buffer_write rd bs buf"
    have fit: "rd + length bs \<le> n" "rd + length bs \<le> length buf" using len True less.prems(2) by auto
    have "?buf ! i = Some (disk ! (unat off + i))" if i: "i < rd + length bs" for i
    proof (cases "rd \<le> i")
      case True
      with i have j: "i - rd < length bs" "unat off + rd + (i - rd) = unat off + i" by auto
      have "bs ! (i - rd) = take (length bs) (drop (unat off + rd) disk) ! (i - rd)" using cont by (rule arg_cong)
      also have "\<dots> = disk ! (unat off + rd + (i - rd))" using j(1) lt by simp
      finally show ?thesis using i True fit by (simp add: buffer_write_nth j(2))
    next
      case False
      with i fit less.prems show ?thesis by (simp add: buffer_write_nth)
    qed
    with less.hyps [of "rd + length bs" ?buf] read_progress [OF True bs(2)] fit less.prems(2)
    obtain data where d: "read_into pread off n (rd + length bs) ?buf = (n, data)" "length data = length buf"
      "\<forall>i < n. data ! i = Some (disk ! (unat off + i))" "\<forall>i. n \<le> i \<and> i < length buf \<longrightarrow> data ! i = ?buf ! i"
      by (auto simp: buffer_write_length)
    moreover have "read_into pread off n rd buf = read_into pread off n (rd + length bs) ?buf"
      using True bs by (subst read_into.simps) (simp add: o)
    moreover have "\<forall>i. n \<le> i \<and> i < length buf \<longrightarrow> ?buf ! i = buf ! i" using fit by (simp add: buffer_write_nth)
    ultimately show ?thesis by auto
  next
    case False
    with less.prems show ?thesis by (subst read_into.simps) auto
  qed
qed

text \<open>A result is right when its request lies in the file: all bytes asked for are those of the
  file, and the rest of the buffer is what the allocator left there.\<close>

definition result_ok :: "u8 list \<Rightarrow> read_result \<Rightarrow> bool" where
  "result_ok disk res \<longleftrightarrow> (let off = unat (rr_offset (rs_request res)); n = unat (rr_length (rs_request res)) in
     off + n \<le> length disk \<and> off + n < 2 ^ 64 \<longrightarrow>
       unat (rs_bytes_read (rs_stats res)) = n \<and> n \<le> length (rs_data res) \<and>
       (\<forall>i < length (rs_data res). rs_data res ! i = (if i < n then Some (disk ! (off + i)) else None)))"

lemma serve_request_ok:
  assumes "reads_file disk pread" "serve_request buffer_size ok pread ns req = Some res"
  shows "rs_request res = req \<and> result_ok disk res"
proof -
  let ?n = "unat (rr_length req)"
  from assms(2) obtain buf where buf: "buffer_new ok (unat (max buffer_size (rr_length req))) = Some buf" and
    res: "res = (case read_into pread (rr_offset req) ?n 0 buf of
         (total_read, data) \<Rightarrow> \<lparr>rs_request = req, rs_data = data, rs_stats = read_stats_of total_read ns\<rparr>)"
    by (auto simp: serve_request_def)
  have b: "?n \<le> length buf" "buf = replicate (length buf) None" using buf by (auto simp: buffer_new_def unat_max split: if_splits)
  have "result_ok disk res" if "unat (rr_offset req) + ?n \<le> length disk" "unat (rr_offset req) + ?n < 2 ^ 64"
  proof -
    from read_into_exact [OF assms(1) that le0 b(1)] obtain data where
      d: "read_into pread (rr_offset req) ?n 0 buf = (?n, data)" "length data = length buf"
        "\<forall>i < ?n. data ! i = Some (disk ! (unat (rr_offset req) + i))" "\<forall>i. ?n \<le> i \<and> i < length buf \<longrightarrow> data ! i = buf ! i"
      by auto
    moreover have "buf ! i = None" if "i < length buf" for i using b(2) that by (metis nth_replicate)
    ultimately show ?thesis using b(1) res by (simp add: result_ok_def read_stats_of_def Let_def)
  qed
  moreover have "rs_request res = req" using res by (simp split: prod.splits)
  ultimately show ?thesis by (auto simp: result_ok_def Let_def)
qed

section \<open>Order\<close>

text \<open>What has left the request channel was answered or given up; the answers keep the order.\<close>

definition pf_inv :: "u8 list \<Rightarrow> prefetcher \<Rightarrow> bool" where
  "pf_inv disk s \<longleftrightarrow> list_all (result_ok disk) (pf_received s @ pf_results s) \<and>
     (pf_alive s \<longrightarrow> (\<exists>served. pf_submitted s = served @ pf_requests s \<and>
        subseq (map rs_request (pf_received s @ pf_results s)) served \<and>
        length served = length (pf_received s @ pf_results s) + length (pf_dropped s)))"

lemma pf_step_inv:
  assumes "pf_step disk buffer_size s s'" "pf_inv disk s"
  shows "pf_inv disk s'"
  using assms(1)
proof cases
  case (send req)
  then show ?thesis using assms(2) by (auto simp: pf_inv_def submit_def split: if_splits)
next
  case (serve req reqs pread ok ns res)
  from assms(2) serve(6) obtain served where served: "pf_submitted s = served @ pf_requests s"
    "subseq (map rs_request (pf_received s @ pf_results s)) served"
    "length served = length (pf_received s @ pf_results s) + length (pf_dropped s)" by (auto simp: pf_inv_def)
  note r = serve_request_ok [OF serve(4,5)]
  have "subseq (map rs_request (pf_received s @ pf_results s) @ [req]) (served @ [req])"
    using served(2) by (rule list_emb_append_mono) simp
  moreover have "pf_submitted s = (served @ [req]) @ reqs" using served(1) serve(3) by simp
  ultimately have "\<exists>served. pf_submitted s = served @ reqs \<and>
      subseq (map rs_request (pf_received s @ pf_results s @ [res])) served \<and>
      length served = length (pf_received s @ pf_results s @ [res]) + length (pf_dropped s)"
    using r served(3) by (intro exI [of _ "served @ [req]"]) simp
  then show ?thesis using assms(2) r unfolding serve(1) pf_inv_def by simp
next
  case (no_memory req reqs pread ns)
  show ?thesis
  proof (cases "pf_alive s")
    case True
    with assms(2) obtain served where served: "pf_submitted s = served @ pf_requests s"
      "subseq (map rs_request (pf_received s @ pf_results s)) served"
      "length served = length (pf_received s @ pf_results s) + length (pf_dropped s)" by (auto simp: pf_inv_def)
    have "subseq (map rs_request (pf_received s @ pf_results s)) (served @ [req])" using served(2) by (simp add: subseq_rev_drop_many)
    then have "\<exists>served. pf_submitted s = served @ reqs \<and> subseq (map rs_request (pf_received s @ pf_results s)) served \<and>
        length served = length (pf_received s @ pf_results s) + length (pf_dropped s @ [req])"
      using served(1,3) no_memory(3) by (intro exI [of _ "served @ [req]"]) simp
    then show ?thesis using assms(2) unfolding no_memory(1) pf_inv_def by simp
  next
    case False
    then show ?thesis using assms(2) unfolding no_memory(1) pf_inv_def by simp
  qed
qed (use assms(2) in \<open>auto simp: pf_inv_def\<close>)

lemma pf_reachable_inv: "(pf_step disk buffer_size)\<^sup>*\<^sup>* pf_open s \<Longrightarrow> pf_inv disk s"
proof (induction rule: rtranclp_induct)
  case base
  show ?case by (simp add: pf_inv_def pf_open_def)
next
  case (step t u)
  then show ?case using pf_step_inv by blast
qed

text \<open>A request that finds no memory is never answered: the consumer that waits for it waits forever.\<close>

lemma dropped_request_unanswered:
  assumes "pf_task s = Serving" "pf_requests s = [req]" "pf_results s = []" "0 < unat (max buffer_size (rr_length req))"
  shows "\<exists>s'. pf_step disk buffer_size s s' \<and> pf_requests s' = [] \<and> pf_results s' = [] \<and> pf_received s' = pf_received s"
proof -
  have "serve_request buffer_size False pread ns req = None" for pread ns using assms(4) by (simp add: serve_request_def buffer_new_def)
  note step = pf_step.no_memory [OF assms(1,2) this]
  show ?thesis by (rule exI, rule conjI [OF step]) (simp add: assms(3))
qed

section \<open>Properties\<close>

text \<open>C17. The background reader answers in order and exactly: as long as the consumer is there, the
  results it has got are, in order, results of requests it has sent, each request inside
  the file was read completely and its buffer holds the bytes of the file; and unless memory
  ran out, they answer the first requests with none left out.\<close>

theorem prefetcher_in_order:
  assumes "(pf_step disk buffer_size)\<^sup>*\<^sup>* pf_open s" "pf_alive s"
  shows "list_all (result_ok disk) (pf_received s) \<and> subseq (map rs_request (pf_received s)) (pf_submitted s) \<and>
    (pf_dropped s = [] \<longrightarrow> prefix (map rs_request (pf_received s)) (pf_submitted s))"
proof -
  from pf_reachable_inv [OF assms(1)] assms(2) obtain served where
    ok: "list_all (result_ok disk) (pf_received s @ pf_results s)" and served: "pf_submitted s = served @ pf_requests s"
    "subseq (map rs_request (pf_received s @ pf_results s)) served"
    "length served = length (pf_received s @ pf_results s) + length (pf_dropped s)" by (auto simp: pf_inv_def)
  have "subseq (map rs_request (pf_received s)) (map rs_request (pf_received s @ pf_results s))" by (rule prefix_imp_subseq) simp
  then have "subseq (map rs_request (pf_received s)) (served @ pf_requests s)"
    using served(2) by (intro subseq_rev_drop_many) (rule subseq_order.trans)
  moreover have "map rs_request (pf_received s @ pf_results s) = served" if "pf_dropped s = []"
    using served(2,3) that by (intro subseq_same_length) simp_all
  then have "prefix (map rs_request (pf_received s)) (served @ pf_requests s)" if "pf_dropped s = []"
    using that by (metis map_append append.assoc prefixI)
  ultimately show ?thesis using ok served(1) by simp
qed

definition demo_req :: read_request where
  "demo_req = \<lparr>rr_offset = 1, rr_length = 2, rr_tag = ''a''\<rparr>"

lemma demo_serve: "map_option rs_data (serve_request 4 True (pread4 [7, 8, 9]) 1000 demo_req) = Some [Some 8, Some 9, None, None]"
  by code_simp

theorem prefetcher_in_order_witness:
  "\<exists>s. (pf_step [7, 8, 9] 4)\<^sup>*\<^sup>* pf_open s \<and> pf_alive s \<and> map rs_data (pf_received s) = [[Some 8, Some 9, None, None]] \<and>
     prefix (map rs_request (pf_received s)) (pf_submitted s)"
proof -
  obtain res where res: "serve_request 4 True (pread4 [7, 8, 9]) 1000 demo_req = Some res" "rs_data res = [Some 8, Some 9, None, None]"
    using demo_serve by auto
  let ?s1 = "pf_open\<lparr>pf_requests := [demo_req], pf_submitted := [demo_req]\<rparr>"
  let ?s2 = "?s1\<lparr>pf_task := Serving\<rparr>"
  let ?s3 = "?s2\<lparr>pf_requests := [], pf_results := [res]\<rparr>"
  let ?s4 = "?s3\<lparr>pf_results := [], pf_received := [res]\<rparr>"
  let ?R = "pf_step [7, 8, 9] 4"
  have 1: "?R pf_open ?s1" by (rule pf_step.send [of _ demo_req]) (simp_all add: pf_open_def submit_def)
  have 2: "?R ?s1 ?s2" by (rule pf_step.opened) (simp add: pf_open_def)
  have "?R ?s2 (?s2\<lparr>pf_requests := [], pf_results := pf_results ?s2 @ [res]\<rparr>)"
    by (rule pf_step.serve [OF _ _ reads_file_pread4 res(1)]) (simp_all add: pf_open_def)
  then have 3: "?R ?s2 ?s3" by (simp add: pf_open_def)
  have "?R ?s3 (?s3\<lparr>pf_results := [], pf_received := pf_received ?s3 @ [res]\<rparr>)"
    by (rule pf_step.receive) (simp_all add: pf_open_def)
  then have 4: "?R ?s3 ?s4" by (simp add: pf_open_def)
  have r: "?R\<^sup>*\<^sup>* pf_open ?s4" using 1 2 3 4 by (meson converse_rtranclp_into_rtranclp rtranclp.rtrancl_refl)
  have a: "pf_alive ?s4" "pf_dropped ?s4 = []" by (simp_all add: pf_open_def)
  from prefetcher_in_order [OF r a(1)] r a res(2) show ?thesis by (intro exI [of _ ?s4]) simp
qed

end
