(* ===== verification/Trace_Summary.thy ===== *)
theory Trace_Summary
  imports Prefetch_State
begin

text \<open>
  Model of \<open>print_trace_summary\<close> (\<open>src/compute/nvme_backend.rs\<close>): the totals over the trace of a
  run, the shares of the wall time, and the detail of the first tokens.  The text printed
  around the numbers is left out.
\<close>

section \<open>Totals\<close>

record trace_totals =
  tt_stall_ms :: f64
  tt_decode_ms :: f64
  tt_stall_count :: u32
  tt_hit_count :: u32
  tt_io_bytes :: u64
  tt_io_ms :: f64
  tt_decode_count :: u32
  tt_release_count :: u32

definition no_totals :: trace_totals where
  "no_totals = \<lparr>tt_stall_ms = Fin 0, tt_decode_ms = Fin 0, tt_stall_count = 0, tt_hit_count = 0, tt_io_bytes = 0,
     tt_io_ms = Fin 0, tt_decode_count = 0, tt_release_count = 0\<rparr>"

fun count_event :: "trace_event \<Rightarrow> trace_totals \<Rightarrow> trace_totals" where
  "count_event (LayerHit _) t = t\<lparr>tt_hit_count := tt_hit_count t + 1\<rparr>"
| "count_event (LayerStall _ wait_ms) t =
     t\<lparr>tt_stall_count := tt_stall_count t + 1, tt_stall_ms := f_add (tt_stall_ms t) wait_ms\<rparr>"
| "count_event (LoadComplete _ bytes_n io_ms) t =
     t\<lparr>tt_io_bytes := tt_io_bytes t + bytes_n, tt_io_ms := f_add (tt_io_ms t) io_ms\<rparr>"
| "count_event (Released _) t = t\<lparr>tt_release_count := tt_release_count t + 1\<rparr>"
| "count_event (DecodeComplete decode_ms) t =
     t\<lparr>tt_decode_count := tt_decode_count t + 1, tt_decode_ms := f_add (tt_decode_ms t) decode_ms\<rparr>"

definition totals_of :: "(f64 \<times> trace_event) list \<Rightarrow> trace_totals" where
  "totals_of events = fold (\<lambda>e. count_event (snd e)) events no_totals"

record trace_shares =
  sh_wall_ms :: f64
  sh_dead_ms :: f64
  sh_effective_bw :: f64
  sh_avg_stall :: "f64 option"
  sh_stall_pct :: f64
  sh_decode_pct :: f64
  sh_dead_pct :: f64

definition pct_of :: "f64 \<Rightarrow> f64 \<Rightarrow> f64" where
  "pct_of wall x = (if f_lt (Fin 0) wall then f_mul (f_div x wall) (Fin 100) else Fin 0)"

definition shares_of :: "(f64 \<times> trace_event) list \<Rightarrow> trace_shares" where
  "shares_of events =
     (let t = totals_of events; wall = (if events = [] then Fin 0 else fst (last events));
          dead = f_max (f_sub wall (f_add (tt_stall_ms t) (tt_decode_ms t))) (Fin 0)
      in \<lparr>sh_wall_ms = wall, sh_dead_ms = dead,
          sh_effective_bw = (if f_lt (Fin 0) (tt_io_ms t)
            then f_div (f_div (f_of_word (tt_io_bytes t)) (f_div (tt_io_ms t) (Fin 1000))) (Fin 1000000000) else Fin 0),
          sh_avg_stall = (if 0 < tt_stall_count t then Some (f_div (tt_stall_ms t) (f_of_word (tt_stall_count t))) else None),
          sh_stall_pct = pct_of wall (tt_stall_ms t), sh_decode_pct = pct_of wall (tt_decode_ms t), sh_dead_pct = pct_of wall dead\<rparr>)"

section \<open>Tokens\<close>

fun is_decode :: "trace_event \<Rightarrow> bool" where
  "is_decode (DecodeComplete _) = True"
| "is_decode _ = False"

fun split_tokens :: "(f64 \<times> trace_event) list \<Rightarrow> (f64 \<times> trace_event) list \<Rightarrow> (f64 \<times> trace_event) list list" where
  "split_tokens current [] = []"
| "split_tokens current (e # es) =
     (if is_decode (snd e) then (current @ [e]) # split_tokens [] es else split_tokens (current @ [e]) es)"

record token_detail =
  td_stalls :: "(u32 \<times> f64) list"
  td_hits :: nat
  td_decode :: f64
  td_stall_total :: f64

definition detail_of :: "(f64 \<times> trace_event) list \<Rightarrow> token_detail" where
  "detail_of tok =
     (let stalls = List.map_filter (\<lambda>(_, e). case e of LayerStall l ms \<Rightarrow> Some (l, ms) | _ \<Rightarrow> None) tok;
          decode = List.map_filter (\<lambda>(_, e). case e of DecodeComplete ms \<Rightarrow> Some ms | _ \<Rightarrow> None) tok
      in \<lparr>td_stalls = stalls,
          td_hits = length (filter (\<lambda>(_, e). case e of LayerHit _ \<Rightarrow> True | _ \<Rightarrow> False) tok),
          td_decode = (case decode of [] \<Rightarrow> Fin 0 | ms # _ \<Rightarrow> ms),
          td_stall_total = f_sum (map snd stalls)\<rparr>)"

text \<open>Each stall of the first token, with the bytes of its layer and the bandwidth they came at.\<close>

definition stall_lines :: "prefetch_config \<Rightarrow> token_detail \<Rightarrow> (u32 \<times> f64 \<times> u64 \<times> f64) list" where
  "stall_lines cfg td = map (\<lambda>(l, wait_ms).
     (let layer_bytes = (case hm_get (pc_layer_regions cfg) l of None \<Rightarrow> 0 | Some r \<Rightarrow> sum_list (map (\<lambda>x. fst (snd x)) r))
      in (l, wait_ms, layer_bytes, if f_lt (Fin 0) wait_ms
            then f_div (f_div (f_of_word layer_bytes) (f_div wait_ms (Fin 1000))) (Fin 1000000000) else Fin 0))) (td_stalls td)"

record trace_report =
  re_totals :: trace_totals
  re_shares :: trace_shares
  re_tokens :: "token_detail list"
  re_first_stalls :: "(u32 \<times> f64 \<times> u64 \<times> f64) list"

text \<open>\<open>None\<close>: an empty trace prints nothing.\<close>

definition trace_summary :: "prefetch_config \<Rightarrow> prefetch_state \<Rightarrow> trace_report option" where
  "trace_summary cfg s =
     (let events = ps_trace s; toks = map detail_of (take 3 (split_tokens [] events))
      in if events = [] then None
         else Some \<lparr>re_totals = totals_of events, re_shares = shares_of events, re_tokens = toks,
                    re_first_stalls = (case toks of [] \<Rightarrow> [] | td # _ \<Rightarrow> stall_lines cfg td)\<rparr>)"

section \<open>What the counts mean\<close>

lemma count_event_decode: "tt_decode_count (count_event e t) = tt_decode_count t + (if is_decode e then 1 else 0)"
  by (cases e) simp_all

lemma totals_decode: "tt_decode_count (fold (\<lambda>e. count_event (snd e)) es t) = tt_decode_count t + of_nat (length (filter (\<lambda>e. is_decode (snd e)) es))"
  by (induction es arbitrary: t) (simp_all add: count_event_decode)

lemma split_tokens_count: "length (split_tokens current es) = length (filter (\<lambda>e. is_decode (snd e)) es)"
  by (induction es arbitrary: current) simp_all

lemma split_tokens_concat:
  "\<exists>rest. current @ es = concat (split_tokens current es) @ rest \<and> (\<forall>e \<in> set rest. e \<in> set current \<or> \<not> is_decode (snd e))"
proof (induction es arbitrary: current)
  case (Cons e es)
  show ?case
  proof (cases "is_decode (snd e)")
    case True
    from Cons.IH [of "[]"] obtain rest where "es = concat (split_tokens [] es) @ rest" "\<forall>e \<in> set rest. \<not> is_decode (snd e)" by auto
    with True show ?thesis by (intro exI [of _ rest]) simp
  next
    case False
    from Cons.IH [of "current @ [e]"] obtain rest where "(current @ [e]) @ es = concat (split_tokens (current @ [e]) es) @ rest"
      "\<forall>x \<in> set rest. x \<in> set (current @ [e]) \<or> \<not> is_decode (snd x)" by blast
    with False show ?thesis by (intro exI [of _ rest]) auto
  qed
qed simp

lemma split_tokens_ends:
  "tok \<in> set (split_tokens current es) \<Longrightarrow> \<forall>e \<in> set current. \<not> is_decode (snd e) \<Longrightarrow>
     \<exists>es' t ms. tok = es' @ [(t, DecodeComplete ms)] \<and> (\<forall>e \<in> set es'. \<not> is_decode (snd e))"
proof (induction es arbitrary: current)
  case (Cons e es)
  show ?case
  proof (cases "is_decode (snd e)")
    case True
    then obtain t ms where e: "e = (t, DecodeComplete ms)" by (cases e; cases "snd e") auto
    show ?thesis
    proof (cases "tok = current @ [e]")
      case new: True
      with e Cons.prems(2) show ?thesis by blast
    next
      case False
      with True Cons.prems(1) have "tok \<in> set (split_tokens [] es)" by simp
      then show ?thesis by (rule Cons.IH) simp
    qed
  next
    case False
    with Cons.prems show ?thesis by (intro Cons.IH [of "current @ [e]"]) auto
  qed
qed simp

lemma decode_only_last:
  assumes "\<forall>e \<in> set es. \<not> is_decode (snd e)"
  shows "td_decode (detail_of (es @ [(t, DecodeComplete ms)])) = ms"
proof -
  have "List.map_filter (\<lambda>(_, e). case e of DecodeComplete ms \<Rightarrow> Some ms | _ \<Rightarrow> None) (es @ [(t, DecodeComplete ms)]) = [ms]"
    using assms by (induction es) (auto simp: List.map_filter_simps split: trace_event.splits)
  then show ?thesis by (simp add: detail_of_def Let_def)
qed

text \<open>A decode is timed around \<open>llama_decode\<close>, in which the callback waits: the time of a stall is
  counted as stall and as decode.  One stall that fills a token gives twice the wall time.\<close>

lemma stalls_counted_twice:
  "let sh = shares_of [(Fin 10, LayerStall 0 (Fin 10)), (Fin 10, DecodeComplete (Fin 10))]
   in sh_stall_pct sh = Fin 100 \<and> sh_decode_pct sh = Fin 100 \<and> sh_dead_ms sh = Fin 0"
  by code_simp

section \<open>Properties\<close>

text \<open>The per-token breakdown is a partition of the trace: there is one entry for every decoded
  token the totals count, the entries put together are the trace up to the last decoded
  token, and each consists of events before the completion of its own token, whose time it
  shows.\<close>

theorem token_breakdown_partitions:
  "let toks = split_tokens [] events in
     tt_decode_count (totals_of events) = of_nat (length toks) \<and>
     (\<exists>rest. events = concat toks @ rest \<and> list_all (\<lambda>e. \<not> is_decode (snd e)) rest) \<and>
     list_all (\<lambda>tok. \<exists>es t ms. tok = es @ [(t, DecodeComplete ms)] \<and> list_all (\<lambda>e. \<not> is_decode (snd e)) es \<and>
       td_decode (detail_of tok) = ms) toks"
proof -
  let ?toks = "split_tokens [] events"
  have "tt_decode_count (totals_of events) = of_nat (length ?toks)"
    by (simp add: totals_of_def totals_decode no_totals_def split_tokens_count)
  moreover have "\<exists>rest. events = concat ?toks @ rest \<and> list_all (\<lambda>e. \<not> is_decode (snd e)) rest"
    using split_tokens_concat [of "[]" events] by (auto simp: list_all_iff)
  moreover have "\<exists>es t ms. tok = es @ [(t, DecodeComplete ms)] \<and> list_all (\<lambda>e. \<not> is_decode (snd e)) es \<and>
      td_decode (detail_of tok) = ms" if tok: "tok \<in> set ?toks" for tok
  proof -
    from split_tokens_ends [OF tok] obtain es t ms where "tok = es @ [(t, DecodeComplete ms)]" "\<forall>e \<in> set es. \<not> is_decode (snd e)"
      by auto
    with decode_only_last [OF this(2), of t ms] show ?thesis by (auto simp: list_all_iff)
  qed
  ultimately show ?thesis by (simp add: Let_def list_all_iff)
qed

end
