(* ===== verification/Cli.thy ===== *)
theory Cli
  imports Formats Server Profiler Plan Gpu_Layers Session
begin

text \<open>
  The commands of \<open>cli/run.rs\<close>, \<open>cli/bench.rs\<close> and \<open>cli/serve.rs\<close> around the engine: preparing the
  plan of a model file, the interactive conversation, the benchmark's record and its table, what
  the server tells about the model.  Generation is an argument of the conversation, a function of
  the prompt and a world.  The theorem says which prompts a conversation sends.
\<close>

section \<open>Configuration\<close>

record inference_config =
  ic_n_ctx :: u32
  ic_n_batch :: u32
  ic_n_threads :: i32
  ic_sampling :: sampling_params

definition num_performance_cores :: "u32 option \<Rightarrow> nat option \<Rightarrow> i32" where
  "num_performance_cores perflevel0 parallelism = (case perflevel0 of
      Some n \<Rightarrow> n
    | None \<Rightarrow> (case parallelism of Some n \<Rightarrow> of_nat (max (n div 2) 1) | None \<Rightarrow> 4))"

definition inference_config_default :: "i32 \<Rightarrow> inference_config" where
  "inference_config_default cores = \<lparr>ic_n_ctx = 4096, ic_n_batch = 512, ic_n_threads = cores, ic_sampling = sampling_default\<rparr>"

definition run_config :: "i32 \<Rightarrow> u32 \<Rightarrow> u32 \<Rightarrow> inference_config" where
  "run_config cores context max_tokens =
     (let c = (inference_config_default cores)\<lparr>ic_n_ctx := context\<rparr>
      in c\<lparr>ic_sampling := (ic_sampling c)\<lparr>sp_max_tokens := max_tokens\<rparr>\<rparr>)"

definition bench_config :: "i32 \<Rightarrow> u32 \<Rightarrow> u32 \<Rightarrow> inference_config" where
  "bench_config cores context max_tokens =
     \<lparr>ic_n_ctx = context, ic_n_batch = 512, ic_n_threads = ic_n_threads (inference_config_default cores),
      ic_sampling = sampling_default\<lparr>sp_max_tokens := max_tokens, sp_seed := 42\<rparr>\<rparr>"

section \<open>From the file to the plan\<close>

record prepared =
  pr_hardware :: hardware_profile
  pr_gguf :: gguf_file
  pr_metadata :: model_metadata
  pr_plan :: placement_plan
  pr_summary :: placement_summary
  pr_n_gpu_layers :: i32

text \<open>\<open>None\<close>: the command ends with an error.  \<open>profile\<close> is what \<open>current_profile\<close> gives; without
  bytes there is no such file.\<close>

definition prepare ::
  "solver \<Rightarrow> ((string \<times> u32) list \<Rightarrow> (string \<times> u32) list) \<Rightarrow> string \<Rightarrow> allocator \<Rightarrow> hardware_profile option outcome \<Rightarrow>
   u8 list option \<Rightarrow> u32 \<Rightarrow> prepared option outcome" where
  "prepare solve ord json alloc profile file_bytes context = (case file_bytes of
      None \<Rightarrow> Ret None
    | Some bs \<Rightarrow> obind profile (\<lambda>p. case p of
        None \<Rightarrow> Ret None
      | Some hw \<Rightarrow> (case parse alloc bs of
          Inl _ \<Rightarrow> Ret None
        | Inr gguf \<Rightarrow> omap (\<lambda>plan. let md = from_gguf ord gguf in Some
            \<lparr>pr_hardware = hw, pr_gguf = gguf, pr_metadata = md, pr_plan = plan,
             pr_summary = summarize_placement (pp_tier_assignments plan) (gf_tensors gguf),
             pr_n_gpu_layers = gpu_layers_from_placement plan gguf (compute_gpu_budget hw md context)\<rparr>)
            (compute_placement_with_context solve ord json gguf hw context))))"

definition nvme_count :: "placement_plan \<Rightarrow> nat" where
  "nvme_count plan = length (filter (\<lambda>e. snd e = Nvme) (pp_tier_assignments plan))"

section \<open>The interactive conversation\<close>

definition cli_message :: "string \<times> string \<Rightarrow> string" where
  "cli_message m = ''<|im_start|>'' @ fst m @ [newline] @ snd m @ ''<|im_end|>'' @ [newline]"

definition cli_chat_prompt :: "(string \<times> string) list \<Rightarrow> string" where
  "cli_chat_prompt history = concat (map cli_message history) @ ''<|im_start|>assistant'' @ [newline]"

text \<open>Generation for a prompt: the tokens streamed, and whether a result came back at the end (the
  thread may fail or panic).\<close>

type_synonym 'w generator = "string \<Rightarrow> 'w \<Rightarrow> (generated_token list \<times> bool) \<times> 'w"

text \<open>\<open>None\<close> as a line is an error of the terminal; no more lines is the end of the input.  The
  result says whether the command succeeds, the history, the prompts sent, the world.\<close>

fun interactive :: "'w generator \<Rightarrow> string option list \<Rightarrow> (string \<times> string) list \<Rightarrow> string list \<Rightarrow> 'w \<Rightarrow>
    bool \<times> (string \<times> string) list \<times> string list \<times> 'w" where
  "interactive gen [] history prompts w = (True, history, prompts, w)"
| "interactive gen (None # lines) history prompts w = (False, history, prompts, w)"
| "interactive gen (Some line # lines) history prompts w =
     (let input = trim line
      in if input = [] then interactive gen lines history prompts w
         else if input = ''/quit'' \<or> input = ''/exit'' then (True, history, prompts, w)
         else let history1 = history @ [(''user'', input)];
                  full_prompt = cli_chat_prompt history1
              in case gen full_prompt w of ((tokens, ok), w1) \<Rightarrow>
                   let response = concat (map gt_text tokens)
                   in if ok then interactive gen lines (history1 @ [(''assistant'', response)]) (prompts @ [full_prompt]) w1
                      else (False, history1, prompts @ [full_prompt], w1))"

text \<open>What \<open>hypura run\<close> does after the plan: with \<open>--interactive\<close> or no prompt it converses.\<close>

definition run_prompt :: "'w generator \<Rightarrow> bool \<Rightarrow> string option \<Rightarrow> string option list \<Rightarrow> 'w \<Rightarrow> bool \<times> string list \<times> 'w" where
  "run_prompt gen want_interactive prompt lines w =
     (let converse = (case interactive gen lines [] [] w of (ok, _, prompts, w') \<Rightarrow> (ok, prompts, w'))
      in if want_interactive then converse
         else case prompt of
                Some p \<Rightarrow> (case gen p w of ((_, ok), w') \<Rightarrow> (ok, [p], w'))
              | None \<Rightarrow> converse)"

section \<open>The benchmark\<close>

definition default_prompt :: string where
  "default_prompt = ''Write a short paragraph about artificial intelligence.''"

definition min_headroom :: u64 where "min_headroom = 4 * 2 ^ 30"

definition baseline_safe :: "gguf_file \<Rightarrow> hardware_profile \<Rightarrow> bool" where
  "baseline_safe gguf hw \<longleftrightarrow> total_tensor_bytes gguf \<le> saturating_sub (mp_total_bytes (hw_memory hw)) min_headroom"

definition baseline_ngl :: "gguf_file \<Rightarrow> hardware_profile \<Rightarrow> i32 \<Rightarrow> i32" where
  "baseline_ngl gguf hw n_gpu_layers = (if baseline_safe gguf hw then n_gpu_layers else 0)"

definition baseline_label :: "bool \<Rightarrow> string" where
  "baseline_label safe = (if safe then ''llama.cpp (full GPU)'' else ''llama.cpp CPU-only (ngl=0)'')"

text \<open>What is printed before a baseline that is not safe.\<close>

definition baseline_warning :: "gguf_file \<Rightarrow> hardware_profile \<Rightarrow> string option" where
  "baseline_warning gguf hw =
     (if baseline_safe gguf hw then None
      else Some (''  Model ('' @ fixed 1 (binary_unit (total_tensor_bytes gguf) 30) @ '' GB) exceeds RAM (''
        @ fixed 1 (binary_unit (mp_total_bytes (hw_memory hw)) 30) @ '' GB) '' @ em_dash
        @ '' baseline using CPU-only (ngl=0).''))"

definition speedup_of :: "generation_result option \<Rightarrow> generation_result \<Rightarrow> f64 option" where
  "speedup_of base result = (case base of
      None \<Rightarrow> None
    | Some b \<Rightarrow> if f_lt (Fin 0) (gr_tok_per_sec_avg b)
        then Some (f_div (gr_tok_per_sec_avg result) (gr_tok_per_sec_avg b)) else None)"

record model_info =
  mi_name :: string
  mi_architecture :: string
  mi_params :: string
  mi_quant :: string
  mi_size_gb :: f64

record hardware_info =
  hi_cpu :: string
  hi_ram_gb :: f64
  hi_gpu :: string
  hi_nvme_seq_gbps :: f64

record placement_info =
  pi_gpu_gb :: f64
  pi_ram_gb :: f64
  pi_nvme_gb :: f64

record bench_setup =
  bs_context :: u32
  bs_max_tokens :: u32
  bs_prompt :: string
  bs_n_gpu_layers :: i32

record run_result =
  rr_prompt_eval_ms :: f64
  rr_tok_per_sec :: f64
  rr_tokens_generated :: u32
  rr_wall_time_ms :: f64

record benchmark_result =
  br_timestamp :: string
  br_model :: model_info
  br_hardware :: hardware_info
  br_placement :: placement_info
  br_config :: bench_setup
  br_baseline :: "run_result option"
  br_hypura :: run_result
  br_speedup :: "f64 option"

definition run_result_of :: "generation_result \<times> f64 \<Rightarrow> run_result" where
  "run_result_of r = \<lparr>rr_prompt_eval_ms = gr_prompt_eval_ms (fst r), rr_tok_per_sec = gr_tok_per_sec_avg (fst r),
     rr_tokens_generated = gr_tokens_generated (fst r), rr_wall_time_ms = snd r\<rparr>"

definition bench_result_of :: "string \<Rightarrow> string \<Rightarrow> prepared \<Rightarrow> u32 \<Rightarrow> u32 \<Rightarrow> string \<Rightarrow> (generation_result \<times> f64) option \<Rightarrow>
    generation_result \<times> f64 \<Rightarrow> benchmark_result" where
  "bench_result_of timestamp filename p context max_tokens prompt base result =
     \<lparr>br_timestamp = timestamp,
      br_model = \<lparr>mi_name = trim_end_matches ''.gguf'' filename, mi_architecture = mm_architecture (pr_metadata p),
        mi_params = format_params (mm_parameter_count (pr_metadata p)),
        mi_quant = unwrap_or (mm_quantization (pr_metadata p)) [],
        mi_size_gb = binary_unit (total_tensor_bytes (pr_gguf p)) 30\<rparr>,
      br_hardware = \<lparr>hi_cpu = cp_model_name (hw_cpu (pr_hardware p)),
        hi_ram_gb = binary_unit (mp_total_bytes (hw_memory (pr_hardware p))) 30,
        hi_gpu = unwrap_or (map_option gp_name (hw_gpu (pr_hardware p))) [],
        hi_nvme_seq_gbps = unwrap_or (map_option (\<lambda>s. decimal_unit (bc_peak_sequential (sp_sequential_read s)) 9)
          (first (hw_storage (pr_hardware p)))) (Fin 0)\<rparr>,
      br_placement = \<lparr>pi_gpu_gb = binary_unit (sm_total_gpu_bytes (pr_summary p)) 30,
        pi_ram_gb = binary_unit (sm_total_ram_bytes (pr_summary p)) 30,
        pi_nvme_gb = binary_unit (sm_total_nvme_bytes (pr_summary p)) 30\<rparr>,
      br_config = \<lparr>bs_context = context, bs_max_tokens = max_tokens, bs_prompt = prompt,
        bs_n_gpu_layers = pr_n_gpu_layers p\<rparr>,
      br_baseline = map_option run_result_of base, br_hypura = run_result_of result,
      br_speedup = speedup_of (map_option fst base) (fst result)\<rparr>"

text \<open>The two runs.  The baseline's failure or panic is \<open>None\<close> and does not end the command; that of
  the second run does.  The times are the wall times of the runs.\<close>

definition run_bench :: "bool \<Rightarrow> (i32 \<Rightarrow> generation_result option) \<Rightarrow> (i32 \<Rightarrow> generation_result option) \<Rightarrow> f64 \<times> f64 \<Rightarrow>
    string \<Rightarrow> string \<Rightarrow> u32 \<Rightarrow> u32 \<Rightarrow> string option \<Rightarrow> prepared \<Rightarrow> benchmark_result option" where
  "run_bench run_baseline naive scheduled wall timestamp filename context max_tokens prompt p =
     (let prompt_text = unwrap_or prompt default_prompt;
          base = (if run_baseline
                  then map_option (\<lambda>r. (r, fst wall)) (naive (baseline_ngl (pr_gguf p) (pr_hardware p) (pr_n_gpu_layers p)))
                  else None)
      in map_option (\<lambda>r. bench_result_of timestamp filename p context max_tokens prompt_text base (r, snd wall))
           (scheduled (pr_n_gpu_layers p)))"

text \<open>Slices that do not fit the timestamp panic.\<close>

definition results_filename :: "string \<Rightarrow> string \<Rightarrow> string outcome" where
  "results_filename timestamp name =
     (let ts = replace_char (CHR ''.'') (CHR ''-'') (replace_char (CHR '':'') (CHR ''-'') timestamp)
      in if 19 \<le> length ts then Ret (take 19 ts @ ''_'' @ name @ ''.json'') else Panic)"

definition readme_header :: string where
  "readme_header = ''# Hypura Benchmarks'' @ [newline, newline]
     @ ''| Date | Model | Hardware | GPU | RAM | NVMe | Baseline tok/s | Hypura tok/s | Speedup |'' @ [newline]
     @ ''|------|-------|----------|-----|-----|------|----------------|--------------|---------|''"

definition bar :: string where "bar = '' | ''"

definition readme_row :: "benchmark_result \<Rightarrow> string" where
  "readme_row r = ''| '' @ take 10 (br_timestamp r) @ bar @ mi_name (br_model r) @ '' '' @ mi_quant (br_model r) @ bar
     @ hi_cpu (br_hardware r) @ '' '' @ dec_word (f_to_word (hi_ram_gb (br_hardware r)) :: u32) @ ''GB'' @ bar
     @ fixed 1 (pi_gpu_gb (br_placement r)) @ '' GB'' @ bar @ fixed 1 (pi_ram_gb (br_placement r)) @ '' GB'' @ bar
     @ fixed 1 (pi_nvme_gb (br_placement r)) @ '' GB'' @ bar
     @ unwrap_or (map_option (\<lambda>b. fixed 1 (rr_tok_per_sec b)) (br_baseline r)) em_dash @ bar
     @ fixed 1 (rr_tok_per_sec (br_hypura r)) @ bar
     @ unwrap_or (map_option (\<lambda>x. fixed 1 x @ ''x'') (br_speedup r)) em_dash @ '' |''"

definition update_readme :: "string option \<Rightarrow> benchmark_result \<Rightarrow> string outcome" where
  "update_readme content r =
     (let existing = (case content of Some c \<Rightarrow> c | None \<Rightarrow> readme_header @ [newline])
      in if 10 \<le> length (br_timestamp r) then Ret (trim_end existing @ [newline] @ readme_row r @ [newline]) else Panic)"

text \<open>A result is saved in a file of its own and as a row of the table.\<close>

definition save_benchmark_result :: "string option \<Rightarrow> benchmark_result \<Rightarrow> (string \<times> string) outcome" where
  "save_benchmark_result readme r =
     obind (results_filename (br_timestamp r) (mi_name (br_model r))) (\<lambda>name.
       omap (\<lambda>content. (name, content)) (update_readme readme r))"

section \<open>The server's model information\<close>

record gguf_info =
  gi_file_size :: u64
  gi_architecture :: string
  gi_parameter_count :: u64
  gi_quantization :: string
  gi_context_length :: u32

definition gguf_info_of :: "u64 \<Rightarrow> model_metadata \<Rightarrow> gguf_info" where
  "gguf_info_of file_size md = \<lparr>gi_file_size = file_size, gi_architecture = mm_architecture md,
     gi_parameter_count = mm_parameter_count md, gi_quantization = unwrap_or (mm_quantization md) ''unknown'',
     gi_context_length = mm_context_length md\<rparr>"

record model_details =
  md_format :: string
  md_family :: string
  md_parameter_size :: string
  md_quantization_level :: string

definition model_details_of :: "gguf_info \<Rightarrow> model_details" where
  "model_details_of info = \<lparr>md_format = ''gguf'', md_family = gi_architecture info,
     md_parameter_size = format_parameter_size (gi_parameter_count info), md_quantization_level = gi_quantization info\<rparr>"

record model_tag =
  mt_name :: string
  mt_model :: string
  mt_size :: u64
  mt_details :: model_details

definition tags_handler :: "string \<Rightarrow> gguf_info \<Rightarrow> model_tag list" where
  "tags_handler model_name info =
     [\<lparr>mt_name = model_name, mt_model = model_name, mt_size = gi_file_size info, mt_details = model_details_of info\<rparr>]"

text \<open>The values of the JSON object are a text and two numbers.\<close>

definition show_handler :: "gguf_info \<Rightarrow> model_details \<times> (string \<times> (string + nat)) list" where
  "show_handler info = (model_details_of info,
     [(''general.architecture'', Inl (gi_architecture info)), (''general.context_length'', Inr (unat (gi_context_length info))),
      (''general.parameter_count'', Inr (unat (gi_parameter_count info)))])"

text \<open>Starting the server: prepare the plan, load the model, keep both.  \<open>stem\<close> is the stem of the file's
  name, and \<open>None\<close> as a result means that the loader waits for a layer forever.\<close>

definition model_name_of :: "gguf_file \<Rightarrow> string option \<Rightarrow> string" where
  "model_name_of gguf stem = unwrap_or (get_string gguf ''general.name'') (unwrap_or stem ''unknown'')"

record app_state =
  as_model_name :: string
  as_gguf_info :: gguf_info
  as_load_duration_ns :: u64
  as_prefetch :: "(prefetch_config \<times> prefetch_state) option"
  as_keep_resident :: bool

datatype serve_error = ServePrepare | ServeLoad session_error

definition serve_setup :: "machine \<Rightarrow> env \<Rightarrow> model_load \<Rightarrow> string option \<Rightarrow> u64 \<Rightarrow> u64 \<Rightarrow> prepared option outcome \<Rightarrow>
    (serve_error + app_state) option outcome" where
  "serve_setup mc env load stem file_size load_ns prep = obind prep (\<lambda>p. case p of
      None \<Rightarrow> Ret (Some (Inl ServePrepare))
    | Some p \<Rightarrow> omap (map_option (\<lambda>r. case r of
          Inl e \<Rightarrow> Inl (ServeLoad e)
        | Inr (prefetch, keep) \<Rightarrow> Inr \<lparr>as_model_name = model_name_of (pr_gguf p) stem,
            as_gguf_info = gguf_info_of file_size (pr_metadata p), as_load_duration_ns = load_ns,
            as_prefetch = prefetch, as_keep_resident = keep\<rparr>))
        (load_model mc env load (pr_plan p) (pr_gguf p)))"

text \<open>A server that has started keeps a prefetch state the layer protocol can reach.\<close>

lemma serve_in_protocol:
  assumes "serve_setup mc env (\<lambda>c. Some (num_layers, load_calls calls c, data)) stem file_size load_ns (Ret (Some p)) = Ret (Some (Inr a))"
    "as_prefetch a = Some (cfg, s)" "loads_ok disk (pr_gguf p) base calls" "dense_gguf (pr_gguf p)" "env_ok disk env"
  shows "\<exists>s'. reachable cfg disk base (Free, s') \<and> s = disable_if (as_keep_resident a) s'"
proof -
  let ?load = "load_model mc env (\<lambda>c. Some (num_layers, load_calls calls c, data)) (pr_plan p) (pr_gguf p)"
  have "?load = Ret (Some (Inr (Some (cfg, s), as_keep_resident a)))"
  proof (cases ?load)
    case (Ret r)
    show ?thesis
    proof (cases r)
      case (Some x)
      show ?thesis
      proof (cases x)
        case (Inr y)
        with Ret Some assms(1,2) show ?thesis by (cases y) (auto simp: serve_setup_def)
      qed (use Ret Some assms(1) in \<open>simp add: serve_setup_def\<close>)
    qed (use Ret assms(1) in \<open>simp add: serve_setup_def\<close>)
  qed (use assms(1) in \<open>simp add: serve_setup_def\<close>)
  from load_model_steps [OF assms(3-5) this] show ?thesis by blast
qed

section \<open>What a conversation sends\<close>

text \<open>What the user says before leaving, what is answered to a list of prompts, and the history
  both make: every message is followed by its answer, the last one perhaps not.\<close>

fun inputs :: "string option list \<Rightarrow> string list" where
  "inputs [] = []"
| "inputs (None # lines) = []"
| "inputs (Some line # lines) =
     (if trim line = [] then inputs lines
      else if trim line \<in> {''/quit'', ''/exit''} then [] else trim line # inputs lines)"

fun replies :: "'w generator \<Rightarrow> string list \<Rightarrow> 'w \<Rightarrow> string list" where
  "replies gen [] w = []"
| "replies gen (p # ps) w = (case gen p w of ((tokens, ok), w1) \<Rightarrow>
     if ok then concat (map gt_text tokens) # replies gen ps w1 else [])"

fun conversation :: "string list \<Rightarrow> string list \<Rightarrow> (string \<times> string) list" where
  "conversation [] rs = []"
| "conversation (u # us) [] = [(''user'', u)]"
| "conversation (u # us) (r # rs) = (''user'', u) # (''assistant'', r) # conversation us rs"

definition message_of :: "string \<times> string \<Rightarrow> chat_message" where
  "message_of m = \<lparr>cm_role = fst m, cm_content = snd m\<rparr>"

lemma cli_prompt_is_server_prompt: "cli_chat_prompt history = format_chat_prompt (map message_of history)"
proof -
  have "cli_message = format_message \<circ> message_of"
    by (rule ext) (simp add: cli_message_def format_message_def message_of_def im_start_def im_end_def)
  then show ?thesis by (simp add: cli_chat_prompt_def format_chat_prompt_def im_start_def comp_def)
qed

definition converses :: "'w generator \<Rightarrow> string list \<Rightarrow> (string \<times> string) list \<Rightarrow> string list \<Rightarrow> string list \<Rightarrow>
    string list \<Rightarrow> (string \<times> string) list \<Rightarrow> bool" where
  "converses gen said h ps rs us conv \<longleftrightarrow> prefix said us \<and> length ps = length said \<and> conv = conversation said rs \<and>
     length rs \<le> length said \<and> length said \<le> length rs + 1 \<and>
     (\<forall>i < length ps. ps ! i = cli_chat_prompt (h @ take (2 * i + 1) conv))"

lemma interactive_converses:
  assumes "interactive gen lines h p w = (ok, hist, prompts, w')"
  shows "\<exists>said ps. prompts = p @ ps \<and> hist = h @ conversation said (replies gen ps w) \<and>
    converses gen said h ps (replies gen ps w) (inputs lines) (conversation said (replies gen ps w)) \<and>
    (ok \<longrightarrow> said = inputs lines \<and> length (replies gen ps w) = length said)"
  using assms
proof (induction gen lines h p w rule: interactive.induct)
  case (1 gen h p w)
  then show ?case by (intro exI [of _ "[]"]) (simp add: converses_def)
next
  case (2 gen lines h p w)
  then show ?case by (intro exI [of _ "[]"]) (simp add: converses_def)
next
  case (3 gen line lines h p w)
  let ?u = "trim line"
  consider (blank) "?u = []" | (quit) "?u \<noteq> []" "?u \<in> {''/quit'', ''/exit''}" | (say) "?u \<noteq> []" "?u \<notin> {''/quit'', ''/exit''}"
    by blast
  then show ?case
  proof cases
    case blank
    with 3(3) have "interactive gen lines h p w = (ok, hist, prompts, w')" by simp
    from 3(1) [OF refl blank this] blank show ?thesis by simp
  next
    case quit
    with 3(3) have "ok" "hist = h" "prompts = p" by auto
    with quit show ?thesis by (intro exI [of _ "[]"]) (auto simp: converses_def)
  next
    case say
    define h1 where "h1 = h @ [(''user'', ?u)]"
    define q where "q = cli_chat_prompt h1"
    obtain tokens good w1 where g: "gen q w = ((tokens, good), w1)" by (metis surj_pair)
    let ?r = "concat (map gt_text tokens)"
    have in_eq: "inputs (Some line # lines) = ?u # inputs lines" using say by simp
    show ?thesis
    proof (cases good)
      case False
      with 3(3) say g have res: "\<not> ok" "hist = h1" "prompts = p @ [q]" by (auto simp: h1_def q_def Let_def)
      have "replies gen [q] w = []" using g False by simp
      with res show ?thesis unfolding in_eq
        by (intro exI [of _ "[?u]"] exI [of _ "[q]"]) (simp add: converses_def h1_def q_def)
    next
      case True
      let ?h2 = "h1 @ [(''assistant'', ?r)]"
      have rec: "interactive gen lines ?h2 (p @ [q]) w1 = (ok, hist, prompts, w')"
        using 3(3) say g True by (auto simp: h1_def q_def Let_def)
      have "\<exists>said ps. prompts = (p @ [q]) @ ps \<and> hist = ?h2 @ conversation said (replies gen ps w1) \<and>
          converses gen said ?h2 ps (replies gen ps w1) (inputs lines) (conversation said (replies gen ps w1)) \<and>
          (ok \<longrightarrow> said = inputs lines \<and> length (replies gen ps w1) = length said)"
        using 3(2) [OF refl] say g True rec unfolding h1_def q_def by (metis (no_types, lifting) insertCI)
      then obtain said ps where ih: "prompts = (p @ [q]) @ ps" "hist = ?h2 @ conversation said (replies gen ps w1)"
          "converses gen said ?h2 ps (replies gen ps w1) (inputs lines) (conversation said (replies gen ps w1))"
          "ok \<longrightarrow> said = inputs lines \<and> length (replies gen ps w1) = length said" by blast
      have rs: "replies gen (q # ps) w = ?r # replies gen ps w1" using g True by simp
      have "(q # ps) ! i = cli_chat_prompt (h @ take (2 * i + 1) (conversation (?u # said) (?r # replies gen ps w1)))"
        if "i < length (q # ps)" for i
        using that ih(3) by (cases i) (simp_all add: q_def h1_def converses_def)
      with ih(3) have "converses gen (?u # said) h (q # ps) (replies gen (q # ps) w) (inputs (Some line # lines))
          (conversation (?u # said) (replies gen (q # ps) w))"
        unfolding in_eq rs by (simp add: converses_def)
      with ih rs show ?thesis unfolding in_eq
        by (intro exI [of _ "?u # said"] exI [of _ "q # ps"]) (simp add: h1_def)
    qed
  qed
qed

section \<open>The table of results\<close>

lemma white_space_ends: "list_all (\<lambda>w. last w \<noteq> CHR 0x7C \<and> (last w = newline \<longrightarrow> w = [newline])) white_spaces"
  by code_simp

lemma trim_end_line:
  assumes "s \<noteq> []" "last s = CHR 0x7C"
  shows "trim_end (s @ [newline]) = s"
proof -
  have "suffix [newline] (s @ [newline])" by (simp add: suffix_def)
  moreover have "w = [newline]" if "w \<in> set white_spaces" "suffix w (s @ [newline])" for w
  proof -
    have "last w = newline" using that white_space_nonempty [OF that(1)] by (auto simp: suffix_def) (metis last_appendR last_snoc)
    with that(1) show ?thesis using white_space_ends by (auto simp: list_all_iff)
  qed
  moreover have "[newline] \<in> set white_spaces" by (simp add: white_spaces_def newline_def)
  ultimately have "find (\<lambda>w. suffix w (s @ [newline])) white_spaces = Some [newline]"
    by (metis (mono_tags, lifting) find_None_iff find_Some_iff nth_mem option.exhaust)
  then have "trim_end (s @ [newline]) = trim_end s" by (subst trim_end.simps) simp
  also have "\<dots> = s"
  proof (rule trim_end_id, intro ballI notI)
    fix w assume w: "w \<in> set white_spaces" "suffix w s"
    then have "last w = CHR 0x7C" using assms white_space_nonempty [OF w(1)] by (auto simp: suffix_def)
    with w(1) show False using white_space_ends by (auto simp: list_all_iff)
  qed
  finally show ?thesis .
qed

fun record_all :: "string option \<Rightarrow> benchmark_result list \<Rightarrow> string option outcome" where
  "record_all content [] = Ret content"
| "record_all content (r # rs) = obind (update_readme content r) (\<lambda>c. record_all (Some c) rs)"

definition table_rows :: "benchmark_result list \<Rightarrow> string" where
  "table_rows rs = concat (map (\<lambda>r. newline # readme_row r) rs)"

lemma last_readme_row: "readme_row r \<noteq> []" "last (readme_row r) = CHR 0x7C"
  by (simp_all add: readme_row_def)

text \<open>Runs add their rows below the header and keep the rows before.\<close>

lemma readme_keeps_rows:
  assumes "s \<noteq> []" "last s = CHR 0x7C" "\<forall>r \<in> set rs. 10 \<le> length (br_timestamp r)"
  shows "record_all (Some (s @ [newline])) rs = Ret (Some (s @ table_rows rs @ [newline]))"
  using assms
proof (induction rs arbitrary: s)
  case Nil
  then show ?case by (simp add: table_rows_def)
next
  case (Cons r rs)
  have "update_readme (Some (s @ [newline])) r = Ret ((s @ newline # readme_row r) @ [newline])"
    using Cons.prems by (simp add: update_readme_def trim_end_line)
  moreover have "record_all (Some ((s @ newline # readme_row r) @ [newline])) rs
      = Ret (Some ((s @ newline # readme_row r) @ table_rows rs @ [newline]))"
    using Cons.prems last_readme_row [of r] by (intro Cons.IH) simp_all
  ultimately show ?case by (simp add: table_rows_def)
qed

lemma first_table:
  assumes "rs \<noteq> []" "\<forall>r \<in> set rs. 10 \<le> length (br_timestamp r)"
  shows "record_all None rs = Ret (Some (readme_header @ table_rows rs @ [newline]))"
proof -
  obtain r rs' where rs: "rs = r # rs'" using assms(1) by (cases rs) auto
  have "update_readme None r = update_readme (Some (readme_header @ [newline])) r" by (simp add: update_readme_def)
  then have "record_all None rs = record_all (Some (readme_header @ [newline])) rs" by (simp add: rs)
  also have "\<dots> = Ret (Some (readme_header @ table_rows rs @ [newline]))"
    using assms(2) by (intro readme_keeps_rows) (simp_all add: readme_header_def)
  finally show ?thesis .
qed

text \<open>The warning says that the model exceeds the memory also when only the headroom is missing.\<close>

lemma warning_without_excess:
  assumes "total_tensor_bytes gguf = 30 * 2 ^ 30" "mp_total_bytes (hw_memory hw) = 32 * 2 ^ 30"
  shows "baseline_warning gguf hw \<noteq> None" "total_tensor_bytes gguf < mp_total_bytes (hw_memory hw)"
proof -
  have "\<not> baseline_safe gguf hw" using assms by (simp add: baseline_safe_def saturating_sub_def min_headroom_def)
  then show "baseline_warning gguf hw \<noteq> None" by (simp add: baseline_warning_def)
  show "total_tensor_bytes gguf < mp_total_bytes (hw_memory hw)" using assms by simp
qed

section \<open>The conversation\<close>

text \<open>C18. The interactive mode holds a conversation: what it sends for the \<open>i\<close>-th message is the chat
  prompt the server would make of the history up to that message; the history alternates the
  trimmed messages, blank ones left out, with exactly the text that was streamed as the answer to
  the prompt; and a session that ends without an error has answered every message up to \<open>/quit\<close>,
  \<open>/exit\<close> or the end of the input.\<close>

theorem interactive_conversation:
  assumes "interactive gen lines [] [] w = (ok, history, prompts, w')"
  shows "\<exists>said. prefix said (inputs lines) \<and> length prompts = length said \<and>
    history = conversation said (replies gen prompts w) \<and>
    (\<forall>i < length prompts. prompts ! i = format_chat_prompt (map message_of (take (2 * i + 1) history))) \<and>
    length (replies gen prompts w) \<le> length said \<and> length said \<le> length (replies gen prompts w) + 1 \<and>
    (ok \<longrightarrow> said = inputs lines \<and> length (replies gen prompts w) = length said)"
proof -
  obtain said where "history = conversation said (replies gen prompts w)"
    "converses gen said [] prompts (replies gen prompts w) (inputs lines) (conversation said (replies gen prompts w))"
    "ok \<longrightarrow> said = inputs lines \<and> length (replies gen prompts w) = length said"
    using interactive_converses [OF assms] by auto
  then show ?thesis by (intro exI [of _ said]) (simp add: converses_def cli_prompt_is_server_prompt)
qed

definition demo_generator :: "nat generator" where
  "demo_generator p w = (([\<lparr>gt_text = ''yes'', gt_token_id = 1, gt_tok_per_sec = Fin 1, gt_is_eog = False\<rparr>], True), Suc w)"

theorem interactive_conversation_witness:
  "\<exists>said. prefix said (inputs [Some '' hi '', Some '' '', Some ''/quit'']) \<and> length [cli_chat_prompt [(''user'', ''hi'')]] = length said \<and>
    [(''user'', ''hi''), (''assistant'', ''yes'')] = conversation said (replies demo_generator [cli_chat_prompt [(''user'', ''hi'')]] 0) \<and>
    (\<forall>i < length [cli_chat_prompt [(''user'', ''hi'')]]. [cli_chat_prompt [(''user'', ''hi'')]] ! i =
      format_chat_prompt (map message_of (take (2 * i + 1) [(''user'', ''hi''), (''assistant'', ''yes'')]))) \<and>
    length (replies demo_generator [cli_chat_prompt [(''user'', ''hi'')]] 0) \<le> length said \<and>
    length said \<le> length (replies demo_generator [cli_chat_prompt [(''user'', ''hi'')]] 0) + 1 \<and>
    (True \<longrightarrow> said = inputs [Some '' hi '', Some '' '', Some ''/quit''] \<and>
      length (replies demo_generator [cli_chat_prompt [(''user'', ''hi'')]] 0) = length said)"
proof (rule interactive_conversation)
  show "interactive demo_generator [Some '' hi '', Some '' '', Some ''/quit''] [] [] 0 =
      (True, [(''user'', ''hi''), (''assistant'', ''yes'')], [cli_chat_prompt [(''user'', ''hi'')]], 1)"
    by code_simp
qed

end
