(* ===== verification/Estimator.thy ===== *)
theory Estimator
  imports Plan
begin

text \<open>
  Model of \<open>src/scheduler/estimator.rs\<close>: the performance prediction shown before a model is
  loaded.  The lemmas compare it with the estimate the placement itself is chosen by
  (\<open>quick_estimate\<close>) and show where the two part.
\<close>

section \<open>The estimate\<close>

datatype estimate_confidence = Measured | Predicted | Interpolated

record hypura_estimate =
  he_model_id :: string
  he_tok_per_sec_interactive :: f64
  he_tok_per_sec_batched :: f64
  he_placement_summary :: placement_summary
  he_max_context_before_spill :: u32
  he_disk_read_per_token_bytes :: u64
  he_experience_tier :: experience_tier
  he_confidence :: estimate_confidence

text \<open>The tensors of a layer are found by their name, not by their layer index.\<close>

definition named_tensors :: "tensor_info list \<Rightarrow> nat \<Rightarrow> tensor_info list" where
  "named_tensors tensors idx = filter (\<lambda>t. starts_with (ti_name t) (''blk.'' @ dec idx @ ''.'')) tensors"

text \<open>The I/O time of a tensor that the compute time of the previous layer does not hide.\<close>

definition visible_io :: "f64 \<Rightarrow> f64 \<Rightarrow> f64 \<Rightarrow> f64" where
  "visible_io prev_compute io layer_io =
     (if f_le io prev_compute then layer_io else f_add layer_io (f_sub io (f_min prev_compute io)))"

definition est_step :: "tier_map \<Rightarrow> model_metadata \<Rightarrow> f64 \<Rightarrow> f64 \<Rightarrow> f64 \<Rightarrow> f64 \<Rightarrow> tensor_info \<Rightarrow>
    f64 \<times> f64 \<times> f64 \<Rightarrow> f64 \<times> f64 \<times> f64" where
  "est_step m md gpu_bw ram_bw nvme_bw prev_compute t acc =
     (let freq = role_freq md t; (compute, layer_io, nvme_bytes) = acc in
      case tier_of m (ti_name t) of
        Gpu \<Rightarrow> (f_add compute (transfer t freq gpu_bw), layer_io, nvme_bytes)
      | Ram \<Rightarrow> (f_add compute (transfer t freq ram_bw), layer_io, nvme_bytes)
      | Nvme \<Rightarrow>
          (let effective = effective_io_freq (role_from_name (ti_name t)) freq (mm_is_moe md)
           in (compute, visible_io prev_compute (transfer t effective nvme_bw) layer_io,
               f_add nvme_bytes (f_mul (f_of_word (ti_size_bytes t)) effective))))"

fun est_layers :: "tier_map \<Rightarrow> tensor_info list \<Rightarrow> model_metadata \<Rightarrow> f64 \<Rightarrow> f64 \<Rightarrow> f64 \<Rightarrow> nat list \<Rightarrow>
    f64 \<Rightarrow> f64 \<Rightarrow> f64 \<Rightarrow> f64 \<times> f64" where
  "est_layers m tensors md gpu_bw ram_bw nvme_bw [] total_latency nvme_bytes prev_compute = (total_latency, nvme_bytes)"
| "est_layers m tensors md gpu_bw ram_bw nvme_bw (idx # idxs) total_latency nvme_bytes prev_compute =
     (let (compute, layer_io, nvme_bytes') =
            fold (est_step m md gpu_bw ram_bw nvme_bw prev_compute) (named_tensors tensors idx) (Fin 0, Fin 0, nvme_bytes);
          layer_latency = f_add (f_max compute layer_io) sync_secs
      in est_layers m tensors md gpu_bw ram_bw nvme_bw idxs (f_add total_latency layer_latency) nvme_bytes' compute)"

definition est_non_layer :: "tier_map \<Rightarrow> model_metadata \<Rightarrow> f64 \<Rightarrow> f64 \<Rightarrow> f64 \<Rightarrow> tensor_info \<Rightarrow> f64 \<times> f64 \<Rightarrow> f64 \<times> f64" where
  "est_non_layer m md gpu_bw ram_bw nvme_bw t acc = (case acc of (total_latency, nvme_bytes) \<Rightarrow>
     (f_add total_latency (non_layer_transfer m md gpu_bw ram_bw nvme_bw t),
      if tier_of m (ti_name t) = Nvme then f_add nvme_bytes (f_mul (f_of_word (ti_size_bytes t)) (role_freq md t)) else nvme_bytes))"

definition est_latency :: "tier_map \<Rightarrow> tensor_info list \<Rightarrow> model_metadata \<Rightarrow> hardware_profile \<Rightarrow> f64 \<times> f64" where
  "est_latency m tensors md hw =
     (let gpu_bw = gpu_bandwidth hw; ram_bw = f_of_word (mp_bandwidth_bytes_per_sec (hw_memory hw)); nvme_bw = nvme_bandwidth hw
      in fold (est_non_layer m md gpu_bw ram_bw nvme_bw) (filter (\<lambda>t. ti_layer_index t = None) tensors)
           (est_layers m tensors md gpu_bw ram_bw nvme_bw [0..<unat (mm_num_layers md)] (Fin 0) (Fin 0) (Fin 0)))"

definition est_os_overhead :: u64 where
  "est_os_overhead = 2 * 2 ^ 30"

definition estimate_kv_per_token :: "model_metadata \<Rightarrow> u64" where
  "estimate_kv_per_token md =
     (if mm_num_heads md = 0 \<or> mm_embedding_dim md = 0 then 0
      else let head_dim = ucast (mm_embedding_dim md) div ucast (mm_num_heads md)
           in 2 * ucast (mm_num_layers md) * ucast (mm_num_kv_heads md) * head_dim * 2)"

definition available_for_kv :: "u64 \<Rightarrow> u64 \<Rightarrow> u64" where
  "available_for_kv total_ram model_bytes =
     saturating_sub total_ram (min model_bytes (saturating_sub total_ram est_os_overhead))"

definition max_context :: "model_metadata \<Rightarrow> u64 \<Rightarrow> u64 \<Rightarrow> u32" where
  "max_context md total_ram model_bytes =
     (let kv = estimate_kv_per_token md
      in if 0 < kv then ucast (available_for_kv total_ram model_bytes div kv) else mm_context_length md)"

definition estimate_performance :: "gguf_file \<Rightarrow> model_metadata \<Rightarrow> hardware_profile \<Rightarrow> placement_plan \<Rightarrow> hypura_estimate" where
  "estimate_performance gguf md hw plan =
     (let m = pp_tier_assignments plan;
          (total_latency, nvme_bytes) = est_latency m (gf_tensors gguf) md hw;
          interactive = (if f_lt (Fin 0) total_latency then f_div (Fin 1) total_latency else Fin 0)
      in \<lparr>he_model_id = pp_model_id plan, he_tok_per_sec_interactive = interactive,
          he_tok_per_sec_batched = f_mul (f_mul interactive (Fin 8)) (rnd (7 / 10)),
          he_placement_summary = summarize_placement m (gf_tensors gguf),
          he_max_context_before_spill = max_context md (mp_total_bytes (hw_memory hw)) (total_tensor_bytes gguf),
          he_disk_read_per_token_bytes = f_to_word nvme_bytes,
          he_experience_tier = from_tok_per_sec interactive, he_confidence = Predicted\<rparr>)"

section \<open>Quantities that are not negative\<close>

definition f_ge0 :: "f64 \<Rightarrow> bool" where
  "f_ge0 x \<longleftrightarrow> (case x of Fin r \<Rightarrow> 0 \<le> r | NegInf \<Rightarrow> False | _ \<Rightarrow> True)"

lemma f_ge0_rnd: "0 \<le> r \<Longrightarrow> f_ge0 (rnd r)"
  by (auto simp: rnd_def f_ge0_def Let_def round_mag_nonneg)

lemma f_ge0_add: "f_ge0 a \<Longrightarrow> f_ge0 b \<Longrightarrow> f_ge0 (f_add a b)"
  by (cases a; cases b) (auto simp: f_ge0_rnd f_ge0_def [of "Fin _"], auto simp: f_ge0_def)

lemma f_ge0_mul: "f_ge0 a \<Longrightarrow> f_ge0 b \<Longrightarrow> f_ge0 (f_mul a b)"
  by (cases a; cases b) (auto simp: f_ge0_rnd f_inf_def f_ge0_def [of "Fin _"], auto simp: f_ge0_def f_inf_def)

lemma f_ge0_div: "f_ge0 a \<Longrightarrow> f_ge0 b \<Longrightarrow> f_ge0 (f_div a b)"
  by (cases a; cases b) (auto simp: f_ge0_rnd f_inf_def f_ge0_def [of "Fin _"], auto simp: f_ge0_def f_inf_def)

lemma f_ge0_of_word: "f_ge0 (f_of_word w)"
  unfolding f_of_word_def f_of_nat_def by (rule f_ge0_rnd) (rule of_nat_0_le_iff)

lemma hidden_io: "f_ge0 prev \<Longrightarrow> f_max (f_sub (Fin 0) prev) (Fin 0) = Fin 0"
proof (cases prev)
  case (Fin r)
  assume "f_ge0 prev"
  with Fin have r: "0 \<le> r" by (simp add: f_ge0_def)
  have "f_max (rnd (- r)) (Fin 0) = Fin 0"
  proof (cases "r = 0")
    case False
    then show ?thesis using r round_mag_nonneg [of r] by (auto simp: rnd_def Let_def f_max_def)
  qed (simp add: f_max_def)
  then show ?thesis using Fin by (simp add: f_sub_def)
qed (auto simp: f_ge0_def f_sub_def f_max_def)

lemma f_ge0_role_freq: "f_ge0 (role_freq md t)"
  by (auto simp: role_freq_def access_frequency_def f_ge0_div f_ge0_of_word) (simp_all add: f_ge0_def)

lemma f_ge0_transfer: "f_ge0 bw \<Longrightarrow> f_ge0 (transfer t (role_freq md t) bw)"
  unfolding transfer_def by (intro f_ge0_div f_ge0_mul f_ge0_of_word f_ge0_role_freq)

lemma f_ge0_gpu_bandwidth: "f_ge0 (gpu_bandwidth hw)"
  by (auto simp: gpu_bandwidth_def f_ge0_of_word split: option.split) (simp add: f_ge0_def)

section \<open>Plans without NVMe\<close>

text \<open>Without NVMe tensors the two estimates walk over the layers in step.\<close>

lemma est_fold_resident:
  assumes "\<And>t. t \<in> set ts \<Longrightarrow> tier_of m (ti_name t) \<noteq> Nvme"
  shows "fold (est_step m md gbw rbw nbw prev) ts (c, io, nb) = (fst (fold (layer_step m md gbw rbw nbw) ts (c, io)), io, nb) \<and>
    snd (fold (layer_step m md gbw rbw nbw) ts (c, io)) = io"
  using assms
proof (induction ts arbitrary: c)
  case (Cons t ts)
  have "tier_of m (ti_name t) \<noteq> Nvme" using Cons.prems by simp
  then have "\<exists>c'. est_step m md gbw rbw nbw prev t (c, io, nb) = (c', io, nb) \<and> layer_step m md gbw rbw nbw t (c, io) = (c', io)"
    by (cases "tier_of m (ti_name t)") (simp_all add: est_step_def layer_step_def Let_def)
  with Cons.IH Cons.prems show ?case by auto
qed simp

lemma layer_compute_ge0:
  assumes "f_ge0 gbw" "f_ge0 rbw" "f_ge0 c"
  shows "f_ge0 (fst (fold (layer_step m md gbw rbw nbw) ts (c, io)))"
  using assms(3)
proof (induction ts arbitrary: c io)
  case (Cons t ts)
  obtain c' io' where s: "layer_step m md gbw rbw nbw t (c, io) = (c', io')" by fastforce
  then have "c' = c \<or> c' = f_add c (transfer t (role_freq md t) gbw) \<or> c' = f_add c (transfer t (role_freq md t) rbw)"
    by (auto simp: layer_step_def Let_def split: storage_tier.splits)
  then have "f_ge0 c'" using assms(1,2) Cons.prems by (auto intro: f_ge0_add f_ge0_transfer)
  with Cons.IH s show ?case by simp
qed simp

lemma est_layers_resident:
  assumes "\<And>t. t \<in> set ts \<Longrightarrow> tier_of m (ti_name t) \<noteq> Nvme" "\<And>i. i \<in> set idxs \<Longrightarrow> named_tensors ts i = layer_tensors ts i"
    "f_ge0 gbw" "f_ge0 rbw" "f_ge0 prev"
  shows "est_layers m ts md gbw rbw nbw idxs tot nb prev = (estimate_layers m ts md gbw rbw nbw idxs tot prev, nb)"
  using assms(2,5)
proof (induction idxs arbitrary: tot prev)
  case (Cons i idxs)
  let ?f = "fold (layer_step m md gbw rbw nbw) (layer_tensors ts i) (Fin 0, Fin 0)"
  have "tier_of m (ti_name t) \<noteq> Nvme" if "t \<in> set (layer_tensors ts i)" for t using that assms(1) by (simp add: layer_tensors_def)
  note r = est_fold_resident [OF this, of "layer_tensors ts i" md gbw rbw nbw prev "Fin 0" "Fin 0" nb]
  have g: "f_ge0 (fst ?f)" by (rule layer_compute_ge0 [OF assms(3,4)]) (simp add: f_ge0_def)
  obtain c where c: "?f = (c, Fin 0)" using r by (cases ?f) simp
  have n: "named_tensors ts i = layer_tensors ts i" using Cons.prems(1) by simp
  have IH: "est_layers m ts md gbw rbw nbw idxs tot' nb c = (estimate_layers m ts md gbw rbw nbw idxs tot' c, nb)" for tot'
    using Cons.IH [of c tot'] Cons.prems(1) g c by simp
  show ?case using r c n IH hidden_io [OF Cons.prems(2)] by simp
qed simp

lemma est_non_layer_resident:
  assumes "\<And>t. t \<in> set ts \<Longrightarrow> tier_of m (ti_name t) \<noteq> Nvme"
  shows "fold (est_non_layer m md gbw rbw nbw) ts (tot, nb) =
    (foldl (\<lambda>acc t. f_add acc (non_layer_transfer m md gbw rbw nbw t)) tot ts, nb)"
  using assms by (induction ts arbitrary: tot) (auto simp: est_non_layer_def)

section \<open>Where the estimate parts from the plan\<close>

text \<open>The compute time of the previous layer is credited to every tensor anew: any number of tensors
  whose transfer takes no longer is free.\<close>

lemma each_tensor_hidden: "prev \<noteq> NaN \<Longrightarrow> fold (visible_io prev) (replicate n prev) layer_io = layer_io"
  by (induction n) (simp_all add: visible_io_def f_le_refl)

text \<open>A layer tensor with another prefix is counted neither with its layer nor with the tensors
  outside the layers.\<close>

lemma other_layer_names_ignored:
  "let t = mk_tensor_info ''layers.0.ffn_up.weight'' [4096] 0 0
   in ti_layer_index t = Some 0 \<and> named_tensors [t] 0 = [] \<and> filter (\<lambda>t. ti_layer_index t = None) [t] = []"
  by code_simp

section \<open>Properties\<close>


definition demo_est_gguf :: gguf_file where
  "demo_est_gguf = \<lparr>gf_version = 3, gf_metadata = [], gf_tensors = [mk_tensor_info ''blk.0.ffn_up.weight'' [4096] 0 0,
     mk_tensor_info ''output.weight'' [4096] 0 16384], gf_data_offset = 32\<rparr>"

definition demo_est_plan :: placement_plan where
  "demo_est_plan = \<lparr>pp_model_id = ''demo'', pp_hardware_profile_hash = [],
     pp_tier_assignments = [(''blk.0.ffn_up.weight'', Gpu), (''output.weight'', Ram)],
     pp_prefetch_schedule = \<lparr>ps_layer_prefetches = []\<rparr>, pp_estimated_tok_per_sec = Fin 0, pp_estimated_time_to_first_token = Fin 0,
     pp_kv_cache_plan = \<lparr>kp_hot_window_tokens = 0, kp_warm_window_tokens = 0, kp_hot_tier = Gpu, kp_warm_tier = Ram,
       kp_hot_bytes = 0, kp_warm_bytes = 0, kp_kv_quantization = None\<rparr>,
     pp_experience_tier = Fast, pp_inference_mode = FullResident\<rparr>"

lemma demo_est_tensors:
  "\<forall>t \<in> set (gf_tensors demo_est_gguf). tier_of (pp_tier_assignments demo_est_plan) (ti_name t) \<noteq> Nvme"
  "named_tensors (gf_tensors demo_est_gguf) 0 = layer_tensors (gf_tensors demo_est_gguf) 0"
  by code_simp+


text \<open>The context limit is safe: the key/value cache of the promised number of tokens, together with the
  resident part of the model, fits the memory of the machine.\<close>

theorem max_context_fits:
  assumes "estimate_kv_per_token md \<noteq> 0"
  shows "unat (max_context md total_ram model_bytes) * unat (estimate_kv_per_token md) +
    unat (min model_bytes (saturating_sub total_ram est_os_overhead)) \<le> unat total_ram"
proof -
  let ?kv = "estimate_kv_per_token md" and ?a = "available_for_kv total_ram model_bytes"
  have "unat (ucast (?a div ?kv) :: u32) \<le> unat (?a div ?kv)" by (simp add: unsigned_ucast_eq)
  also have "\<dots> = unat ?a div unat ?kv" by (simp add: unat_div)
  finally have "unat (max_context md total_ram model_bytes) * unat ?kv \<le> unat ?a div unat ?kv * unat ?kv"
    using assms by (simp add: max_context_def Let_def word_neq_0_conv [symmetric])
  also have "\<dots> \<le> unat ?a" by (rule div_times_less_eq_dividend)
  also have "\<dots> = unat total_ram - unat (min model_bytes (saturating_sub total_ram est_os_overhead))"
    by (simp add: available_for_kv_def unat_saturating_sub)
  finally show ?thesis
    using saturating_sub_le [of total_ram est_os_overhead] by (simp add: word_le_nat_alt unat_min)
qed

theorem max_context_fits_witness:
  "let kv = estimate_kv_per_token moe_md in kv \<noteq> 0 \<and>
     unat (max_context moe_md (32 * 2 ^ 30) (8 * 2 ^ 30)) * unat kv + 8 * 2 ^ 30 \<le> 32 * 2 ^ 30"
proof -
  have "estimate_kv_per_token moe_md \<noteq> 0" by code_simp
  from max_context_fits [OF this, of "32 * 2 ^ 30" "8 * 2 ^ 30"] this show ?thesis
    by (simp add: est_os_overhead_def saturating_sub_def)
qed

end
