(* ===== verification/Reports.thy ===== *)
theory Reports
  imports Cli Estimator Session
begin

text \<open>
  What the commands print, as lists of lines: the header and statistics of \<open>cli/run.rs\<close> and
  \<open>cli/bench.rs\<close>, the reports of \<open>cli/inspect.rs\<close>, \<open>cli/profile.rs\<close> and \<open>cli/estimate.rs\<close>.  The lemmas
  say that the reports show what the plan and the estimate hold.
\<close>

section \<open>Debug names\<close>

text \<open>\<open>quote\<close> is the escaping of a text by \<open>\{:?\}\<close>.\<close>

fun role_debug :: "(string \<Rightarrow> string) \<Rightarrow> tensor_role \<Rightarrow> string" where
  "role_debug quote Embedding = ''Embedding''"
| "role_debug quote AttentionQuery = ''AttentionQuery''"
| "role_debug quote AttentionKey = ''AttentionKey''"
| "role_debug quote AttentionValue = ''AttentionValue''"
| "role_debug quote AttentionOutput = ''AttentionOutput''"
| "role_debug quote FfnGate = ''FfnGate''"
| "role_debug quote FfnUp = ''FfnUp''"
| "role_debug quote FfnDown = ''FfnDown''"
| "role_debug quote MoeRouter = ''MoeRouter''"
| "role_debug quote (MoeExpert e) = ''MoeExpert { expert_id: '' @ dec_word e @ '' }''"
| "role_debug quote MoeFusedExperts = ''MoeFusedExperts''"
| "role_debug quote Norm = ''Norm''"
| "role_debug quote OutputHead = ''OutputHead''"
| "role_debug quote (Other s) = ''Other('' @ quote s @ '')''"

fun tier_debug :: "storage_tier \<Rightarrow> string" where
  "tier_debug Gpu = ''Gpu''"
| "tier_debug Ram = ''Ram''"
| "tier_debug Nvme = ''Nvme''"

fun backend_debug :: "gpu_backend \<Rightarrow> string" where
  "backend_debug Metal = ''Metal''"
| "backend_debug Cuda = ''Cuda''"
| "backend_debug Rocm = ''Rocm''"
| "backend_debug NoBackend = ''None''"

fun storage_debug :: "storage_type \<Rightarrow> string" where
  "storage_debug NvmePcie = ''NvmePcie''"
| "storage_debug Sata = ''Sata''"
| "storage_debug UnknownStorage = ''Unknown''"

fun confidence_name :: "estimate_confidence \<Rightarrow> string" where
  "confidence_name Measured = ''Measured''"
| "confidence_name Predicted = ''Predicted''"
| "confidence_name Interpolated = ''Interpolated''"

section \<open>Tiers\<close>

text \<open>One line per tier that holds bytes, as \<open>run\<close> and as \<open>estimate\<close> print them.\<close>

definition run_tier_line :: "string \<Rightarrow> u64 \<Rightarrow> u32 \<Rightarrow> string \<Rightarrow> string list" where
  "run_tier_line label total_n layers extra =
     (if 0 < total_n then [label @ format_bytes total_n @ '' ('' @ dec_word layers @ '' layers'' @ extra @ '')''] else [])"

definition estimate_tier_line :: "string \<Rightarrow> u64 \<Rightarrow> u32 \<Rightarrow> string list" where
  "estimate_tier_line label total_n layers =
     (if 0 < total_n then [label @ pad_left 10 (format_bytes total_n) @ ''   ('' @ dec_word layers @ '' layers)''] else [])"

definition placement_header :: "placement_summary \<Rightarrow> placement_plan \<Rightarrow> i32 \<Rightarrow> string list" where
  "placement_header sm plan n_gpu_layers =
     [[], ''Hypura: Loading model'', rule_line 48] @
     run_tier_line ''  GPU (Metal):  '' (sm_total_gpu_bytes sm) (sm_layers_on_gpu sm) ('', n_gpu_layers='' @ dec_i32 n_gpu_layers) @
     run_tier_line ''  RAM:          '' (sm_total_ram_bytes sm) (sm_layers_in_ram sm) [] @
     run_tier_line ''  NVMe:         '' (sm_total_nvme_bytes sm) (sm_layers_on_nvme sm) [] @
     [''  Experience:   '' @ tier_label (pp_experience_tier plan) @ '' '' @ em_dash @ '' '' @ tier_description (pp_experience_tier plan)]"

definition nvme_notice :: "placement_plan \<Rightarrow> string list" where
  "nvme_notice plan = (if has_nvme plan
     then [''  NVMe scheduling: ENABLED ('' @ dec (nvme_count plan) @ '' tensors on SSD)''] else [])"

section \<open>Statistics of a run\<close>

definition prompt_rate :: "generation_result \<Rightarrow> f64" where
  "prompt_rate r =
     (if f_lt (Fin 0) (gr_prompt_eval_ms r)
      then f_div (f_of_word (gr_prompt_tokens r)) (f_div (gr_prompt_eval_ms r) (Fin 1000)) else Fin 0)"

definition generation_stats :: "generation_result \<Rightarrow> string list" where
  "generation_stats r =
     [''Generation complete:'',
      ''  Prompt tokens:      '' @ dec_word (gr_prompt_tokens r),
      ''  Generated tokens:   '' @ dec_word (gr_tokens_generated r),
      ''  Prompt eval:        '' @ fixed 1 (gr_prompt_eval_ms r) @ '' ms ('' @ fixed 1 (prompt_rate r) @ '' tok/s)'',
      ''  Generation:         '' @ fixed 1 (gr_tok_per_sec_avg r) @ '' tok/s (avg)'']"

definition bench_run_lines :: "generation_result \<Rightarrow> f64 \<Rightarrow> string list" where
  "bench_run_lines r wall_ms =
     [''    Prompt eval:    '' @ fixed 1 (f_div (gr_prompt_eval_ms r) (Fin 1000)) @ ''s ('' @ fixed 1 (prompt_rate r) @ '' tok/s)'',
      ''    Generation:     '' @ fixed 1 (gr_tok_per_sec_avg r) @ '' tok/s ('' @ dec_word (gr_tokens_generated r) @ '' tokens)'',
      ''    Wall time:      '' @ fixed 1 (f_div wall_ms (Fin 1000)) @ ''s'',
      []]"

definition bench_header :: "string \<Rightarrow> prepared \<Rightarrow> u32 \<Rightarrow> u32 \<Rightarrow> string list" where
  "bench_header filename p context max_tokens =
     (let md = pr_metadata p; sm = pr_summary p
      in [[], ''Hypura Benchmark: '' @ filename, rule_line 56,
          ''  Model: '' @ mm_architecture md @ '' ('' @ format_params (mm_parameter_count md) @ '' params, ''
            @ unwrap_or (mm_quantization md) ''unknown'' @ '', '' @ format_bytes (total_tensor_bytes (pr_gguf p)) @ '')'',
          ''  Hardware: '' @ cp_model_name (hw_cpu (pr_hardware p)) @ '', ''
            @ format_bytes (mp_total_bytes (hw_memory (pr_hardware p))) @ '' unified'',
          ''  Placement: '' @ format_bytes (sm_total_gpu_bytes sm) @ '' GPU | '' @ format_bytes (sm_total_ram_bytes sm)
            @ '' RAM | '' @ format_bytes (sm_total_nvme_bytes sm) @ '' NVMe'',
          ''  Config: context='' @ dec_word context @ '', max_tokens='' @ dec_word max_tokens @ '', n_gpu_layers=''
            @ dec_i32 (pr_n_gpu_layers p), []])"

definition speedup_lines :: "generation_result option \<Rightarrow> generation_result \<Rightarrow> string list" where
  "speedup_lines base r = (case speedup_of base r of
      None \<Rightarrow> []
    | Some x \<Rightarrow> [[], ''  Speedup: '' @ fixed 1 x @ ''x (generation tok/s)''])"

section \<open>Inspecting a file\<close>

datatype inspect_error = NotFound | SafetensorsUnsupported | UnsupportedFormat string | InspectFailed gguf_error

text \<open>The extension of the last part of a path: what follows its last dot, unless the part starts
  with that dot.\<close>

definition extension :: "string \<Rightarrow> string option" where
  "extension file_name = (if file_name = ''..'' then None else case rfind_char (CHR ''.'') file_name of
      None \<Rightarrow> None
    | Some i \<Rightarrow> if i = 0 then None else Some (drop (Suc i) file_name))"

definition moe_text :: "model_metadata \<Rightarrow> string \<Rightarrow> string" where
  "moe_text md active = dec_word (unwrap_or (mm_num_experts md) 0) @ '' experts, ''
     @ dec_word (unwrap_or (mm_num_experts_used md) 0) @ active"

definition tensor_row :: "(string \<Rightarrow> string) \<Rightarrow> tensor_info \<Rightarrow> string" where
  "tensor_row quote t = ''  '' @ pad_right 50 (ti_name t) @ '' '' @ pad_left 12 (format_bytes (ti_size_bytes t)) @ '' ''
     @ pad_left 8 (ggml_debug (ti_dtype t)) @ '' '' @ pad_left 10 (role_debug quote (role_from_name (ti_name t)))"

definition inspect_lines :: "(string \<Rightarrow> string) \<Rightarrow> string \<Rightarrow> bool \<Rightarrow> gguf_file \<Rightarrow> model_metadata \<Rightarrow> string list" where
  "inspect_lines quote path show_tensors gguf md =
     [''Model: '' @ path,
      ''  Format: GGUF v'' @ dec_word (gf_version gguf),
      ''  Architecture: '' @ mm_architecture md,
      ''  Parameters: '' @ format_params (mm_parameter_count md),
      ''  Layers: '' @ dec_word (mm_num_layers md),
      ''  Embedding dim: '' @ dec_word (mm_embedding_dim md),
      ''  Attention heads: '' @ dec_word (mm_num_heads md),
      ''  KV heads: '' @ dec_word (mm_num_kv_heads md),
      ''  Vocab size: '' @ dec_word (mm_vocab_size md),
      ''  Context length: '' @ dec_word (mm_context_length md)] @
     (case mm_quantization md of None \<Rightarrow> [] | Some q \<Rightarrow> [''  Quantization: '' @ q]) @
     (if mm_is_moe md then [''  MoE: '' @ moe_text md '' active per token''] else []) @
     [''  Total size: '' @ fixed 1 (binary_unit (total_tensor_bytes gguf) 30) @ '' GB'',
      ''  Tensors: '' @ dec (length (gf_tensors gguf))] @
     (if show_tensors
      then [[], ''  '' @ pad_right 50 ''Name'' @ '' '' @ pad_left 12 ''Size'' @ '' '' @ pad_left 8 ''Type'' @ '' '' @ pad_left 10 ''Role'',
            ''  '' @ replicate 84 (CHR ''-'')] @ map (tensor_row quote) (gf_tensors gguf)
      else [])"

text \<open>\<open>file_bytes\<close> is \<open>None\<close> when there is no such file.\<close>

definition inspect :: "((string \<times> u32) list \<Rightarrow> (string \<times> u32) list) \<Rightarrow> allocator \<Rightarrow> (string \<Rightarrow> string) \<Rightarrow> string \<Rightarrow> string \<Rightarrow>
    u8 list option \<Rightarrow> bool \<Rightarrow> inspect_error + string list" where
  "inspect ord alloc quote path file_name file_bytes show_tensors = (case file_bytes of
      None \<Rightarrow> Inl NotFound
    | Some bs \<Rightarrow>
        (let ext = unwrap_or (extension file_name) []
         in if ext = ''gguf'' then (case parse alloc bs of
                Inl e \<Rightarrow> Inl (InspectFailed e)
              | Inr gguf \<Rightarrow> Inr (inspect_lines quote path show_tensors gguf (from_gguf ord gguf)))
            else if ext = ''safetensors'' then Inl SafetensorsUnsupported
            else Inl (UnsupportedFormat ext)))"

section \<open>The hardware profile\<close>

definition peak_block :: "bandwidth_curve \<Rightarrow> u64" where
  "peak_block c = unwrap_or (map_option fst (max_by_key snd (bc_points c))) 0"

definition storage_lines :: "storage_profile \<Rightarrow> string list" where
  "storage_lines sp =
     [[], ''  Storage ('' @ sp_mount_point sp @ '')'',
      ''    Type:        '' @ storage_debug (sp_device_type sp),
      ''    Capacity:    '' @ format_bytes (sp_capacity_bytes sp) @ '' ('' @ format_bytes (sp_free_bytes sp) @ '' free)'',
      ''    Sequential:  '' @ format_bandwidth (bc_peak_sequential (sp_sequential_read sp)) @ '' (peak @ ''
        @ format_bytes (peak_block (sp_sequential_read sp)) @ '' blocks)'',
      ''    Random 4K:   '' @ format_iops (sp_random_read_iops sp) @ '' IOPS'']"

definition gpu_lines :: "bool \<Rightarrow> gpu_profile \<Rightarrow> string list" where
  "gpu_lines unified g =
     [[], ''  GPU ('' @ backend_debug (gp_backend g) @ '')'',
      ''    Name:        '' @ gp_name g,
      ''    VRAM:        '' @ format_bytes (gp_vram_bytes g) @ (if unified then '' (shared)'' else []),
      ''    Bandwidth:   '' @ format_bandwidth (gp_bandwidth_bytes_per_sec g),
      ''    FP16:        '' @ fixed 1 (gp_fp16_tflops g) @ '' TFLOPS'']"

definition profile_lines :: "hardware_profile \<Rightarrow> string list" where
  "profile_lines p =
     (let sy = hw_system p; cpu = hw_cpu p; mem = hw_memory p
      in [[], ''Hardware Profile ('' @ hw_timestamp p @ '')'', rule_line 48, [],
          ''  System'',
          ''    Machine:     '' @ si_machine_model sy @ '' ('' @ si_os sy @ '' '' @ si_arch sy @ '')'',
          ''    CPU:         '' @ cp_model_name cpu @ '' ('' @ dec_word (cp_cores_performance cpu) @ ''P + ''
            @ dec_word (cp_cores_efficiency cpu) @ ''E cores)'', [],
          ''  Memory'',
          ''    Total:       '' @ format_bytes (mp_total_bytes mem) @ (if mp_is_unified mem then '' (unified)'' else []),
          ''    Available:   '' @ format_bytes (mp_available_bytes mem),
          ''    Bandwidth:   '' @ format_bandwidth (mp_bandwidth_bytes_per_sec mem)]
         @ (case hw_gpu p of None \<Rightarrow> [] | Some g \<Rightarrow> gpu_lines (mp_is_unified mem) g)
         @ concat (map storage_lines (hw_storage p)))"

text \<open>The command prints the cached profile, or makes one; a cache that cannot be read is ignored here.\<close>

definition profile_command :: "bool \<Rightarrow> int \<Rightarrow> (int \<times> hardware_profile) option option \<Rightarrow> string option \<Rightarrow> probe \<Rightarrow>
    string list option outcome" where
  "profile_command force now cached saved_path pb =
     (let again = omap (\<lambda>r. case (r, saved_path) of
            (Some p, Some path) \<Rightarrow> Some (''Running hardware profiler...'' # profile_lines p @ [[], ''Saved to '' @ path])
          | _ \<Rightarrow> None) (run_full_profile pb)
      in if force then again
         else case cached of
           Some (Some (timestamp, p)) \<Rightarrow>
             (if \<not> is_profile_stale now timestamp
              then Ret (Some (profile_lines p @ [[], ''Profile is up to date. Use --force to re-profile.'']))
              else omap (map_option (\<lambda>ls. ''Profile is stale (>30 days). Re-profiling...'' # ls)) again)
         | _ \<Rightarrow> again)"

section \<open>The estimate\<close>

definition window_line :: "string \<Rightarrow> u32 \<Rightarrow> storage_tier \<Rightarrow> string \<Rightarrow> u64 \<Rightarrow> string" where
  "window_line label tokens tier kind total_n =
     label @ dec_word tokens @ '' tokens ('' @ tier_debug tier @ kind @ format_bytes total_n"

definition estimate_lines :: "string \<Rightarrow> gguf_file \<Rightarrow> model_metadata \<Rightarrow> placement_plan \<Rightarrow> hypura_estimate \<Rightarrow> string list" where
  "estimate_lines filename gguf md plan est =
     (let sm = summarize_placement (pp_tier_assignments plan) (gf_tensors gguf); kv = pp_kv_cache_plan plan
      in [[], ''Hypura Estimate: '' @ filename, rule_line 48, [],
          ''  Model'',
          ''    Architecture:   '' @ mm_architecture md @ '' ('' @ format_params (mm_parameter_count md) @ '' params)''] @
         (case mm_quantization md of None \<Rightarrow> [] | Some q \<Rightarrow> [''    Quantization:   '' @ q]) @
         [''    Size:           '' @ format_bytes (total_tensor_bytes gguf),
          ''    Context:        '' @ dec_word (mm_context_length md) @ '' tokens''] @
         (if mm_is_moe md then [''    MoE:            '' @ moe_text md '' active''] else []) @
         [[], ''  Placement Plan''] @
         estimate_tier_line ''    GPU (Metal):    '' (sm_total_gpu_bytes sm) (sm_layers_on_gpu sm) @
         estimate_tier_line ''    RAM:            '' (sm_total_ram_bytes sm) (sm_layers_in_ram sm) @
         estimate_tier_line ''    NVMe:           '' (sm_total_nvme_bytes sm) (sm_layers_on_nvme sm) @
         [[], ''  KV Cache'',
          window_line ''    Hot window:     '' (kp_hot_window_tokens kv) (kp_hot_tier kv) '', FP16)    '' (kp_hot_bytes kv),
          window_line ''    Warm window:    '' (kp_warm_window_tokens kv) (kp_warm_tier kv) '', Q8)      '' (kp_warm_bytes kv),
          ''    Spill context:  >'' @ dec_word (he_max_context_before_spill est) @ '' tokens'', [],
          ''  Performance Estimate'',
          ''    Interactive:    '' @ fixed 1 (he_tok_per_sec_interactive est) @ '' tok/s        ['' @ tier_label (he_experience_tier est) @ '']'',
          ''    Batched (x8):   '' @ fixed 1 (he_tok_per_sec_batched est) @ '' tok/s''] @
         (if 0 < he_disk_read_per_token_bytes est
          then [''    Disk I/O:       '' @ format_bytes (he_disk_read_per_token_bytes est) @ ''/token''] else []) @
         [''    Confidence:     '' @ confidence_name (he_confidence est), [],
          ''  Experience: '' @ tier_label (he_experience_tier est) @ '' '' @ em_dash @ '' '' @ tier_description (he_experience_tier est)])"

definition estimate_command ::
  "solver \<Rightarrow> ((string \<times> u32) list \<Rightarrow> (string \<times> u32) list) \<Rightarrow> string \<Rightarrow> allocator \<Rightarrow> hardware_profile option outcome \<Rightarrow>
   u8 list option \<Rightarrow> string \<Rightarrow> string list option outcome" where
  "estimate_command solve ord json alloc profile file_bytes filename = (case file_bytes of
      None \<Rightarrow> Ret None
    | Some bs \<Rightarrow> obind profile (\<lambda>p. case p of
        None \<Rightarrow> Ret None
      | Some hw \<Rightarrow> (case parse alloc bs of
          Inl _ \<Rightarrow> Ret None
        | Inr gguf \<Rightarrow> (let md = from_gguf ord gguf in omap (\<lambda>plan.
            Some (estimate_lines filename gguf md plan (estimate_performance gguf md hw plan)))
            (compute_placement solve ord json gguf hw)))))"

section \<open>What the reports show\<close>

text \<open>The block size printed beside the peak of a measured curve is one that reached it.\<close>

lemma peak_block_of_benchmark:
  assumes "benchmark_sequential file_n env = Some c" "bc_points c \<noteq> []"
  shows "(peak_block c, bc_peak_sequential c) \<in> set (bc_points c)"
proof -
  obtain m where m: "max_by_key snd (bc_points c) = Some m" using assms(2) by (cases "max_by_key snd (bc_points c)") simp_all
  then have top: "m \<in> set (bc_points c)" "\<forall>x \<in> set (bc_points c). snd x \<le> snd m" using max_by_key_Some [OF m] by simp_all
  then have "Max (insert 0 (snd ` set (bc_points c))) = snd m" by (intro Max_eqI) auto
  with top(1) show ?thesis using m benchmark_curve(2) [OF assms(1)] by (simp add: peak_block_def)
qed

text \<open>The estimate prints FP16 for the hot window, whatever quantization the plan has chosen.\<close>

lemma hot_window_says_fp16:
  "estimate_lines filename gguf md (plan\<lparr>pp_kv_cache_plan := (pp_kv_cache_plan plan)\<lparr>kp_kv_quantization := q\<rparr>\<rparr>) est
     = estimate_lines filename gguf md plan est"
  by (simp add: estimate_lines_def Let_def)

text \<open>A size just below a unit is printed as 1024 of the unit below.\<close>

lemma size_below_unit: "unat b = 2 ^ 30 - 1 \<Longrightarrow> format_bytes b = fixed 1 (binary_unit b 20) @ '' MB''"
  by (simp add: format_bytes_def)

end
