(* ===== verification/Requests.thy ===== *)
theory Requests
  imports Server
begin

text \<open>
  Several requests at once (\<open>generate_handler\<close> and \<open>chat_handler\<close> of \<open>server/routes.rs\<close>): every request
  runs in a thread of its own, which locks the mutex around the loaded model for the whole
  generation.  A panic of the generation poisons the mutex, and the threads that lock it later
  panic at once, without a token and without a result.  The theorem says that the server is
  serializable; what the client of one request sees of its tokens and result is the subject of
  \<open>Server\<close>.
\<close>

section \<open>Requests\<close>

record job =
  jb_prompt :: string
  jb_sampling :: sampling_params
  jb_stream :: bool

definition generate_job :: "generate_request \<Rightarrow> job" where
  "generate_job req = \<lparr>jb_prompt = rq_prompt req, jb_sampling = build_sampling (unwrap_or (rq_options req) options_default),
     jb_stream = unwrap_or (rq_stream req) True\<rparr>"

definition chat_job :: "chat_request \<Rightarrow> job" where
  "chat_job req = \<lparr>jb_prompt = format_chat_prompt (cr_messages req),
     jb_sampling = build_sampling (unwrap_or (cr_options req) options_default), jb_stream = unwrap_or (cr_stream req) True\<rparr>"

text \<open>A generation: the tokens it sends, the model after it, and a result, an error (\<open>Some None\<close>) or a
  panic (\<open>None\<close>).\<close>

type_synonym 'm serve = "job \<Rightarrow> 'm \<Rightarrow> generated_token list \<times> 'm \<times> generation_result option option"

datatype phase = Waiting | Running | Answered "generated_token list" "generation_result option"

record 'm server_state =
  sv_jobs :: "job list"
  sv_phases :: "phase list"
  sv_model :: 'm
  sv_poisoned :: bool

definition server_start :: "'m \<Rightarrow> 'm server_state" where
  "server_start m = \<lparr>sv_jobs = [], sv_phases = [], sv_model = m, sv_poisoned = False\<rparr>"

definition unlocked :: "'m server_state \<Rightarrow> bool" where
  "unlocked s \<longleftrightarrow> list_all (\<lambda>p. p \<noteq> Running) (sv_phases s)"

inductive work_step :: "'m serve \<Rightarrow> 'm server_state \<Rightarrow> 'm server_state \<Rightarrow> bool" for serve where
  lock: "i < length (sv_phases s) \<Longrightarrow> sv_phases s ! i = Waiting \<Longrightarrow> unlocked s \<Longrightarrow> \<not> sv_poisoned s \<Longrightarrow>
    work_step serve s (s\<lparr>sv_phases := (sv_phases s)[i := Running]\<rparr>)"
| finish: "i < length (sv_phases s) \<Longrightarrow> sv_phases s ! i = Running \<Longrightarrow> serve (sv_jobs s ! i) (sv_model s) = (ts, m, Some result) \<Longrightarrow>
    work_step serve s (s\<lparr>sv_phases := (sv_phases s)[i := Answered ts result], sv_model := m\<rparr>)"
| panic: "i < length (sv_phases s) \<Longrightarrow> sv_phases s ! i = Running \<Longrightarrow> serve (sv_jobs s ! i) (sv_model s) = (ts, m, None) \<Longrightarrow>
    work_step serve s (s\<lparr>sv_phases := (sv_phases s)[i := Answered ts None], sv_model := m, sv_poisoned := True\<rparr>)"
| refused: "i < length (sv_phases s) \<Longrightarrow> sv_phases s ! i = Waiting \<Longrightarrow> unlocked s \<Longrightarrow> sv_poisoned s \<Longrightarrow>
    work_step serve s (s\<lparr>sv_phases := (sv_phases s)[i := Answered [] None]\<rparr>)"

inductive server_step :: "'m serve \<Rightarrow> 'm server_state \<Rightarrow> 'm server_state \<Rightarrow> bool" for serve where
  arrive: "server_step serve s (s\<lparr>sv_jobs := sv_jobs s @ [j], sv_phases := sv_phases s @ [Waiting]\<rparr>)"
| work: "work_step serve s s' \<Longrightarrow> server_step serve s s'"

text \<open>What the handler sends for the tokens and the result of its request: a stream, which goes on as in
  \<open>stream_step\<close>, or one answer.\<close>

datatype 'c reply = Streamed stream_state | Collected 'c

definition generate_reply :: "string \<Rightarrow> string \<Rightarrow> u64 \<Rightarrow> u64 \<Rightarrow> job \<Rightarrow> generated_token list \<Rightarrow> generation_result option \<Rightarrow>
    generate_chunk reply" where
  "generate_reply model now total_ns load_ns j ts result =
     (if jb_stream j then Streamed (stream_start ts) else Collected (collect_generate model now total_ns load_ns ts result))"

definition chat_reply :: "string \<Rightarrow> string \<Rightarrow> u64 \<Rightarrow> u64 \<Rightarrow> job \<Rightarrow> generated_token list \<Rightarrow> generation_result option \<Rightarrow>
    chat_chunk reply" where
  "chat_reply model now total_ns load_ns j ts result =
     (if jb_stream j then Streamed (stream_start ts) else Collected (collect_chat model now total_ns load_ns ts result))"

section \<open>One request after another\<close>

type_synonym 'm account = "(nat \<times> generated_token list \<times> generation_result option) list \<times> 'm \<times> bool"

definition serve_one :: "'m serve \<Rightarrow> nat \<times> job \<Rightarrow> 'm account \<Rightarrow> 'm account" where
  "serve_one serve x a = (case (x, a) of ((i, j), (answers, m, poisoned)) \<Rightarrow>
     if poisoned then (answers @ [(i, [], None)], m, True)
     else case serve j m of (ts, m', outc) \<Rightarrow> (answers @ [(i, ts, unwrap_or outc None)], m', outc = None))"

definition sequential :: "'m serve \<Rightarrow> (nat \<times> job) list \<Rightarrow> 'm \<Rightarrow> 'm account" where
  "sequential serve xs m = foldl (\<lambda>a x. serve_one serve x a) ([], m, False) xs"

definition in_order :: "'m serve \<Rightarrow> nat list \<Rightarrow> 'm \<Rightarrow> 'm server_state \<Rightarrow> 'm account" where
  "in_order serve order m s = sequential serve (map (\<lambda>i. (i, sv_jobs s ! i)) order) m"

definition serialized :: "'m serve \<Rightarrow> 'm \<Rightarrow> nat list \<Rightarrow> 'm server_state \<Rightarrow> bool" where
  "serialized serve m order s \<longleftrightarrow> length (sv_phases s) = length (sv_jobs s) \<and> distinct order \<and>
     (\<forall>i \<in> set order. i < length (sv_jobs s)) \<and>
     snd (in_order serve order m s) = (sv_model s, sv_poisoned s) \<and>
     (\<forall>i < length (sv_phases s). (\<forall>ts r. sv_phases s ! i = Answered ts r \<longleftrightarrow> (i, ts, r) \<in> set (fst (in_order serve order m s))) \<and>
       (i \<in> set order \<longleftrightarrow> sv_phases s ! i \<noteq> Waiting \<and> sv_phases s ! i \<noteq> Running)) \<and>
     (\<forall>i j. i < length (sv_phases s) \<and> j < length (sv_phases s) \<and> sv_phases s ! i = Running \<and> sv_phases s ! j = Running \<longrightarrow> i = j) \<and>
     (sv_poisoned s \<longrightarrow> unlocked s)"

lemma sequential_snoc: "sequential serve (xs @ [x]) m = serve_one serve x (sequential serve xs m)"
  by (simp add: sequential_def)

lemma answers_fst: "map fst (fst (sequential serve xs m)) = map fst xs"
proof (induction xs rule: rev_induct)
  case Nil
  then show ?case by (simp add: sequential_def)
next
  case (snoc x xs)
  then show ?case by (cases "sequential serve xs m")
      (auto simp: sequential_snoc serve_one_def split: prod.splits)
qed

lemma in_order_fst: "(i, ts, r) \<in> set (fst (in_order serve order m s)) \<Longrightarrow> i \<in> set order"
proof -
  assume "(i, ts, r) \<in> set (fst (in_order serve order m s))"
  then have "i \<in> set (map fst (fst (in_order serve order m s)))" by force
  then show ?thesis by (simp add: in_order_def answers_fst comp_def)
qed

lemma in_order_more:
  "\<forall>i \<in> set order. i < length (sv_jobs s) \<Longrightarrow> in_order serve order m (s\<lparr>sv_jobs := sv_jobs s @ js, sv_phases := ps\<rparr>) = in_order serve order m s"
  unfolding in_order_def by (intro arg_cong2 [where f = "sequential serve"] map_cong) (simp_all add: nth_append)

lemma in_order_frame:
  "sv_jobs s' = sv_jobs s \<Longrightarrow> in_order serve order m s' = in_order serve order m s"
  by (simp add: in_order_def)

text \<open>Answering a request appends it to the order.\<close>

lemma serialized_answer:
  assumes "serialized serve m order s" "i < length (sv_phases s)" "sv_phases s ! i \<in> {Waiting, Running}"
    "serve_one serve (i, sv_jobs s ! i) (in_order serve order m s) = (fst (in_order serve order m s) @ [(i, ts, r)], m', p)"
    "sv_phases s' = (sv_phases s)[i := Answered ts r]" "sv_jobs s' = sv_jobs s" "sv_model s' = m'" "sv_poisoned s' = p"
    "unlocked s'"
  shows "serialized serve m (order @ [i]) s'"
proof -
  have new: "i \<notin> set order" using assms(1-3) by (auto simp: serialized_def)
  have acc: "in_order serve (order @ [i]) m s' = (fst (in_order serve order m s) @ [(i, ts, r)], m', p)"
    using assms(4) by (simp add: in_order_def sequential_snoc assms(6))
  have old: "(i, ts', r') \<notin> set (fst (in_order serve order m s))" for ts' r' using new in_order_fst [of i ts' r' serve order m s] by blast
  have "\<forall>k < length (sv_phases s'). (\<forall>ts' r'. sv_phases s' ! k = Answered ts' r' \<longleftrightarrow> (k, ts', r') \<in> set (fst (in_order serve (order @ [i]) m s'))) \<and>
       (k \<in> set (order @ [i]) \<longleftrightarrow> sv_phases s' ! k \<noteq> Waiting \<and> sv_phases s' ! k \<noteq> Running)"
  proof (intro allI impI)
    fix k assume k: "k < length (sv_phases s')"
    show "(\<forall>ts' r'. sv_phases s' ! k = Answered ts' r' \<longleftrightarrow> (k, ts', r') \<in> set (fst (in_order serve (order @ [i]) m s'))) \<and>
       (k \<in> set (order @ [i]) \<longleftrightarrow> sv_phases s' ! k \<noteq> Waiting \<and> sv_phases s' ! k \<noteq> Running)"
      using assms(1,2) k old new by (cases "k = i") (auto simp: serialized_def acc assms(5))
  qed
  moreover have none: "sv_phases s' ! k \<noteq> Running" if "k < length (sv_phases s')" for k
    using assms(9) that by (auto simp: unlocked_def list_all_length)
  ultimately show ?thesis
    using assms(1,2) new assms(9) unfolding serialized_def by (auto simp: acc assms(5-8) dest: none)
qed

text \<open>The request that runs is the only one.\<close>

lemma unlocked_after:
  assumes "serialized serve m order s" "i < length (sv_phases s)" "sv_phases s ! i = Running"
    "sv_phases s' = (sv_phases s)[i := Answered ts r]"
  shows "unlocked s'"
  using assms unfolding serialized_def unlocked_def list_all_length by (metis length_list_update nth_list_update phase.distinct(5))

lemma unlocked_refused:
  "unlocked s \<Longrightarrow> sv_phases s' = (sv_phases s)[i := Answered ts r] \<Longrightarrow> unlocked s'"
  unfolding unlocked_def list_all_length by (metis length_list_update nth_list_update phase.distinct(5) nth_list_update_neq)

lemma work_step_serialized:
  assumes "work_step serve s s'" "serialized serve m order s"
  shows "\<exists>order'. serialized serve m order' s'"
  using assms
proof (induction rule: work_step.induct)
  case (lock i s)
  let ?s = "s\<lparr>sv_phases := (sv_phases s)[i := Running]\<rparr>"
  have acc: "in_order serve order m ?s = in_order serve order m s" by (rule in_order_frame) simp
  have new: "i \<notin> set order" using lock by (auto simp: serialized_def)
  have idle: "sv_phases s ! k \<noteq> Running" if "k < length (sv_phases s)" for k
    using lock.hyps(3) that by (auto simp: unlocked_def list_all_length)
  have one: "k = i" if "k < length (sv_phases s)" "sv_phases ?s ! k = Running" for k
    using that idle [of k] by (cases "k = i") simp_all
  have answers: "(\<forall>ts r. sv_phases ?s ! k = Answered ts r \<longleftrightarrow> (k, ts, r) \<in> set (fst (in_order serve order m s))) \<and>
      (k \<in> set order \<longleftrightarrow> sv_phases ?s ! k \<noteq> Waiting \<and> sv_phases ?s ! k \<noteq> Running)" if "k < length (sv_phases s)" for k
  proof (cases "k = i")
    case True
    with new lock.hyps(1) in_order_fst [of i _ _ serve order m s] show ?thesis by auto
  next
    case False
    with lock.prems that show ?thesis by (simp add: serialized_def)
  qed
  have "serialized serve m order ?s"
    using lock.prems lock.hyps(4) one answers unfolding serialized_def acc by (simp, metis)
  then show ?case by blast
next
  case (finish i s ts m' result)
  let ?s = "s\<lparr>sv_phases := (sv_phases s)[i := Answered ts result], sv_model := m'\<rparr>"
  have "\<not> sv_poisoned s" using finish by (auto simp: serialized_def unlocked_def list_all_length)
  moreover have "snd (in_order serve order m s) = (sv_model s, sv_poisoned s)" using finish.prems by (simp add: serialized_def)
  ultimately have "serialized serve m (order @ [i]) ?s"
    using finish by (intro serialized_answer [OF finish.prems])
      (auto simp: serve_one_def split: prod.splits intro: unlocked_after [OF finish.prems])
  then show ?case by blast
next
  case (panic i s ts m')
  let ?s = "s\<lparr>sv_phases := (sv_phases s)[i := Answered ts None], sv_model := m', sv_poisoned := True\<rparr>"
  have "\<not> sv_poisoned s" using panic by (auto simp: serialized_def unlocked_def list_all_length)
  moreover have "snd (in_order serve order m s) = (sv_model s, sv_poisoned s)" using panic.prems by (simp add: serialized_def)
  ultimately have "serialized serve m (order @ [i]) ?s"
    using panic by (intro serialized_answer [OF panic.prems])
      (auto simp: serve_one_def split: prod.splits intro: unlocked_after [OF panic.prems])
  then show ?case by blast
next
  case (refused i s)
  let ?s = "s\<lparr>sv_phases := (sv_phases s)[i := Answered [] None]\<rparr>"
  have "snd (in_order serve order m s) = (sv_model s, sv_poisoned s)" using refused.prems by (simp add: serialized_def)
  then have "serialized serve m (order @ [i]) ?s"
    using refused by (intro serialized_answer [OF refused.prems])
      (auto simp: serve_one_def split: prod.splits intro: unlocked_refused)
  then show ?case by blast
qed

lemma reachable_serialized:
  assumes "(server_step serve)\<^sup>*\<^sup>* (server_start m) s"
  shows "\<exists>order. serialized serve m order s"
  using assms
proof (induction rule: rtranclp_induct)
  case base
  then show ?case
    by (intro exI [of _ "[]"]) (simp add: serialized_def server_start_def in_order_def sequential_def)
next
  case (step s s')
  then obtain order where s: "serialized serve m order s" by blast
  from step(2) show ?case
  proof cases
    case (arrive j)
    have acc: "in_order serve order m s' = in_order serve order m s"
      unfolding arrive using s by (intro in_order_more) (simp add: serialized_def)
    have old: "sv_phases s' ! k = sv_phases s ! k" if "k < length (sv_phases s)" for k
      using that by (simp add: arrive nth_append)
    have last: "sv_phases s' ! length (sv_phases s) = Waiting" by (simp add: arrive)
    have "length (sv_phases s) \<notin> set order" using s by (auto simp: serialized_def)
    then have "serialized serve m order s'"
      using s old last in_order_fst [of "length (sv_phases s)" _ _ serve order m s] unfolding serialized_def acc
      by (auto simp: arrive less_Suc_eq unlocked_def)
    then show ?thesis by blast
  next
    case work
    then show ?thesis by (rule work_step_serialized) (rule s)
  qed
qed

section \<open>Every request is answered\<close>

definition phase_work :: "phase \<Rightarrow> nat" where
  "phase_work p = (case p of Waiting \<Rightarrow> 2 | Running \<Rightarrow> 1 | Answered ts r \<Rightarrow> 0)"

definition open_work :: "'m server_state \<Rightarrow> nat" where
  "open_work s = sum_list (map phase_work (sv_phases s))"

lemma open_work_update:
  "i < length ps \<Longrightarrow> phase_work p < phase_work (ps ! i) \<Longrightarrow> sum_list (map phase_work (ps[i := p])) < sum_list (map phase_work ps)"
  by (induction ps arbitrary: i) (auto simp: less_Suc_eq_0_disj split: nat.split)

lemma work_step_less: "work_step serve s s' \<Longrightarrow> open_work s' < open_work s"
  by (induction rule: work_step.induct) (simp_all add: open_work_def open_work_update phase_work_def)

lemma work_run_less: "(work_step serve ^^ n) s s' \<Longrightarrow> open_work s' + n \<le> open_work s"
proof (induction n arbitrary: s')
  case (Suc n)
  then obtain s1 where s1: "(work_step serve ^^ n) s s1" "work_step serve s1 s'" by auto
  from Suc.IH [OF s1(1)] work_step_less [OF s1(2)] show ?case by simp
qed simp

lemma open_work_bound: "open_work s \<le> 2 * length (sv_phases s)"
proof -
  have "sum_list (map phase_work ps) \<le> 2 * length ps" for ps
    by (induction ps) (auto simp: phase_work_def split: phase.split)
  then show ?thesis by (simp add: open_work_def)
qed

definition all_answered :: "'m server_state \<Rightarrow> bool" where
  "all_answered s \<longleftrightarrow> list_all (\<lambda>p. p \<noteq> Waiting \<and> p \<noteq> Running) (sv_phases s)"

lemma stuck_answered:
  assumes "\<forall>s'. \<not> work_step serve s s'"
  shows "all_answered s"
proof -
  have run: "sv_phases s ! i \<noteq> Running" if "i < length (sv_phases s)" for i
  proof
    assume "sv_phases s ! i = Running"
    moreover obtain ts m outc where "serve (sv_jobs s ! i) (sv_model s) = (ts, m, outc)" by (metis prod_cases3)
    ultimately show False using assms that work_step.finish [of i s serve ts m] work_step.panic [of i s serve ts m]
      by (cases outc) blast+
  qed
  then have "unlocked s" by (simp add: unlocked_def list_all_length)
  then have "sv_phases s ! i \<noteq> Waiting" if "i < length (sv_phases s)" for i
    using assms that work_step.lock [of i s serve] work_step.refused [of i s serve] by (cases "sv_poisoned s") blast+
  with run show ?thesis by (simp add: all_answered_def list_all_length)
qed

section \<open>After a panic\<close>

text \<open>One panic ends the service: every request answered later gets no token and no result, which the
  handler turns into an empty answer with status 200.\<close>

lemma poisoned_stays: "server_step serve s s' \<Longrightarrow> sv_poisoned s \<Longrightarrow> unlocked s \<Longrightarrow> sv_poisoned s' \<and> unlocked s'"
proof (induction rule: server_step.induct)
  case (work s s')
  then show ?case
  proof (induction rule: work_step.induct)
    case (refused i s)
    have "unlocked (s\<lparr>sv_phases := (sv_phases s)[i := Answered [] None]\<rparr>)"
      by (rule unlocked_refused [OF refused.hyps(3)]) simp
    with refused show ?case by simp
  qed (auto simp: unlocked_def list_all_length)
qed (simp add: unlocked_def)

lemma poisoned_answers_empty:
  assumes "server_step serve s s'" "sv_poisoned s" "unlocked s" "i < length (sv_phases s')"
    "sv_phases s' ! i = Answered ts r" "\<not> (i < length (sv_phases s) \<and> sv_phases s ! i = Answered ts r)"
  shows "ts = [] \<and> r = None"
  using assms
proof (induction rule: server_step.induct)
  case (work s s')
  then show ?case
    by (induction rule: work_step.induct) (auto simp: unlocked_def list_all_length nth_list_update split: if_splits)
qed (auto simp: nth_append split: if_splits)

lemma refused_reply_looks_done:
  assumes "\<not> jb_stream j" "generate_reply model now total_ns load_ns j [] None = Collected c"
  shows "cs_done c \<and> cs_done_reason c = Some ''stop'' \<and> gc_response c = []"
  using assms by (auto simp: generate_reply_def collect_generate_def generate_final_chunk_def)

section \<open>Serializability\<close>

text \<open>C14. Concurrent requests are serializable: whatever the interleaving of the request threads, there is
  an order of the answered requests such that their answers, the model and the poisoning are
  those of a server that takes them one after another; at most one request runs at a time; and
  from there the threads take at most two steps per request and stop only when every request is
  answered.\<close>

theorem requests_serialized:
  assumes "(server_step serve)\<^sup>*\<^sup>* (server_start m) s"
  shows "\<exists>order. distinct order \<and> snd (in_order serve order m s) = (sv_model s, sv_poisoned s) \<and>
      (\<forall>i < length (sv_phases s). (i \<in> set order \<longleftrightarrow> sv_phases s ! i \<noteq> Waiting \<and> sv_phases s ! i \<noteq> Running) \<and>
        (\<forall>ts r. sv_phases s ! i = Answered ts r \<longleftrightarrow> (i, ts, r) \<in> set (fst (in_order serve order m s)))) \<and>
      (\<forall>i j. i < length (sv_phases s) \<and> j < length (sv_phases s) \<and> sv_phases s ! i = Running \<and> sv_phases s ! j = Running \<longrightarrow> i = j) \<and>
      (\<forall>n s'. (work_step serve ^^ n) s s' \<longrightarrow> n \<le> 2 * length (sv_jobs s) \<and>
        ((\<forall>s''. \<not> work_step serve s' s'') \<longrightarrow> all_answered s'))"
proof -
  obtain order where order: "serialized serve m order s" using reachable_serialized [OF assms] by blast
  have "n \<le> 2 * length (sv_jobs s)" if "(work_step serve ^^ n) s s'" for n s'
    using work_run_less [OF that] open_work_bound [of s] order by (simp add: serialized_def)
  then show ?thesis using order stuck_answered [of serve] unfolding serialized_def by (intro exI [of _ order]) simp
qed

definition demo_serve :: "nat serve" where
  "demo_serve j n = ([], Suc n, Some None)"

definition demo_job :: job where
  "demo_job = generate_job \<lparr>rq_model = ''m'', rq_prompt = ''p'', rq_stream = None, rq_options = None\<rparr>"

lemma demo_requests:
  "(server_step demo_serve)\<^sup>*\<^sup>* (server_start 0)
     \<lparr>sv_jobs = [demo_job, demo_job], sv_phases = [Waiting, Answered [] None], sv_model = 1, sv_poisoned = False\<rparr>"
proof -
  let ?s = "\<lambda>ps n. \<lparr>sv_jobs = [demo_job, demo_job], sv_phases = ps, sv_model = n, sv_poisoned = False\<rparr>"
  have "server_step demo_serve (server_start 0) \<lparr>sv_jobs = [demo_job], sv_phases = [Waiting], sv_model = 0, sv_poisoned = False\<rparr>"
    using arrive [of demo_serve "server_start 0" demo_job] by (simp add: server_start_def)
  moreover have "server_step demo_serve \<lparr>sv_jobs = [demo_job], sv_phases = [Waiting], sv_model = 0, sv_poisoned = False\<rparr> (?s [Waiting, Waiting] 0)"
    using arrive [of demo_serve "\<lparr>sv_jobs = [demo_job], sv_phases = [Waiting], sv_model = 0, sv_poisoned = False\<rparr>" demo_job] by simp
  moreover have "server_step demo_serve (?s [Waiting, Waiting] 0) (?s [Waiting, Running] 0)"
    using work [OF lock [of 1 "?s [Waiting, Waiting] 0" demo_serve]] by (simp add: unlocked_def)
  moreover have "server_step demo_serve (?s [Waiting, Running] 0) (?s [Waiting, Answered [] None] 1)"
    using work [OF finish [of 1 "?s [Waiting, Running] 0" demo_serve "[]" 1 None]] by (simp add: demo_serve_def)
  ultimately show ?thesis by (meson converse_rtranclp_into_rtranclp rtranclp.rtrancl_refl)
qed

theorem requests_serialized_witness:
  "\<exists>order. distinct order \<and> snd (in_order demo_serve order 0 \<lparr>sv_jobs = [demo_job, demo_job],
      sv_phases = [Waiting, Answered [] None], sv_model = 1, sv_poisoned = False\<rparr>) = (1, False)"
  using requests_serialized [OF demo_requests] by auto

end
