(* ===== verification/Persistence.thy ===== *)
theory Persistence
  imports Profiler Coactivation
begin

text \<open>
  What is kept in files: the hardware profile (\<open>profiler/mod.rs\<close>) and the co-activation matrix
  (\<open>cache/coactivation.rs\<close>, and \<open>Drop\<close> and \<open>build_prefetch_state\<close> of \<open>compute/nvme_backend.rs\<close>).
  Writing and reading JSON are arguments.  The lemmas say that a profile made once is used until
  it is stale, that a matrix comes back in the next session, and which matrices share a file.
\<close>

section \<open>Paths\<close>

definition slash :: char where "slash = CHR 0x2F"

definition path_join :: "string \<Rightarrow> string \<Rightarrow> string" where
  "path_join a b = (if a = [] \<or> last a = slash then a @ b else a @ [slash] @ b)"

text \<open>\<open>Path::file_name\<close> and \<open>Path::file_stem\<close>.\<close>

definition file_name :: "string \<Rightarrow> string option" where
  "file_name path = (case rev (filter (\<lambda>p. p \<noteq> [] \<and> p \<noteq> ''.'') (split_char slash path)) of
      [] \<Rightarrow> None
    | p # _ \<Rightarrow> if p = ''..'' then None else Some p)"

definition stem_of :: "string \<Rightarrow> string" where
  "stem_of name = (case rfind_char (CHR ''.'') name of
      None \<Rightarrow> name
    | Some i \<Rightarrow> if i = 0 then name else take i name)"

definition dirs_path :: "string option \<Rightarrow> string" where
  "dirs_path home = path_join (unwrap_or home ''/tmp'') ''.hypura''"

definition profile_path :: "string option \<Rightarrow> string" where
  "profile_path home = path_join (dirs_path home) ''hardware_profile.json''"

definition persistence_path :: "string option \<Rightarrow> string \<Rightarrow> string" where
  "persistence_path home model_path =
     (let model_name = unwrap_or (map_option stem_of (file_name model_path)) ''unknown''
      in path_join (path_join (path_join (unwrap_or home ''/tmp'') ''.hypura'') ''coactivation'') (model_name @ ''.json''))"

section \<open>The hardware profile\<close>

text \<open>Files are a map from paths to contents; \<open>ok\<close> says whether the system lets them be written.  A
  profile is kept with its time.\<close>

type_synonym files = "string \<rightharpoonup> string"
type_synonym timed_profile = "int \<times> hardware_profile"

definition save_profile :: "(timed_profile \<Rightarrow> string option) \<Rightarrow> string option \<Rightarrow> bool \<Rightarrow> timed_profile \<Rightarrow> files \<Rightarrow> (string \<times> files) option" where
  "save_profile to_json home ok p fs = (case to_json p of
      None \<Rightarrow> None
    | Some json \<Rightarrow> if ok then Some (profile_path home, fs(profile_path home \<mapsto> json)) else None)"

text \<open>\<open>None\<close> is an error, \<open>Some None\<close> that there is no profile.\<close>

definition load_cached_profile :: "(string \<Rightarrow> timed_profile option) \<Rightarrow> string option \<Rightarrow> files \<Rightarrow> timed_profile option option" where
  "load_cached_profile from_json home fs = (case fs (profile_path home) of
      None \<Rightarrow> Some None
    | Some json \<Rightarrow> map_option Some (from_json json))"

definition load_or_profile :: "(timed_profile \<Rightarrow> string option) \<Rightarrow> (string \<Rightarrow> timed_profile option) \<Rightarrow> string option \<Rightarrow> bool \<Rightarrow>
    int \<Rightarrow> int \<Rightarrow> probe \<Rightarrow> files \<Rightarrow> hardware_profile option outcome \<times> files" where
  "load_or_profile to_json from_json home ok now profiled_at pb fs =
     (let fresh = (case run_full_profile pb of
            Panic \<Rightarrow> (Panic, fs)
          | Ret None \<Rightarrow> (Ret None, fs)
          | Ret (Some p) \<Rightarrow> (case save_profile to_json home ok (profiled_at, p) fs of
                None \<Rightarrow> (Ret None, fs)
              | Some (_, fs') \<Rightarrow> (Ret (Some p), fs')))
      in case load_cached_profile from_json home fs of
           None \<Rightarrow> (Ret None, fs)
         | Some (Some (timestamp, p)) \<Rightarrow> if \<not> is_profile_stale now timestamp then (Ret (Some p), fs) else fresh
         | Some None \<Rightarrow> fresh)"

section \<open>The co-activation matrix\<close>

definition save_matrix :: "(coactivation \<Rightarrow> string option) \<Rightarrow> bool \<Rightarrow> string \<Rightarrow> coactivation \<Rightarrow> files \<Rightarrow> files option" where
  "save_matrix to_json ok path c fs = (case to_json c of
      None \<Rightarrow> None
    | Some json \<Rightarrow> if ok then Some (fs(path \<mapsto> json)) else None)"

definition load_matrix :: "(string \<Rightarrow> coactivation option) \<Rightarrow> string \<Rightarrow> files \<Rightarrow> coactivation option" where
  "load_matrix from_json path fs = Option.bind (fs path) from_json"

text \<open>When the prefetch state goes, a matrix with data is saved; an error is only logged.\<close>

definition drop_saves :: "(coactivation \<Rightarrow> string option) \<Rightarrow> string option \<Rightarrow> bool \<Rightarrow> string \<Rightarrow> coactivation \<Rightarrow> files \<Rightarrow> files" where
  "drop_saves to_json home ok model_path c fs =
     (if has_data c then (case save_matrix to_json ok (persistence_path home model_path) c fs of
          None \<Rightarrow> fs | Some fs' \<Rightarrow> fs')
      else fs)"

definition load_or_new :: "(string \<Rightarrow> coactivation option) \<Rightarrow> string option \<Rightarrow> string \<Rightarrow> u32 \<Rightarrow> u32 \<Rightarrow> files \<Rightarrow> coactivation" where
  "load_or_new from_json home model_path num_layers num_experts fs =
     (if 0 < num_experts then (case load_matrix from_json (persistence_path home model_path) fs of
          Some c \<Rightarrow> c
        | None \<Rightarrow> ca_new num_layers num_experts)
      else ca_new num_layers (max num_experts 1))"

section \<open>Coming back\<close>

lemma current_profile_is_loaded:
  assumes "\<And>p. to_json p \<noteq> None"
  shows "fst (load_or_profile to_json from_json home ok now profiled_at pb fs)
     = current_profile now (load_cached_profile from_json home fs) ok pb"
proof -
  define json where "json = (\<lambda>p. the (to_json p))"
  have json: "to_json = (\<lambda>p. Some (json p))" by (rule ext) (simp add: json_def option.collapse [OF assms])
  have fresh: "fst (case run_full_profile pb of
            Panic \<Rightarrow> (Panic, fs)
          | Ret None \<Rightarrow> (Ret None, fs)
          | Ret (Some p) \<Rightarrow> (case save_profile to_json home ok (profiled_at, p) fs of
                None \<Rightarrow> (Ret None, fs)
              | Some (_, fs') \<Rightarrow> (Ret (Some p), fs')))
      = omap (\<lambda>r. if ok then r else None) (run_full_profile pb)"
    by (cases "run_full_profile pb") (simp_all add: save_profile_def json split: option.split)
  show ?thesis
  proof (cases "load_cached_profile from_json home fs")
    case (Some c)
    then show ?thesis by (cases c) (auto simp: load_or_profile_def current_profile_def Let_def fresh)
  qed (simp add: load_or_profile_def current_profile_def)
qed

text \<open>A command that had a profile leaves one in the file, and every later command uses exactly that
  one, without profiling, until it is 31 days old.\<close>

lemma profile_used_until_stale:
  assumes json: "\<And>p s. to_json p = Some s \<Longrightarrow> from_json s = Some p"
    and run: "load_or_profile to_json from_json home ok now profiled_at pb fs = (Ret (Some p), fs')"
  shows "\<exists>timestamp. load_cached_profile from_json home fs' = Some (Some (timestamp, p)) \<and>
    (\<forall>now' ok' at' pb'. now' - timestamp < 31 * 86400000 \<longrightarrow>
       load_or_profile to_json from_json home ok' now' at' pb' fs' = (Ret (Some p), fs'))"
proof -
  have cached: "\<exists>timestamp. load_cached_profile from_json home fs' = Some (Some (timestamp, p))"
    using run by (auto simp: load_or_profile_def Let_def save_profile_def load_cached_profile_def
        split: option.splits outcome.splits if_splits prod.splits dest: json)
  then obtain timestamp where c: "load_cached_profile from_json home fs' = Some (Some (timestamp, p))" by blast
  moreover have "load_or_profile to_json from_json home ok' now' at' pb' fs' = (Ret (Some p), fs')"
    if "now' - timestamp < 31 * 86400000" for now' ok' at' pb'
    using that c by (simp add: load_or_profile_def stale_iff)
  ultimately show ?thesis by blast
qed

text \<open>A matrix with data is there again in the next session of the model.\<close>

lemma matrix_comes_back:
  assumes "\<And>c s. to_json c = Some s \<Longrightarrow> from_json s = Some c" "to_json c \<noteq> None" "has_data c" "0 < num_experts"
  shows "load_or_new from_json home model_path num_layers num_experts (drop_saves to_json home True model_path c fs) = c"
  using assms by (auto simp: load_or_new_def drop_saves_def save_matrix_def load_matrix_def)

text \<open>The file is found by the stem of the model's name alone, and its matrix is taken as it is: a
  model gets the matrix of another one with other dimensions.\<close>

lemma models_share_matrix:
  assumes "\<And>c s. to_json c = Some s \<Longrightarrow> from_json s = Some c" "to_json c \<noteq> None" "has_data c" "0 < num_experts"
  shows "load_or_new from_json home ''b/model.Q4.gguf'' num_layers num_experts
     (drop_saves to_json home True ''a/model.Q4.gguf'' c fs) = c"
proof -
  have "file_name ''a/model.Q4.gguf'' = file_name ''b/model.Q4.gguf''" by code_simp
  then have eq: "drop_saves to_json home True ''a/model.Q4.gguf'' c fs = drop_saves to_json home True ''b/model.Q4.gguf'' c fs"
    by (simp only: drop_saves_def persistence_path_def)
  show ?thesis unfolding eq by (rule matrix_comes_back [where to_json = to_json]) (fact assms)+
qed

text \<open>Such a matrix ignores what is observed of the layers and experts it does not have.\<close>

lemma foreign_layer_ignored: "ca_num_layers c \<le> unat layer \<Longrightarrow> ca_record layer selected c = Ret c"
  by (simp add: ca_record_def)

end
