(* ===== verification/Spec2Isabelle.thy ===== *)
theory Spec2Isabelle
  imports Neuron_Cache Expert_Layout Metadata Plan Dense_Window Optimize Llama_Ffi Session Server
    Iobench Async_Reader Trace_Summary Reports Requests Persistence
begin

text \<open>
  A verification library for hypura, which runs language models that are larger than the memory of
  the machine.  It reads the header of a GGUF file, decides for every tensor whether it lives on the
  GPU, in RAM or on the SSD (NVMe), tells llama.cpp which layers to put on the GPU and which tensors to
  put into a buffer of its own, and during the computation reads the tensors of that buffer from the
  file ahead of their use and gives their memory back afterwards.  Paths below are relative to
  \<open>src/src/\<close>.

  \<^bold>\<open>Parts and how they interact.\<close>  \<open>model/\<close> parses the file and names the roles of its tensors.
  \<open>profiler/\<close> measures the machine.  \<open>scheduler/\<close> makes a placement plan from both.  \<open>compute/\<close> loads the
  model: \<open>inference.rs\<close> derives the number of GPU layers, \<open>nvme_backend.rs\<close> receives llama.cpp's
  buffer callbacks, keeps the table of the tensors in its buffer (the controller), builds the prefetch
  state from it and serves llama.cpp's evaluation callback with the help of a pool of I/O threads;
  \<open>cache/\<close> holds the slice cache, the co-activation matrix and the key/value window it uses.  \<open>server/\<close>
  and \<open>cli/\<close> are the two users of a session.

  \<^bold>\<open>Conventions.\<close>  Machine integers are words; \<open>+\<close> and \<open>*\<close> wrap as in a release build, and a theorem that
  needs the exact value has a hypothesis that excludes the overflow.  \<open>f64\<close> is modelled exactly
  (\<open>F64\<close>): a finite value is its rational, every operation rounds half to even; only the sign of zero
  is left out.  A panic is \<open>Panic\<close>, an error \<open>Inl\<close> or \<open>None\<close>.  A \<open>HashMap\<close> is an association list with
  distinct keys; where the order of its iteration decides the result the order is an argument.
  A text is the list of its UTF-8 bytes.  Memory is a map from
  addresses to bytes, so that aliasing and released pages are visible.  The clock, \<open>pread\<close>, the solver,
  llama.cpp, JSON and the operating system are arguments.

  \<^bold>\<open>Theories.\<close>
  \<^item> \<open>Prelude\<close>: integer types, \<open>outcome\<close>, hash maps, stable sort, strings and decimals.  \<open>F64\<close>: floats.
  \<^item> \<open>Gguf\<close> (\<open>model/gguf.rs\<close>), \<open>Metadata\<close> (\<open>model/metadata.rs\<close>), \<open>Tensor_Role\<close> (\<open>model/tensor_role.rs\<close>):
    a reader is a function from the rest of the bytes to a value or an error; the locale \<open>codec\<close> pairs
    a reader with its encoder and is interpreted for every width, strings, nested values and tensor
    entries.  The parser inverts the encoding, depends on the header only and rejects every cut file.
  \<^item> \<open>Sched_Types\<close> (\<open>profiler/types.rs\<close>, \<open>scheduler/types.rs\<close>), \<open>Placement\<close>, \<open>Greedy\<close>, \<open>Lp\<close>, \<open>Plan\<close>
    (\<open>scheduler/placement.rs\<close>, \<open>scheduler/prefetch.rs\<close>), \<open>Estimator\<close> (\<open>scheduler/estimator.rs\<close>): capacities,
    scores, the two streaming placements (clients of the locale \<open>streaming_placement\<close>), the greedy
    cut-off, the mixed integer program with the solver as a parameter, the choice among them, the
    prefetch schedule, and the estimate, which agrees with the plan's on models without NVMe tensors.
  \<^item> \<open>Gpu_Layers\<close> (\<open>inference.rs\<close>: \<open>compute_gpu_budget\<close>, \<open>gpu_layers_from_placement\<close>), \<open>Buft_Controller\<close>
    (\<open>nvme_backend.rs\<close>: \<open>HypuraBuftController\<close>, \<open>build_override_patterns\<close>): the numbers and patterns
    llama.cpp gets.  The GPU never has to read an NVMe tensor, and none is lost between the two decisions.
  \<^item> \<open>Neuron_Cache\<close> and \<open>Coactivation\<close> (\<open>cache/\<close>), \<open>Expert_Layout\<close> (\<open>io/expert_layout.rs\<close>), \<open>Expert_Pool\<close>
    (\<open>ExpertPool\<close>): the data structures of the streaming modes.  The slice cache is an LRU cache (against
    a reference over the history); the pool's slots stay disjoint; the locales \<open>slice_cache\<close> and
    \<open>slot_store\<close> are what the loaders use of them.
  \<^item> \<open>Io_Pool\<close>, \<open>Prefetch_State\<close>, \<open>Expert_Loading\<close>, \<open>Eval_Callback\<close> (\<open>nvme_backend.rs\<close>): the read loop, the
    worker as steps (take, read, count down, notify), loading, waiting, releasing and prefetching of
    layers, experts and FFN tensors, and the evaluation callback in its three modes.
  \<^item> \<open>Layer_Protocol\<close>, \<open>Loading_Correct\<close>: the inference thread and any number of workers interleaved.  A
    layer is computed on exactly the bytes of the file, the wait of a layer returns when it is there,
    and a waiting thread is woken after a bounded number of worker steps.  \<open>Streaming_Modes\<close>,
    \<open>Dense_Window\<close>: what is queued for experts, and that a pass over the layers in dense FFN streaming
    never loses the slots of the layer it computes.  \<open>Model_Loading\<close>: from the reported tensors to the
    protocol's initial state, so that the bytes of each streamed tensor are those of the file.
  \<^item> \<open>Kv_Cache\<close> (\<open>cache/kv_cache.rs\<close>), \<open>Llama_Ffi\<close> (\<open>compute/ffi.rs\<close>), \<open>Generation\<close>, \<open>Session\<close>
    (\<open>inference.rs\<close>): the window of positions, tokenizer and sampler wrappers, the generation loop with
    the hooks of its three variants, and how a session decides on residency, starts pools and workers.
    \<open>Session\<close> refines \<open>Layer_Protocol\<close>.
  \<^item> \<open>Server\<close>, \<open>Requests\<close> (\<open>server/\<close>): the streamed response as a step relation of thread, task and client;
    the request threads around the model's mutex, which are serializable.
  \<^item> \<open>Formats\<close>, \<open>Cli\<close>, \<open>Reports\<close> (\<open>cli/\<close>, the handlers for tags and show): preparing the plan of a file, the
    interactive conversation, the benchmark's records, the printed reports.  \<open>Persistence\<close>: saved files.
  \<^item> \<open>Optimize\<close> (\<open>cli/optimize.rs\<close>): every expert's bytes are moved to the place its permutation names.
  \<^item> \<open>Profiler\<close> (\<open>profiler/\<close>), \<open>Iobench\<close> (\<open>cli/iobench.rs\<close>), \<open>Async_Reader\<close> (\<open>io/async_reader.rs\<close>,
    \<open>io/aligned_buffer.rs\<close>), \<open>Trace_Summary\<close> (\<open>print_trace_summary\<close>): measuring and reporting.

  \<^bold>\<open>Loops, bounds and fuel.\<close>  Loops are structural recursions or functions with a measure.  The wait for a
  layer is a \<open>partial_function\<close> over an oracle of what the workers do meanwhile; that it returns is a
  theorem (\<open>ensure_layer_loaded_correct\<close>), and that the workers get there is another
  (\<open>waiting_thread_is_woken\<close>).  The generation loop runs \<open>max_tokens\<close> times at most, which is its recursion
  argument, not a bound of the model.  No definition has fuel.  Step relations (workers, streamed
  response, request threads, benchmark threads, background reader) have a measure that falls with every
  step of the program, so that runs end; only the environment's moves (requests, arrivals) are unbounded.

  \<^bold>\<open>Where the code goes wrong.\<close>  Behaviour that looks unintended is modelled as it is and stated as a
  lemma beside the component: reads that fail but count as loaded (\<open>read_error_marks_loaded\<close>), a wait
  without a buffer (\<open>null_base_hangs\<close>), a slice cache that is ahead of the reads
  (\<open>speculative_prefetch_race\<close>), slots lost by a resident layer (\<open>evicted_layer_stays_loaded\<close>,
  \<open>next_pass_evicts_current_layer\<close>), slices of different tensors under one key (\<open>same_kind_collides\<close>), an
  optimized file that is read with logical expert numbers (\<open>optimized_buffer_order\<close>), a turn forged by
  markers in a message (\<open>forged_turn\<close>), a poisoned mutex (\<open>poisoned_answers_empty\<close>), and others.

  \<^bold>\<open>Not modelled.\<close>  The C side of the buffer type and the bindings (\<open>hypura-sys\<close>), whose calls are arguments;
  the argument parser of \<open>main.rs\<close>; the telemetry channel of \<open>telemetry/metrics.rs\<close>, a call of a library that
  nothing reads back; the system calls behind the profiler; the start of the HTTP server and its routing
  table; serialization to JSON; log messages; destructors that only free memory; page advice and thread
  priorities, which change speed and not results.  \<open>io/wear_monitor.rs\<close>, \<open>compute/backend.rs\<close> and
  \<open>model/safetensors.rs\<close> are stubs without behaviour.
\<close>

section \<open>From the file to the plan\<close>


definition demo_file_tensors :: "tensor_info list" where
  "demo_file_tensors = [mk_tensor_info ''blk.0.ffn_up.weight'' [4096, 4096] 12 0, mk_tensor_info ''output.weight'' [4096, 32000] 14 0]"


end
